(* ===== verification/Prelude.thy ===== *)
theory Prelude
  imports Main "HOL-Library.Word" "HOL-Library.AList"
begin

text \<open>
  The shared base of the development: Rust's fixed-width integers and their casts,
  big-endian byte conversions, decimal and hexadecimal printing as \<^verbatim>\<open>format!\<close> does it,
  decimal parsing as \<^verbatim>\<open>str::parse\<close> does it, and the list facts that the codec, HPACK and
  engine theories use.

  Conventions of the whole library: a byte is an \<open>8 word\<close>, \<^verbatim>\<open>u16\<close> and \<^verbatim>\<open>u32\<close> are words of
  that width (arithmetic wraps, as in a release build), \<^verbatim>\<open>i32\<close> is an \<open>int\<close> whose casts
  are written out with \<open>as_i32\<close>, \<^verbatim>\<open>usize\<close> (lengths, offsets) is \<open>nat\<close>, and \<^verbatim>\<open>Result<T, E>\<close> is
  \<open>'e + 't\<close> with \<open>Inl\<close> for the error. A Rust \<^verbatim>\<open>String\<close> or \<^verbatim>\<open>&str\<close> that reaches
  the wire is the list of its UTF-8 bytes; message texts are \<open>string\<close>s.
\<close>

unbundle bit_operations_syntax

type_synonym u8 = "8 word"
type_synonym u16 = "16 word"
type_synonym u32 = "32 word"
type_synonym u64 = "64 word"
type_synonym i32 = int
type_synonym bytes = "8 word list"

named_theorems be_simps \<open>conversions between words and their big-endian bytes\<close>
named_theorems range_simps \<open>bounds of casts between Rust integer types\<close>

subsection \<open>Casts\<close>

definition i32_max :: int where
  "i32_max = 2147483647"

definition i32_min :: int where
  "i32_min = - 2147483648"

text \<open>\<^verbatim>\<open>as i32\<close> from any wider or unsigned integer: reduction modulo \<open>2 ^ 32\<close> into the signed range.\<close>

definition as_i32 :: "int \<Rightarrow> i32" where
  "as_i32 x = (x + 2147483648) mod 4294967296 - 2147483648"

text \<open>\<^verbatim>\<open>as u32\<close> of a non-negative or negative integer, and of a length.\<close>

definition as_u32 :: "int \<Rightarrow> u32" where
  "as_u32 x = word_of_int x"

definition len_u32 :: "'a list \<Rightarrow> u32" where
  "len_u32 xs = word_of_nat (length xs)"

subsection \<open>Big-endian bytes\<close>

definition u16_to_be :: "u16 \<Rightarrow> bytes" where
  "u16_to_be w = [ucast (drop_bit 8 w), ucast w]"

definition u16_of_be :: "u8 \<Rightarrow> u8 \<Rightarrow> u16" where
  "u16_of_be a b = push_bit 8 (ucast a) OR ucast b"

definition u32_to_be :: "u32 \<Rightarrow> bytes" where
  "u32_to_be w =
     [ucast (drop_bit 24 w), ucast (drop_bit 16 w), ucast (drop_bit 8 w), ucast w]"

definition u32_of_be :: "u8 \<Rightarrow> u8 \<Rightarrow> u8 \<Rightarrow> u8 \<Rightarrow> u32" where
  "u32_of_be a b c d =
     push_bit 24 (ucast a) OR push_bit 16 (ucast b) OR push_bit 8 (ucast c) OR ucast d"

subsection \<open>Text: literals, printing and parsing of numbers\<close>

text \<open>The bytes of a string literal.\<close>

definition ascii :: "string \<Rightarrow> bytes" where
  "ascii s = map of_char s"

fun show_nat :: "nat \<Rightarrow> string" where
  "show_nat n =
     (if n < 10 then [char_of (48 + n)] else show_nat (n div 10) @ [char_of (48 + n mod 10)])"

declare show_nat.simps [simp del]

definition show_int :: "int \<Rightarrow> string" where
  "show_int i = (if i < 0 then CHR ''-'' # show_nat (nat (- i)) else show_nat (nat i))"

definition hex_digit :: "nat \<Rightarrow> char" where
  "hex_digit d = (if d < 10 then char_of (48 + d) else char_of (87 + d))"

text \<open>\<^verbatim>\<open>{:04x}\<close> of a 16-bit value.\<close>

definition show_hex4 :: "nat \<Rightarrow> string" where
  "show_hex4 n =
     map hex_digit [n div 4096 mod 16, n div 256 mod 16, n div 16 mod 16, n mod 16]"

text \<open>
  \<^verbatim>\<open>str::parse\<close> for an unsigned type with maximum \<open>m\<close>: an optional plus sign, then one or
  more decimal digits, and an error as soon as the value exceeds the type.
\<close>

fun parse_digits :: "nat \<Rightarrow> nat \<Rightarrow> bytes \<Rightarrow> nat option" where
  "parse_digits m acc [] = Some acc"
| "parse_digits m acc (c # cs) =
     (if 48 \<le> unat c \<and> unat c \<le> 57
      then (let v = 10 * acc + (unat c - 48) in if v \<le> m then parse_digits m v cs else None)
      else None)"

definition parse_unsigned :: "nat \<Rightarrow> bytes \<Rightarrow> nat option" where
  "parse_unsigned m s =
     (case s of
        [] \<Rightarrow> None
      | c # cs \<Rightarrow>
          if c = 43 then (if cs = [] then None else parse_digits m 0 cs)
          else parse_digits m 0 (c # cs))"

subsection \<open>Facts on casts\<close>

lemma as_i32_id [simp]: "i32_min \<le> x \<Longrightarrow> x \<le> i32_max \<Longrightarrow> as_i32 x = x"
  by (simp add: as_i32_def i32_min_def i32_max_def)

lemma as_i32_range [range_simps]: "i32_min \<le> as_i32 x" "as_i32 x \<le> i32_max"
proof -
  have "0 \<le> (x + 2147483648) mod 4294967296" "(x + 2147483648) mod 4294967296 < 4294967296"
    by simp_all
  then show "i32_min \<le> as_i32 x" "as_i32 x \<le> i32_max"
    by (simp_all add: as_i32_def i32_min_def i32_max_def)
qed

lemma uint_u32_range [range_simps]: "0 \<le> uint (w :: u32)" "uint (w :: u32) \<le> 4294967295"
proof -
  have "uint w < 2 ^ 32" using uint_lt2p [of w] by simp
  then show "0 \<le> uint w" "uint w \<le> 4294967295" by simp_all
qed

lemma unat_u32_le [range_simps]: "unat (w :: u32) \<le> 4294967295"
proof -
  have "unat w < 2 ^ 32" using unsigned_less [of w, where ?'a = nat] by simp
  then show ?thesis by simp
qed

lemma unat_u8_le [range_simps]: "unat (w :: u8) \<le> 255"
proof -
  have "unat w < 2 ^ 8" using unsigned_less [of w, where ?'a = nat] by simp
  then show ?thesis by simp
qed

lemma uint_as_u32: "0 \<le> x \<Longrightarrow> x \<le> 4294967295 \<Longrightarrow> uint (as_u32 x) = x"
  by (simp add: as_u32_def uint_word_of_int)

lemma unat_len_u32: "length xs < 4294967296 \<Longrightarrow> unat (len_u32 xs) = length xs"
  by (simp add: len_u32_def unat_of_nat)

lemma uint_len_u32: "length xs < 4294967296 \<Longrightarrow> uint (len_u32 xs) = int (length xs)"
  by (simp add: uint_nat unat_len_u32)

subsection \<open>Facts on big-endian bytes\<close>

lemma length_u16_to_be [simp]: "length (u16_to_be w) = 2"
  by (simp add: u16_to_be_def)

lemma length_u32_to_be [simp]: "length (u32_to_be w) = 4"
  by (simp add: u32_to_be_def)

lemma u16_of_to_be [be_simps]: "u16_of_be (ucast (drop_bit 8 w)) (ucast w) = w"
proof (rule bit_word_eqI)
  fix n assume "n < LENGTH(16)"
  then show "bit (u16_of_be (ucast (drop_bit 8 w)) (ucast w)) n = bit w n"
    by (cases "n < 8") (auto simp: u16_of_be_def bit_simps)
qed

lemma u32_of_to_be [be_simps]:
  "u32_of_be (ucast (drop_bit 24 w)) (ucast (drop_bit 16 w)) (ucast (drop_bit 8 w)) (ucast w) = w"
proof (rule bit_word_eqI)
  fix n assume n: "n < LENGTH(32)"
  consider "n < 8" | "8 \<le> n" "n < 16" | "16 \<le> n" "n < 24" | "24 \<le> n" "n < 32"
    using n by fastforce
  then show "bit (u32_of_be (ucast (drop_bit 24 w)) (ucast (drop_bit 16 w))
      (ucast (drop_bit 8 w)) (ucast w)) n = bit w n"
    by cases (auto simp: u32_of_be_def bit_simps)
qed

lemma unat_mask31: "unat ((w :: u32) AND 0x7FFFFFFF) = unat w mod 2 ^ 31"
proof -
  have "w AND 0x7FFFFFFF = take_bit 31 w"
    by (simp add: take_bit_eq_mask mask_eq_exp_minus_1)
  then show ?thesis by (simp add: take_bit_eq_mod unat_mod_distrib)
qed

lemma mask31_id: "unat (w :: u32) < 2 ^ 31 \<Longrightarrow> w AND 0x7FFFFFFF = w"
  by (rule word_unat_eq_iff [THEN iffD2]) (simp only: unat_mask31 mod_less)

lemma mask31_less: "unat ((w :: u32) AND 0x7FFFFFFF) < 2 ^ 31"
  by (simp only: unat_mask31) simp

lemma mask31_le: "unat ((w :: u32) AND 0x7FFFFFFF) \<le> 2147483647"
  using mask31_less [of w] by simp

subsection \<open>Facts on lists\<close>

lemma take_drop_split: "n \<le> length xs \<Longrightarrow> \<exists>ys zs. xs = ys @ zs \<and> length ys = n"
  by (rule exI [of _ "take n xs"], rule exI [of _ "drop n xs"]) simp

lemma length_9_conv:
  assumes "9 \<le> length xs"
  obtains a b c d e f g h i rest where "xs = [a, b, c, d, e, f, g, h, i] @ rest"
proof -
  have "\<exists>a b c d e f g h i rest. xs = [a, b, c, d, e, f, g, h, i] @ rest"
    using assms by (simp add: Suc_le_length_iff numeral_eq_Suc) blast
  then show ?thesis using that by blast
qed

text \<open>\<^verbatim>\<open>slice::chunks\<close>: pieces of \<open>n\<close> elements, the last one may be shorter.\<close>

function chunks :: "nat \<Rightarrow> 'a list \<Rightarrow> 'a list list" where
  "chunks n xs = (if n = 0 \<or> xs = [] then [] else take n xs # chunks n (drop n xs))"
  by pat_completeness auto
termination
  by (relation "measure (\<lambda>(n, xs). length xs)") auto

declare chunks.simps [simp del]

lemma chunks_Nil [simp]: "chunks n [] = []"
  by (simp add: chunks.simps)

lemma concat_chunks: "0 < n \<Longrightarrow> concat (chunks n xs) = xs"
  by (induction n xs rule: chunks.induct) (simp add: chunks.simps)

lemma chunks_bounds: "c \<in> set (chunks n xs) \<Longrightarrow> c \<noteq> [] \<and> length c \<le> n"
proof (induction n xs rule: chunks.induct)
  case (1 n xs)
  then show ?case by (subst (asm) (2) chunks.simps) (auto split: if_splits)
qed

lemma chunks_eq_Nil: "0 < n \<Longrightarrow> chunks n xs = [] \<longleftrightarrow> xs = []"
  by (simp add: chunks.simps)

subsection \<open>64-bit words\<close>

definition u64_to_be :: "u64 \<Rightarrow> bytes" where
  "u64_to_be w = u32_to_be (ucast (drop_bit 32 w)) @ u32_to_be (ucast w)"

lemma length_u64_to_be [simp]: "length (u64_to_be w) = 8"
  by (simp add: u64_to_be_def)

lemma u16_to_be_inject: "u16_to_be v = u16_to_be w \<longleftrightarrow> v = w"
proof
  assume "u16_to_be v = u16_to_be w"
  then have eq: "(ucast (drop_bit 8 v) :: u8) = ucast (drop_bit 8 w)" "(ucast v :: u8) = ucast w"
    unfolding u16_to_be_def by blast+
  have "v = u16_of_be (ucast (drop_bit 8 v)) (ucast v)" by (rule u16_of_to_be [symmetric])
  also have "\<dots> = w" unfolding eq by (rule u16_of_to_be)
  finally show "v = w" .
qed simp

lemma u32_to_be_inject: "u32_to_be v = u32_to_be w \<longleftrightarrow> v = w"
proof
  assume "u32_to_be v = u32_to_be w"
  then have eq: "(ucast (drop_bit 24 v) :: u8) = ucast (drop_bit 24 w)" "(ucast (drop_bit 16 v) :: u8) = ucast (drop_bit 16 w)"
    "(ucast (drop_bit 8 v) :: u8) = ucast (drop_bit 8 w)" "(ucast v :: u8) = ucast w"
    unfolding u32_to_be_def by blast+
  have "v = u32_of_be (ucast (drop_bit 24 v)) (ucast (drop_bit 16 v)) (ucast (drop_bit 8 v)) (ucast v)"
    by (rule u32_of_to_be [symmetric])
  also have "\<dots> = w" unfolding eq by (rule u32_of_to_be)
  finally show "v = w" .
qed simp

lemma u64_to_be_inject: "u64_to_be v = u64_to_be w \<longleftrightarrow> v = w"
proof
  assume "u64_to_be v = u64_to_be w"
  then have eq: "(ucast (drop_bit 32 v) :: u32) = ucast (drop_bit 32 w)" "(ucast v :: u32) = ucast w"
    by (simp_all add: u64_to_be_def u32_to_be_inject)
  show "v = w"
  proof (rule bit_word_eqI)
    fix n assume n: "n < LENGTH(64)"
    show "bit v n = bit w n"
    proof (cases "n < 32")
      case True
      have "bit (ucast v :: u32) n = bit (ucast w :: u32) n" by (simp only: eq(2))
      then show ?thesis using True by (simp add: bit_ucast_iff)
    next
      case False
      have "bit (ucast (drop_bit 32 v) :: u32) (n - 32) = bit (ucast (drop_bit 32 w) :: u32) (n - 32)" by (simp only: eq(1))
      moreover have "n - 32 < 32" using n by simp
      ultimately show ?thesis using False by (simp add: bit_ucast_iff bit_drop_bit_eq)
    qed
  qed
qed simp

end
