(* ===== verification/H2_Stream.thy ===== *)
theory H2_Stream
  imports Prelude
begin

text \<open>
  The stream state machine and the stream's flow-control windows, \<^verbatim>\<open>lkh2/src/stream.rs\<close>. The windows
  are \<^verbatim>\<open>i32\<close> in the code: the model computes each new window as the code does, through the
  \<^verbatim>\<open>i64\<close> sum where there is one and through \<open>as_i32\<close> where the value is cast back.

  Two abstract views are refined: the lifecycle (which ends were closed, whether the stream was
  reset) and the window ledger (what the peer granted, what was spent) over unbounded integers.
\<close>

subsection \<open>States and errors\<close>

datatype StreamState =
  Idle | ReservedLocal | ReservedRemote | Open | HalfClosedLocal | HalfClosedRemote | Closed

definition can_send :: "StreamState \<Rightarrow> bool" where
  "can_send s \<longleftrightarrow> s = Open \<or> s = HalfClosedRemote"

definition can_receive :: "StreamState \<Rightarrow> bool" where
  "can_receive s \<longleftrightarrow> s = Open \<or> s = HalfClosedLocal"

definition is_closed :: "StreamState \<Rightarrow> bool" where
  "is_closed s \<longleftrightarrow> s = Closed"

definition is_active :: "StreamState \<Rightarrow> bool" where
  "is_active s \<longleftrightarrow> \<not> (s = Idle \<or> s = Closed)"

fun stream_state_display :: "StreamState \<Rightarrow> string" where
  "stream_state_display Idle = ''idle''"
| "stream_state_display ReservedLocal = ''reserved (local)''"
| "stream_state_display ReservedRemote = ''reserved (remote)''"
| "stream_state_display Open = ''open''"
| "stream_state_display HalfClosedLocal = ''half-closed (local)''"
| "stream_state_display HalfClosedRemote = ''half-closed (remote)''"
| "stream_state_display Closed = ''closed''"

datatype StreamError =
    InvalidTransition StreamState string
  | StreamFlowControlError i32 u32
  | WindowOverflow

fun stream_error_display :: "StreamError \<Rightarrow> string" where
  "stream_error_display (InvalidTransition from event) =
     ''invalid transition from '' @ stream_state_display from @ '' on event '' @ event"
| "stream_error_display (StreamFlowControlError window requested) =
     ''flow control error: window='' @ show_int window @ '', requested='' @ show_nat (unat requested)"
| "stream_error_display WindowOverflow = ''window size overflow''"

subsection \<open>The stream\<close>

record H2Stream =
  st_id :: u32
  st_state :: StreamState
  st_send_window :: i32
  st_recv_window :: i32
  st_initial_window_size :: u32

definition STREAM_DEFAULT_WINDOW :: u32 where
  "STREAM_DEFAULT_WINDOW = 65535"

definition stream_new :: "u32 \<Rightarrow> u32 \<Rightarrow> H2Stream" where
  "stream_new i initial_window_size =
     \<lparr>st_id = i, st_state = Idle, st_send_window = as_i32 (uint initial_window_size),
      st_recv_window = as_i32 (uint initial_window_size),
      st_initial_window_size = initial_window_size\<rparr>"

definition new_with_windows :: "u32 \<Rightarrow> u32 \<Rightarrow> u32 \<Rightarrow> H2Stream" where
  "new_with_windows i send_initial recv_initial =
     \<lparr>st_id = i, st_state = Idle, st_send_window = as_i32 (uint send_initial),
      st_recv_window = as_i32 (uint recv_initial), st_initial_window_size = send_initial\<rparr>"

definition with_default_window :: "u32 \<Rightarrow> H2Stream" where
  "with_default_window i = stream_new i STREAM_DEFAULT_WINDOW"

definition send_window_available :: "H2Stream \<Rightarrow> u32" where
  "send_window_available s = as_u32 (max (st_send_window s) 0)"

definition stream_open :: "H2Stream \<Rightarrow> StreamError + H2Stream" where
  "stream_open s =
     (if st_state s = Idle \<or> st_state s = ReservedLocal \<or> st_state s = ReservedRemote
      then Inr (s\<lparr>st_state := Open\<rparr>)
      else Inl (InvalidTransition (st_state s) ''open''))"

definition send_end_stream :: "H2Stream \<Rightarrow> StreamError + H2Stream" where
  "send_end_stream s =
     (case st_state s of
        Open \<Rightarrow> Inr (s\<lparr>st_state := HalfClosedLocal\<rparr>)
      | HalfClosedRemote \<Rightarrow> Inr (s\<lparr>st_state := Closed\<rparr>)
      | _ \<Rightarrow> Inl (InvalidTransition (st_state s) ''send_end_stream''))"

definition recv_end_stream :: "H2Stream \<Rightarrow> StreamError + H2Stream" where
  "recv_end_stream s =
     (case st_state s of
        Open \<Rightarrow> Inr (s\<lparr>st_state := HalfClosedRemote\<rparr>)
      | HalfClosedLocal \<Rightarrow> Inr (s\<lparr>st_state := Closed\<rparr>)
      | _ \<Rightarrow> Inl (InvalidTransition (st_state s) ''recv_end_stream''))"

definition stream_reset :: "H2Stream \<Rightarrow> H2Stream" where
  "stream_reset s = s\<lparr>st_state := Closed\<rparr>"

text \<open>Returns the consumed amount and the stream.\<close>

definition stream_consume_send_window :: "u32 \<Rightarrow> H2Stream \<Rightarrow> u32 \<times> H2Stream" where
  "stream_consume_send_window amount s =
     (let available = as_u32 (max (st_send_window s) 0);
          consumed = min amount available
      in (consumed, s\<lparr>st_send_window := as_i32 (st_send_window s - as_i32 (uint consumed))\<rparr>))"

definition stream_consume_recv_window :: "u32 \<Rightarrow> H2Stream \<Rightarrow> StreamError + H2Stream" where
  "stream_consume_recv_window amount s =
     (if st_recv_window s < 0 \<or> as_u32 (st_recv_window s) < amount
      then Inl (StreamFlowControlError (st_recv_window s) amount)
      else Inr (s\<lparr>st_recv_window := as_i32 (st_recv_window s - as_i32 (uint amount))\<rparr>))"

definition stream_update_send_window :: "u32 \<Rightarrow> H2Stream \<Rightarrow> StreamError + H2Stream" where
  "stream_update_send_window increment s =
     (let new_window = st_send_window s + uint increment in
      if new_window > i32_max then Inl WindowOverflow
      else Inr (s\<lparr>st_send_window := as_i32 new_window\<rparr>))"

definition stream_update_recv_window :: "u32 \<Rightarrow> H2Stream \<Rightarrow> StreamError + H2Stream" where
  "stream_update_recv_window increment s =
     (let new_window = st_recv_window s + uint increment in
      if new_window > i32_max then Inl WindowOverflow
      else Inr (s\<lparr>st_recv_window := as_i32 new_window\<rparr>))"

definition apply_initial_window_size :: "u32 \<Rightarrow> H2Stream \<Rightarrow> StreamError + H2Stream" where
  "apply_initial_window_size new_size s =
     (let delta = uint new_size - uint (st_initial_window_size s);
          new_window = st_send_window s + delta
      in if new_window > i32_max then Inl WindowOverflow
         else Inr (s\<lparr>st_send_window := as_i32 new_window, st_initial_window_size := new_size\<rparr>))"

subsection \<open>Runs of operations\<close>

datatype stream_op =
    OpOpen | OpSendEnd | OpRecvEnd | OpReset
  | OpConsumeSend u32 | OpConsumeRecv u32 | OpUpdateSend u32 | OpUpdateRecv u32 | OpInitial u32

text \<open>An operation that returns an error leaves the stream as it was.\<close>

definition keep :: "'a \<Rightarrow> 'e + 'a \<Rightarrow> 'a" where
  "keep s r = (case r of Inl _ \<Rightarrow> s | Inr s' \<Rightarrow> s')"

fun stream_step :: "H2Stream \<Rightarrow> stream_op \<Rightarrow> H2Stream" where
  "stream_step s OpOpen = keep s (stream_open s)"
| "stream_step s OpSendEnd = keep s (send_end_stream s)"
| "stream_step s OpRecvEnd = keep s (recv_end_stream s)"
| "stream_step s OpReset = stream_reset s"
| "stream_step s (OpConsumeSend n) = snd (stream_consume_send_window n s)"
| "stream_step s (OpConsumeRecv n) = keep s (stream_consume_recv_window n s)"
| "stream_step s (OpUpdateSend n) = keep s (stream_update_send_window n s)"
| "stream_step s (OpUpdateRecv n) = keep s (stream_update_recv_window n s)"
| "stream_step s (OpInitial n) = keep s (apply_initial_window_size n s)"

text \<open>SETTINGS values above \<open>2 ^ 31 - 1\<close> are rejected before they reach a stream.\<close>

fun op_ok :: "stream_op \<Rightarrow> bool" where
  "op_ok (OpInitial n) = (uint n \<le> i32_max)"
| "op_ok _ = True"

subsection \<open>The window invariant\<close>

text \<open>
  The send window may be negative (a SETTINGS frame can shrink it), but never by more than the
  distance between the current initial size and the largest window: this is what keeps the
  cast back to \<^verbatim>\<open>i32\<close> exact.
\<close>

definition stream_inv :: "H2Stream \<Rightarrow> bool" where
  "stream_inv s \<longleftrightarrow>
     uint (st_initial_window_size s) \<le> i32_max
     \<and> uint (st_initial_window_size s) - i32_max \<le> st_send_window s
     \<and> st_send_window s \<le> i32_max
     \<and> 0 \<le> st_recv_window s \<and> st_recv_window s \<le> i32_max"

lemmas stream_defs =
  stream_open_def send_end_stream_def recv_end_stream_def stream_reset_def
  stream_consume_send_window_def stream_consume_recv_window_def stream_update_send_window_def
  stream_update_recv_window_def apply_initial_window_size_def

lemma keep_simps [simp]: "keep s (Inl e) = s" "keep s (Inr t) = t"
  by (simp_all add: keep_def)

lemma uint_min: "uint (min a b :: u32) = min (uint a) (uint b)"
  by (simp add: min_def word_le_def)

lemma uint_send_window_available:
  "st_send_window s \<le> i32_max \<Longrightarrow> uint (as_u32 (max (st_send_window s) 0)) = max (st_send_window s) 0"
  by (rule uint_as_u32) (auto simp: i32_max_def)

lemma as_i32_lit: "- 2147483648 \<le> x \<Longrightarrow> x \<le> 2147483647 \<Longrightarrow> as_i32 x = x"
  by (simp add: as_i32_def)

text \<open>The amount taken from the send window, and the exact new window.\<close>

lemma stream_consume_send_window_exact:
  assumes "stream_inv s"
  shows "stream_consume_send_window amount s =
    (let n = min (uint amount) (max (st_send_window s) 0)
     in (as_u32 n, s\<lparr>st_send_window := st_send_window s - n\<rparr>))"
proof -
  obtain a i where ai: "uint amount = a" "0 \<le> a" "uint (st_initial_window_size s) = i" "0 \<le> i"
    by simp
  let ?n = "min a (max (st_send_window s) 0)"
  have sw: "i - i32_max \<le> st_send_window s" "st_send_window s \<le> i32_max"
    using assms ai(3) by (auto simp: stream_inv_def)
  then have c: "uint (min amount (as_u32 (max (st_send_window s) 0))) = ?n"
    by (simp add: uint_min uint_send_window_available ai(1))
  then have m: "min amount (as_u32 (max (st_send_window s) 0)) = as_u32 ?n"
    by (metis as_u32_def word_of_int_uint)
  moreover have "as_i32 ?n = ?n" and "as_i32 (st_send_window s - ?n) = st_send_window s - ?n"
    using ai(2,4) sw by (auto intro!: as_i32_lit simp: i32_max_def)
  ultimately show ?thesis
    using c by (simp add: stream_consume_send_window_def Let_def ai(1))
qed

lemma stream_consume_recv_window_exact:
  assumes "stream_inv s"
  shows "stream_consume_recv_window amount s =
    (if uint amount > st_recv_window s
     then Inl (StreamFlowControlError (st_recv_window s) amount)
     else Inr (s\<lparr>st_recv_window := st_recv_window s - uint amount\<rparr>))"
proof -
  obtain a where a: "uint amount = a" "0 \<le> a" by simp
  have rw: "0 \<le> st_recv_window s" "st_recv_window s \<le> i32_max" using assms by (auto simp: stream_inv_def)
  then have u: "uint (as_u32 (st_recv_window s)) = st_recv_window s"
    by (intro uint_as_u32) (auto simp: i32_max_def)
  have "\<not> a > st_recv_window s \<Longrightarrow> as_i32 a = a \<and> as_i32 (st_recv_window s - a) = st_recv_window s - a"
    using rw a(2) by (auto intro!: as_i32_lit simp: i32_max_def)
  then show ?thesis
    using rw(1) u by (simp add: stream_consume_recv_window_def word_less_def a(1))
qed

lemma stream_update_send_window_exact:
  assumes "stream_inv s"
  shows "stream_update_send_window n s =
    (if st_send_window s + uint n > i32_max then Inl WindowOverflow
     else Inr (s\<lparr>st_send_window := st_send_window s + uint n\<rparr>))"
proof -
  obtain k i where k: "uint n = k" "0 \<le> k" "uint (st_initial_window_size s) = i" "0 \<le> i" by simp
  show ?thesis
    using assms k(2,4)
    by (simp add: stream_update_send_window_def stream_inv_def i32_max_def as_i32_lit k(1,3))
qed

lemma stream_update_recv_window_exact:
  assumes "stream_inv s"
  shows "stream_update_recv_window n s =
    (if st_recv_window s + uint n > i32_max then Inl WindowOverflow
     else Inr (s\<lparr>st_recv_window := st_recv_window s + uint n\<rparr>))"
proof -
  obtain k where k: "uint n = k" "0 \<le> k" by simp
  show ?thesis
    using assms k(2)
    by (simp add: stream_update_recv_window_def stream_inv_def i32_max_def as_i32_lit k(1))
qed

lemma apply_initial_window_size_exact:
  assumes "stream_inv s"
  shows "apply_initial_window_size n s =
    (let w = st_send_window s + uint n - uint (st_initial_window_size s)
     in if w > i32_max then Inl WindowOverflow
        else Inr (s\<lparr>st_send_window := w, st_initial_window_size := n\<rparr>))"
proof -
  obtain k i where k: "uint n = k" "0 \<le> k" "uint (st_initial_window_size s) = i" by simp
  show ?thesis
    using assms k(2)
    by (simp add: apply_initial_window_size_def stream_inv_def i32_max_def as_i32_lit Let_def k(1,3)
        add_diff_eq)
qed

lemmas stream_exact =
  stream_consume_send_window_exact stream_consume_recv_window_exact stream_update_send_window_exact
  stream_update_recv_window_exact apply_initial_window_size_exact

lemma stream_inv_new:
  assumes "uint send_initial \<le> i32_max" and "uint recv_initial \<le> i32_max"
  shows "stream_inv (new_with_windows i send_initial recv_initial)"
proof -
  obtain a b where ab: "uint send_initial = a" "0 \<le> a" "uint recv_initial = b" "0 \<le> b" by simp
  show ?thesis
    using assms ab(2,4) by (simp add: stream_inv_def new_with_windows_def i32_max_def as_i32_lit ab(1,3))
qed

lemma stream_step_inv:
  assumes inv: "stream_inv s" and ok: "op_ok op"
  shows "stream_inv (stream_step s op)"
proof -
  have pos: "0 \<le> uint w" for w :: u32 by simp
  note facts = inv [unfolded stream_inv_def] pos [of "st_initial_window_size s"]
  show ?thesis
  proof (cases op)
    case (OpConsumeSend n)
    obtain k where k: "uint n = k" "0 \<le> k" by simp
    have "uint (st_initial_window_size s) - i32_max \<le> st_send_window s - min k (max (st_send_window s) 0)"
      "st_send_window s - min k (max (st_send_window s) 0) \<le> i32_max"
      using facts k(2) by linarith+
    with inv OpConsumeSend show ?thesis
      by (simp add: stream_exact Let_def k(1)) (simp add: stream_inv_def)
  next
    case (OpConsumeRecv n)
    obtain k where k: "uint n = k" "0 \<le> k" by simp
    with inv OpConsumeRecv show ?thesis by (simp add: stream_exact) (simp add: stream_inv_def)
  next
    case (OpUpdateSend n)
    obtain k where k: "uint n = k" "0 \<le> k" by simp
    with inv OpUpdateSend show ?thesis by (simp add: stream_exact) (simp add: stream_inv_def)
  next
    case (OpUpdateRecv n)
    obtain k where k: "uint n = k" "0 \<le> k" by simp
    with inv OpUpdateRecv show ?thesis by (simp add: stream_exact) (simp add: stream_inv_def)
  next
    case (OpInitial n)
    with inv ok show ?thesis by (simp add: stream_exact Let_def) (simp add: stream_inv_def)
  qed (use inv in \<open>auto simp: stream_defs stream_inv_def keep_def split: StreamState.splits\<close>)
qed


subsection \<open>The lifecycle\<close>

text \<open>
  The specification remembers only what happened: opened, each side's END_STREAM, a reset. The
  seven-valued state of the code is a function of it.
\<close>

record lifecycle =
  lc_opened :: bool
  lc_sent_end :: bool
  lc_recvd_end :: bool
  lc_was_reset :: bool

definition lc_init :: lifecycle where
  "lc_init = \<lparr>lc_opened = False, lc_sent_end = False, lc_recvd_end = False, lc_was_reset = False\<rparr>"

fun lc_step :: "lifecycle \<Rightarrow> stream_op \<Rightarrow> lifecycle" where
  "lc_step l OpOpen = (if lc_was_reset l then l else l\<lparr>lc_opened := True\<rparr>)"
| "lc_step l OpSendEnd =
     (if lc_opened l \<and> \<not> lc_was_reset l then l\<lparr>lc_sent_end := True\<rparr> else l)"
| "lc_step l OpRecvEnd =
     (if lc_opened l \<and> \<not> lc_was_reset l then l\<lparr>lc_recvd_end := True\<rparr> else l)"
| "lc_step l OpReset = l\<lparr>lc_was_reset := True\<rparr>"
| "lc_step l _ = l"

definition lc_state :: "lifecycle \<Rightarrow> StreamState" where
  "lc_state l =
     (if lc_was_reset l then Closed
      else if \<not> lc_opened l then Idle
      else if lc_sent_end l \<and> lc_recvd_end l then Closed
      else if lc_sent_end l then HalfClosedLocal
      else if lc_recvd_end l then HalfClosedRemote
      else Open)"

lemma stream_window_ops_state [simp]:
  "st_state (snd (stream_consume_send_window n s)) = st_state s"
  "st_state (keep s (stream_consume_recv_window n s)) = st_state s"
  "st_state (keep s (stream_update_send_window n s)) = st_state s"
  "st_state (keep s (stream_update_recv_window n s)) = st_state s"
  "st_state (keep s (apply_initial_window_size n s)) = st_state s"
  by (simp_all add: stream_defs Let_def)

definition lc_ok :: "lifecycle \<Rightarrow> bool" where
  "lc_ok l \<longleftrightarrow> (lc_sent_end l \<or> lc_recvd_end l \<longrightarrow> lc_opened l)"

lemma lc_step_ok: "lc_ok l \<Longrightarrow> lc_ok (lc_step l op)"
  by (cases op) (auto simp: lc_ok_def)

lemma lc_step_simulates:
  "st_state s = lc_state l \<Longrightarrow> lc_ok l \<Longrightarrow> st_state (stream_step s op) = lc_state (lc_step l op)"
  by (cases op) (auto simp: lc_ok_def lc_state_def stream_open_def send_end_stream_def
      recv_end_stream_def stream_reset_def split: if_splits)

lemma lc_run_simulates:
  "st_state s = lc_state l \<Longrightarrow> lc_ok l \<Longrightarrow>
     st_state (foldl stream_step s ops) = lc_state (foldl lc_step l ops)"
  by (induction ops arbitrary: s l) (auto simp: lc_step_simulates lc_step_ok)

text \<open>
  C16. Lifecycle refinement: after any sequence of operations on a new stream the code's state is
  exactly the one that the history determines, so a stream may send while it is open
  and neither its own END_STREAM nor a reset happened, may receive while the peer's END_STREAM
  and a reset did not happen, and never enters a reserved state.
\<close>

theorem stream_lifecycle_refinement:
  "let s = foldl stream_step (new_with_windows i a b) ops; l = foldl lc_step lc_init ops
   in st_state s = lc_state l
    \<and> (can_send (st_state s) \<longleftrightarrow> lc_opened l \<and> \<not> lc_sent_end l \<and> \<not> lc_was_reset l)
    \<and> (can_receive (st_state s) \<longleftrightarrow> lc_opened l \<and> \<not> lc_recvd_end l \<and> \<not> lc_was_reset l)
    \<and> st_state s \<noteq> ReservedLocal \<and> st_state s \<noteq> ReservedRemote"
proof -
  have "st_state (foldl stream_step (new_with_windows i a b) ops) = lc_state (foldl lc_step lc_init ops)"
    by (rule lc_run_simulates) (simp_all add: new_with_windows_def lc_state_def lc_init_def lc_ok_def)
  then show ?thesis by (auto simp: Let_def lc_state_def can_send_def can_receive_def)
qed

subsection \<open>The window ledger\<close>

text \<open>
  What each operation may do to the windows, over unbounded integers and without a look at the code: an increment counts
  unless the window would exceed \<open>2 ^ 31 - 1\<close>, a send takes what is there and no more, received data counts when the peer
  had room for it, and a new initial size shifts the send window unless that overflows.
\<close>

fun granted_by :: "H2Stream \<Rightarrow> stream_op \<Rightarrow> int" where
  "granted_by s (OpUpdateSend n) = (if st_send_window s + uint n \<le> i32_max then uint n else 0)"
| "granted_by s _ = 0"

fun spent_by :: "H2Stream \<Rightarrow> stream_op \<Rightarrow> int" where
  "spent_by s (OpConsumeSend n) = min (uint n) (max 0 (st_send_window s))"
| "spent_by s _ = 0"

fun shifted_by :: "H2Stream \<Rightarrow> stream_op \<Rightarrow> int" where
  "shifted_by s (OpInitial n) =
     (let shift = uint n - uint (st_initial_window_size s) in if st_send_window s + shift \<le> i32_max then shift else 0)"
| "shifted_by s _ = 0"

fun recv_granted_by :: "H2Stream \<Rightarrow> stream_op \<Rightarrow> int" where
  "recv_granted_by s (OpUpdateRecv n) = (if st_recv_window s + uint n \<le> i32_max then uint n else 0)"
| "recv_granted_by s _ = 0"

fun recv_spent_by :: "H2Stream \<Rightarrow> stream_op \<Rightarrow> int" where
  "recv_spent_by s (OpConsumeRecv n) = (if uint n \<le> st_recv_window s then uint n else 0)"
| "recv_spent_by s _ = 0"

fun total_over :: "(H2Stream \<Rightarrow> stream_op \<Rightarrow> int) \<Rightarrow> H2Stream \<Rightarrow> stream_op list \<Rightarrow> int" where
  "total_over f s [] = 0"
| "total_over f s (op # ops) = f s op + total_over f (stream_step s op) ops"

lemma stream_step_ledger:
  assumes "stream_inv s"
  shows "st_send_window (stream_step s op) = st_send_window s + shifted_by s op + granted_by s op - spent_by s op"
    "uint (st_initial_window_size (stream_step s op)) = uint (st_initial_window_size s) + shifted_by s op"
    "st_recv_window (stream_step s op) = st_recv_window s + recv_granted_by s op - recv_spent_by s op"
  using assms
  by (cases op; auto simp: stream_exact Let_def stream_open_def send_end_stream_def recv_end_stream_def
      stream_reset_def max.commute split: StreamState.splits)+

lemma stream_run_ledger:
  assumes "stream_inv s" and "\<forall>op\<in>set ops. op_ok op"
  shows "stream_inv (foldl stream_step s ops)
    \<and> st_send_window (foldl stream_step s ops) =
        st_send_window s + total_over shifted_by s ops + total_over granted_by s ops - total_over spent_by s ops
    \<and> uint (st_initial_window_size (foldl stream_step s ops)) = uint (st_initial_window_size s) + total_over shifted_by s ops
    \<and> st_recv_window (foldl stream_step s ops) =
        st_recv_window s + total_over recv_granted_by s ops - total_over recv_spent_by s ops"
  using assms
proof (induction ops arbitrary: s)
  case (Cons op ops)
  then have "stream_inv (stream_step s op)" by (simp add: stream_step_inv)
  with Cons show ?case by (simp add: stream_step_ledger)
qed simp

lemma consume_send_amount:
  assumes "stream_inv s"
  shows "uint (fst (stream_consume_send_window n s)) = spent_by s (OpConsumeSend n)"
proof -
  obtain k where k: "uint n = k" "0 \<le> k" by simp
  have "uint (as_u32 (min k (max (st_send_window s) 0))) = min k (max (st_send_window s) 0)"
    using assms k(2) by (intro uint_as_u32) (auto simp: stream_inv_def i32_max_def)
  then show ?thesis using assms k(1) by (simp add: stream_exact Let_def max.commute)
qed

text \<open>
  C17. Window ledger: over any run of operations (any interleaving of sending, receiving, WINDOW_UPDATE in both directions
  and changes of the initial size up to \<open>2 ^ 31 - 1\<close>) no cast to \<^verbatim>\<open>i32\<close> ever loses information. The send window is the
  first initial size plus all shifts of the initial size plus everything granted minus everything spent, the receive
  window is its initial size plus everything granted to the peer minus everything received, and the stored initial size
  is the first one plus the shifts, all computed over unbounded integers. The next send is given exactly what the window
  holds. The send window stays between \<open>- (2 ^ 31 - 1)\<close> and \<open>2 ^ 31 - 1\<close>, the receive window between 0 and \<open>2 ^ 31 - 1\<close>.
\<close>

theorem stream_window_ledger:
  assumes "uint a \<le> i32_max" and "uint b \<le> i32_max" and "\<forall>op\<in>set ops. op_ok op"
  shows "let s0 = new_with_windows i a b; s = foldl stream_step s0 ops
    in st_send_window s =
         uint a + total_over shifted_by s0 ops + total_over granted_by s0 ops - total_over spent_by s0 ops
       \<and> uint (st_initial_window_size s) = uint a + total_over shifted_by s0 ops
       \<and> st_recv_window s = uint b + total_over recv_granted_by s0 ops - total_over recv_spent_by s0 ops
       \<and> uint (fst (stream_consume_send_window n s)) = min (uint n) (max 0 (st_send_window s))
       \<and> - i32_max \<le> st_send_window s \<and> st_send_window s \<le> i32_max
       \<and> 0 \<le> st_recv_window s \<and> st_recv_window s \<le> i32_max"
proof -
  let ?init = "new_with_windows i a b" and ?fin = "foldl stream_step (new_with_windows i a b) ops"
  have inv0: "stream_inv ?init" using assms(1,2) by (rule stream_inv_new)
  obtain k j where k: "uint a = k" "0 \<le> k" "uint b = j" "0 \<le> j" by simp
  then have init: "st_send_window ?init = uint a" "uint (st_initial_window_size ?init) = uint a" "st_recv_window ?init = uint b"
    using assms(1,2) by (simp_all add: new_with_windows_def i32_max_def as_i32_lit)
  note run = stream_run_ledger [OF inv0 assms(3), unfolded init]
  have "0 \<le> uint (st_initial_window_size ?fin)" by simp
  then have "- i32_max \<le> st_send_window ?fin" using run unfolding stream_inv_def by linarith
  then show ?thesis using run consume_send_amount [of ?fin n] by (auto simp: Let_def stream_inv_def)
qed

definition sample_ops :: "stream_op list" where
  "sample_ops = [OpOpen, OpConsumeSend 100, OpInitial 10, OpUpdateSend 5, OpConsumeRecv 40, OpUpdateRecv 25]"

theorem stream_window_ledger_witness:
  "list_all op_ok sample_ops
   \<and> st_send_window (foldl stream_step (new_with_windows 1 65535 65535) sample_ops) = - 85
   \<and> st_recv_window (foldl stream_step (new_with_windows 1 65535 65535) sample_ops) = 65520
   \<and> uint (fst (stream_consume_send_window 7 (foldl stream_step (new_with_windows 1 65535 65535) sample_ops))) = 0"
proof -
  have ok: "\<forall>op\<in>set sample_ops. op_ok op" by (simp add: sample_ops_def i32_max_def)
  have ab: "uint (65535 :: u32) \<le> i32_max" by (simp add: i32_max_def)
  have "st_send_window (foldl stream_step (new_with_windows 1 65535 65535) sample_ops) = - 85"
    "st_recv_window (foldl stream_step (new_with_windows 1 65535 65535) sample_ops) = 65520"
    by code_simp+
  with ok stream_window_ledger [OF ab ab ok, of 1 7] show ?thesis by (auto simp: Let_def list_all_iff)
qed

end
