(* ===== verification/Hpack_Table.thy ===== *)
theory Hpack_Table
  imports Prelude "HOL-Library.Sublist"
begin

text \<open>
  The HPACK tables of \<^verbatim>\<open>lkh2/src/hpack_enc/table.rs\<close>: the static table, the dynamic table with its
  eviction loops, and the search over both. The loops pop entries until the size fits; on an empty
  deque with a wrong size counter they would not return, so they are modelled as partial
  functions and shown to return on every table that satisfies the size invariant.
\<close>

type_synonym entry = "bytes \<times> bytes"

subsection \<open>Static table\<close>

definition STATIC_TABLE :: "entry list" where
  "STATIC_TABLE =
     [(ascii '':authority'', ascii ''''),
      (ascii '':method'', ascii ''GET''),
      (ascii '':method'', ascii ''POST''),
      (ascii '':path'', ascii ''/''),
      (ascii '':path'', ascii ''/index.html''),
      (ascii '':scheme'', ascii ''http''),
      (ascii '':scheme'', ascii ''https''),
      (ascii '':status'', ascii ''200''),
      (ascii '':status'', ascii ''204''),
      (ascii '':status'', ascii ''206''),
      (ascii '':status'', ascii ''304''),
      (ascii '':status'', ascii ''400''),
      (ascii '':status'', ascii ''404''),
      (ascii '':status'', ascii ''500''),
      (ascii ''accept-charset'', ascii ''''),
      (ascii ''accept-encoding'', ascii ''gzip, deflate''),
      (ascii ''accept-language'', ascii ''''),
      (ascii ''accept-ranges'', ascii ''''),
      (ascii ''accept'', ascii ''''),
      (ascii ''access-control-allow-origin'', ascii ''''),
      (ascii ''age'', ascii ''''),
      (ascii ''allow'', ascii ''''),
      (ascii ''authorization'', ascii ''''),
      (ascii ''cache-control'', ascii ''''),
      (ascii ''content-disposition'', ascii ''''),
      (ascii ''content-encoding'', ascii ''''),
      (ascii ''content-language'', ascii ''''),
      (ascii ''content-length'', ascii ''''),
      (ascii ''content-location'', ascii ''''),
      (ascii ''content-range'', ascii ''''),
      (ascii ''content-type'', ascii ''''),
      (ascii ''cookie'', ascii ''''),
      (ascii ''date'', ascii ''''),
      (ascii ''etag'', ascii ''''),
      (ascii ''expect'', ascii ''''),
      (ascii ''expires'', ascii ''''),
      (ascii ''from'', ascii ''''),
      (ascii ''host'', ascii ''''),
      (ascii ''if-match'', ascii ''''),
      (ascii ''if-modified-since'', ascii ''''),
      (ascii ''if-none-match'', ascii ''''),
      (ascii ''if-range'', ascii ''''),
      (ascii ''if-unmodified-since'', ascii ''''),
      (ascii ''last-modified'', ascii ''''),
      (ascii ''link'', ascii ''''),
      (ascii ''location'', ascii ''''),
      (ascii ''max-forwards'', ascii ''''),
      (ascii ''proxy-authenticate'', ascii ''''),
      (ascii ''proxy-authorization'', ascii ''''),
      (ascii ''range'', ascii ''''),
      (ascii ''referer'', ascii ''''),
      (ascii ''refresh'', ascii ''''),
      (ascii ''retry-after'', ascii ''''),
      (ascii ''server'', ascii ''''),
      (ascii ''set-cookie'', ascii ''''),
      (ascii ''strict-transport-security'', ascii ''''),
      (ascii ''transfer-encoding'', ascii ''''),
      (ascii ''user-agent'', ascii ''''),
      (ascii ''vary'', ascii ''''),
      (ascii ''via'', ascii ''''),
      (ascii ''www-authenticate'', ascii '''')]"

definition STATIC_TABLE_LEN :: nat where
  "STATIC_TABLE_LEN = 61"

datatype TableMatch = Full nat | NameOnly nat

subsection \<open>Dynamic table\<close>

text \<open>The deque is a list with its front first.\<close>

record DynamicTable =
  dt_entries :: "entry list"
  dt_size :: nat
  dt_max_size :: nat

definition table_new :: "nat \<Rightarrow> DynamicTable" where
  "table_new max_size = \<lparr>dt_entries = [], dt_size = 0, dt_max_size = max_size\<rparr>"

definition entry_size :: "bytes \<Rightarrow> bytes \<Rightarrow> nat" where
  "entry_size name val = length name + length val + 32"

definition pop_back :: "DynamicTable \<Rightarrow> DynamicTable" where
  "pop_back t =
     (if dt_entries t = [] then t
      else let (n, v) = last (dt_entries t) in
        t\<lparr>dt_entries := butlast (dt_entries t), dt_size := dt_size t - entry_size n v\<rparr>)"

text \<open>
  \<^verbatim>\<open>while self.size + need > self.max_size { if let Some(..) = pop_back() .. }\<close>; the loop of
  \<^verbatim>\<open>set_max_size\<close> is the case \<open>need = 0\<close>.
\<close>

partial_function (option) evict_loop :: "nat \<Rightarrow> DynamicTable \<Rightarrow> DynamicTable option" where
  "evict_loop need t =
     (if dt_size t + need > dt_max_size t then evict_loop need (pop_back t) else Some t)"

definition table_insert :: "bytes \<Rightarrow> bytes \<Rightarrow> DynamicTable \<Rightarrow> DynamicTable" where
  "table_insert name val t =
     (let entry_sz = entry_size name val in
      if entry_sz > dt_max_size t then t\<lparr>dt_entries := [], dt_size := 0\<rparr>
      else let t' = the (evict_loop entry_sz t)
           in t'\<lparr>dt_entries := (name, val) # dt_entries t', dt_size := dt_size t' + entry_sz\<rparr>)"

definition table_len :: "DynamicTable \<Rightarrow> nat" where
  "table_len t = length (dt_entries t)"

definition table_get :: "nat \<Rightarrow> DynamicTable \<Rightarrow> entry option" where
  "table_get idx t = (if idx < length (dt_entries t) then Some (dt_entries t ! idx) else None)"

definition table_set_max_size :: "nat \<Rightarrow> DynamicTable \<Rightarrow> DynamicTable" where
  "table_set_max_size new_max t = the (evict_loop 0 (t\<lparr>dt_max_size := new_max\<rparr>))"

subsection \<open>Search\<close>

text \<open>
  One of the two search loops, from index \<open>i\<close> on: \<open>Inl\<close> is the early return with a full match,
  \<open>Inr\<close> the first name match so far when the loop ends.
\<close>

fun scan :: "bytes \<Rightarrow> bytes \<Rightarrow> nat \<Rightarrow> entry list \<Rightarrow> nat option \<Rightarrow> nat + nat option" where
  "scan name val i [] name_match = Inr name_match"
| "scan name val i ((n, v) # es) name_match =
     (if n = name then
        (if v = val then Inl i
         else scan name val (Suc i) es (if name_match = None then Some i else name_match))
      else scan name val (Suc i) es name_match)"

definition find_header :: "bytes \<Rightarrow> bytes \<Rightarrow> DynamicTable \<Rightarrow> TableMatch option" where
  "find_header name val dyn =
     (case scan name val 1 STATIC_TABLE None of
        Inl i \<Rightarrow> Some (Full i)
      | Inr name_match \<Rightarrow>
          (case scan name val (STATIC_TABLE_LEN + 1) (dt_entries dyn) name_match of
             Inl i \<Rightarrow> Some (Full i)
           | Inr name_match' \<Rightarrow> map_option NameOnly name_match'))"

subsection \<open>Eviction keeps the longest prefix that fits\<close>

definition esize :: "entry \<Rightarrow> nat" where
  "esize e = entry_size (fst e) (snd e)"

fun keep_fit :: "nat \<Rightarrow> entry list \<Rightarrow> entry list" where
  "keep_fit budget [] = []"
| "keep_fit budget (e # es) =
     (if esize e \<le> budget then e # keep_fit (budget - esize e) es else [])"

definition entries_total :: "entry list \<Rightarrow> nat" where
  "entries_total es = sum_list (map esize es)"

text \<open>The size counter is the RFC 7541 size of the entries and respects the maximum.\<close>

definition table_inv :: "DynamicTable \<Rightarrow> bool" where
  "table_inv t \<longleftrightarrow> dt_size t = entries_total (dt_entries t) \<and> dt_size t \<le> dt_max_size t"

definition size_inv :: "DynamicTable \<Rightarrow> bool" where
  "size_inv t \<longleftrightarrow> dt_size t = entries_total (dt_entries t)"

lemma entries_total_simps [simp]:
  "entries_total [] = 0" "entries_total (e # es) = esize e + entries_total es" "entries_total (es @ fs) = entries_total es + entries_total fs"
  by (simp_all add: entries_total_def)

lemma keep_fit_prefix: "prefix (keep_fit b es) es"
  by (induction b es rule: keep_fit.induct) auto

lemma keep_fit_total: "entries_total (keep_fit b es) \<le> b"
  by (induction b es rule: keep_fit.induct) auto

lemma keep_fit_id: "entries_total es \<le> b \<Longrightarrow> keep_fit b es = es"
  by (induction b es rule: keep_fit.induct) auto

lemma keep_fit_snoc: "b < entries_total (es @ [e]) \<Longrightarrow> keep_fit b (es @ [e]) = keep_fit b es"
  by (induction b es rule: keep_fit.induct) auto

lemma keep_fit_mono_prefix: "prefix es fs \<Longrightarrow> prefix (keep_fit b es) (keep_fit b fs)"
proof (induction b es arbitrary: fs rule: keep_fit.induct)
  case (2 b e es)
  from "2.prems" obtain fs' where "fs = e # fs'" "prefix es fs'"
    by (cases fs) auto
  with "2.IH" show ?case by auto
qed simp

lemma keep_fit_longest: "prefix es fs \<Longrightarrow> entries_total es \<le> b \<Longrightarrow> prefix es (keep_fit b fs)"
  using keep_fit_mono_prefix [of es fs b] by (simp add: keep_fit_id)

text \<open>The loop returns on every table whose counter is right, when the new entry can fit at all.\<close>

lemma evict_loop_returns:
  assumes "size_inv t" and "need \<le> dt_max_size t"
  shows "evict_loop need t =
    Some (t\<lparr>dt_entries := keep_fit (dt_max_size t - need) (dt_entries t),
            dt_size := entries_total (keep_fit (dt_max_size t - need) (dt_entries t))\<rparr>)"
  using assms
proof (induction "dt_entries t" arbitrary: t rule: rev_induct)
  case Nil
  then show ?case by (subst evict_loop.simps) (simp add: size_inv_def)
next
  case (snoc e es)
  show ?case
  proof (cases "dt_size t + need > dt_max_size t")
    case False
    then have "keep_fit (dt_max_size t - need) (dt_entries t) = dt_entries t"
      using snoc.prems by (intro keep_fit_id) (auto simp: size_inv_def)
    with False snoc.prems(1) show ?thesis by (subst evict_loop.simps) (simp add: size_inv_def)
  next
    case True
    have e: "dt_entries t = es @ [e]" using snoc.hyps(2) by simp
    let ?t = "pop_back t"
    have pop: "?t = t\<lparr>dt_entries := es, dt_size := entries_total es\<rparr>"
      using snoc.prems(1) unfolding pop_back_def e size_inv_def
      by (cases e) (simp add: esize_def)
    have "evict_loop need t = evict_loop need ?t"
      using True by (subst evict_loop.simps) simp
    also have "\<dots> = Some (?t\<lparr>dt_entries := keep_fit (dt_max_size ?t - need) (dt_entries ?t),
            dt_size := entries_total (keep_fit (dt_max_size ?t - need) (dt_entries ?t))\<rparr>)"
      by (rule snoc.hyps(1)) (use snoc.prems in \<open>auto simp: pop size_inv_def\<close>)
    also have "keep_fit (dt_max_size ?t - need) (dt_entries ?t) =
        keep_fit (dt_max_size t - need) (dt_entries t)"
      using True snoc.prems keep_fit_snoc [of "dt_max_size t - need" es e]
      by (simp add: pop e size_inv_def less_diff_conv2)
    finally show ?thesis by (simp add: pop)
  qed
qed

lemma table_insert_eq:
  assumes "table_inv t"
  shows "table_insert n v t =
    (if entry_size n v > dt_max_size t then t\<lparr>dt_entries := [], dt_size := 0\<rparr>
     else let es = (n, v) # keep_fit (dt_max_size t - entry_size n v) (dt_entries t)
          in t\<lparr>dt_entries := es, dt_size := entries_total es\<rparr>)"
  using assms evict_loop_returns [of t "entry_size n v"]
  by (simp add: table_insert_def table_inv_def size_inv_def Let_def esize_def)

lemma table_set_max_size_eq:
  assumes "table_inv t"
  shows "table_set_max_size m t =
    t\<lparr>dt_max_size := m, dt_entries := keep_fit m (dt_entries t),
      dt_size := entries_total (keep_fit m (dt_entries t))\<rparr>"
  using assms evict_loop_returns [of "t\<lparr>dt_max_size := m\<rparr>" 0]
  by (simp add: table_set_max_size_def table_inv_def size_inv_def)

lemma table_inv_new [simp]: "table_inv (table_new m)"
  by (simp add: table_inv_def table_new_def)

lemma table_inv_insert [simp]: "table_inv t \<Longrightarrow> table_inv (table_insert n v t)"
  using keep_fit_total [of "dt_max_size t - entry_size n v" "dt_entries t"]
  by (auto simp: table_insert_eq Let_def table_inv_def esize_def)

lemma table_inv_set_max_size [simp]: "table_inv t \<Longrightarrow> table_inv (table_set_max_size m t)"
  by (simp add: table_set_max_size_eq keep_fit_total) (simp add: table_inv_def keep_fit_total)

lemma dt_max_size_simps [simp]:
  "table_inv t \<Longrightarrow> dt_max_size (table_insert n v t) = dt_max_size t"
  "table_inv t \<Longrightarrow> dt_max_size (table_set_max_size m t) = m"
  "dt_max_size (table_new m) = m"
  by (simp_all add: table_insert_eq table_set_max_size_eq table_new_def Let_def)

subsection \<open>The search is exact\<close>

lemma length_STATIC_TABLE [simp]: "length STATIC_TABLE = 61"
  by (simp add: STATIC_TABLE_def)

text \<open>The HPACK index space: static entries from 1, then the dynamic table from 62.\<close>

definition hpack_space :: "DynamicTable \<Rightarrow> entry list" where
  "hpack_space t = STATIC_TABLE @ dt_entries t"

lemma scan_append:
  "scan n v i (es @ fs) nm =
     (case scan n v i es nm of Inl k \<Rightarrow> Inl k | Inr nm' \<Rightarrow> scan n v (i + length es) fs nm')"
  by (induction n v i es nm rule: scan.induct) (auto cong: sum.case_cong)

lemma find_header_scan:
  "find_header n v t =
     (case scan n v 1 (hpack_space t) None of
        Inl i \<Rightarrow> Some (Full i) | Inr nm \<Rightarrow> map_option NameOnly nm)"
  by (simp add: find_header_def hpack_space_def scan_append STATIC_TABLE_LEN_def split: sum.split)

lemma scan_Inl:
  "scan n v i es nm = Inl k \<Longrightarrow> i \<le> k \<and> k < i + length es \<and> es ! (k - i) = (n, v)"
proof (induction n v i es nm rule: scan.induct)
  case (2 name val i n v es nm)
  then show ?case
    by (cases "n = name \<and> v = val") (auto split: if_splits simp: nth_Cons' Suc_diff_le)
qed simp

lemma scan_Inr:
  "scan n v i es nm = Inr r \<Longrightarrow> (n, v) \<notin> set es \<and>
     (case nm of Some j \<Rightarrow> r = Some j
      | None \<Rightarrow> (case r of None \<Rightarrow> n \<notin> fst ` set es
                | Some k \<Rightarrow> i \<le> k \<and> k < i + length es \<and> fst (es ! (k - i)) = n))"
proof (induction n v i es nm rule: scan.induct)
  case (2 name val i n v es nm)
  then show ?case
    by (cases "n = name"; cases "v = val"; cases nm)
      (auto split: option.splits simp: nth_Cons' Suc_diff_le)
qed (auto split: option.splits)

lemma find_header_Full:
  assumes "find_header n v t = Some (Full i)"
  shows "1 \<le> i" "i \<le> length (hpack_space t)" "hpack_space t ! (i - 1) = (n, v)"
  using assms scan_Inl [of n v 1 "hpack_space t" None i]
  by (auto simp: find_header_scan split: sum.splits option.splits)

lemma find_header_NameOnly:
  assumes "find_header n v t = Some (NameOnly i)"
  shows "1 \<le> i" "i \<le> length (hpack_space t)" "fst (hpack_space t ! (i - 1)) = n"
    "(n, v) \<notin> set (hpack_space t)"
  using assms scan_Inr [of n v 1 "hpack_space t" None "Some i"]
  by (auto simp: find_header_scan split: sum.splits option.splits)

lemma find_header_None:
  assumes "find_header n v t = None"
  shows "n \<notin> fst ` set (hpack_space t)"
  using assms scan_Inr [of n v 1 "hpack_space t" None None]
  by (auto simp: find_header_scan split: sum.splits option.splits)


subsection \<open>Properties\<close>

datatype table_op = TInsert bytes bytes | TSetMax nat

fun table_step :: "DynamicTable \<Rightarrow> table_op \<Rightarrow> DynamicTable" where
  "table_step t (TInsert n v) = table_insert n v t"
| "table_step t (TSetMax m) = table_set_max_size m t"

text \<open>Everything that was ever inserted, newest first.\<close>

fun inserted :: "table_op list \<Rightarrow> entry list" where
  "inserted [] = []"
| "inserted (TInsert n v # ops) = inserted ops @ [(n, v)]"
| "inserted (TSetMax m # ops) = inserted ops"

fun last_max :: "nat \<Rightarrow> table_op list \<Rightarrow> nat" where
  "last_max m [] = m"
| "last_max m (TInsert n v # ops) = last_max m ops"
| "last_max m (TSetMax k # ops) = last_max k ops"

lemma table_step_entries:
  assumes "table_inv t"
  shows "prefix (dt_entries (table_step t op)) (inserted [op] @ dt_entries t)"
  using assms
  by (cases op) (auto simp: table_insert_eq table_set_max_size_eq Let_def keep_fit_prefix)

lemma table_run:
  assumes "table_inv t" and "prefix (dt_entries t) hist"
  shows "table_inv (foldl table_step t ops)
    \<and> dt_max_size (foldl table_step t ops) = last_max (dt_max_size t) ops
    \<and> prefix (dt_entries (foldl table_step t ops)) (inserted ops @ hist)"
  using assms
proof (induction ops arbitrary: t hist)
  case (Cons op ops)
  have inv: "table_inv (table_step t op)" using Cons.prems(1) by (cases op) simp_all
  have "prefix (inserted [op] @ dt_entries t) (inserted [op] @ hist)"
    using Cons.prems(2) by simp
  then have "prefix (dt_entries (table_step t op)) (inserted [op] @ hist)"
    using table_step_entries [OF Cons.prems(1)] by (rule prefix_order.trans [rotated])
  from Cons.IH [OF inv this] show ?case
    using Cons.prems(1) by (cases op) simp_all
qed simp

text \<open>
  C18. Dynamic table invariant: after any sequence of insertions and resizings of a new table, the
  size counter is the RFC 7541 size of the stored entries, it respects the maximum set last, the
  entries are the most recent ones in newest-first order, and both eviction loops return from
  that table.
\<close>

theorem dynamic_table_invariant:
  "let t = foldl table_step (table_new m) ops
   in dt_size t = entries_total (dt_entries t) \<and> dt_size t \<le> dt_max_size t
      \<and> dt_max_size t = last_max m ops \<and> prefix (dt_entries t) (inserted ops)
      \<and> (\<exists>t'. evict_loop 0 (t\<lparr>dt_max_size := k\<rparr>) = Some t')
      \<and> (entry_size n v > dt_max_size t \<or> (\<exists>t'. evict_loop (entry_size n v) t = Some t'))"
proof -
  let ?t = "foldl table_step (table_new m) ops"
  have run: "table_inv ?t" "dt_max_size ?t = last_max m ops" "prefix (dt_entries ?t) (inserted ops)"
    using table_run [of "table_new m" "[]" ops] by (simp_all add: table_new_def table_inv_def)
  then show ?thesis
    using evict_loop_returns [of "?t\<lparr>dt_max_size := k\<rparr>" 0] evict_loop_returns [of ?t "entry_size n v"]
    by (cases "entry_size n v > dt_max_size ?t") (auto simp: Let_def table_inv_def size_inv_def)
qed

text \<open>
  C30. Header search: a full match is an index whose entry is the header, a name match is an index
  whose entry has the name and is only given when no entry at all equals the header, and no
  match means that no entry has the name.
\<close>

theorem find_header_exact:
  "case find_header n v t of
     Some (Full i) \<Rightarrow> 1 \<le> i \<and> i \<le> length (hpack_space t) \<and> hpack_space t ! (i - 1) = (n, v)
   | Some (NameOnly i) \<Rightarrow> 1 \<le> i \<and> i \<le> length (hpack_space t)
       \<and> fst (hpack_space t ! (i - 1)) = n \<and> (n, v) \<notin> set (hpack_space t)
   | None \<Rightarrow> n \<notin> fst ` set (hpack_space t)"
  using find_header_Full [of n v t] find_header_NameOnly [of n v t] find_header_None [of n v t]
  by (auto split: option.split TableMatch.split)

end
