(* ===== verification/Huffman_Table.thy ===== *)
theory Huffman_Table
  imports Prelude "HOL-Library.Sublist"
begin

text \<open>
  The HPACK Huffman code, the table of \<^verbatim>\<open>lkh2/src/hpack_enc/huffman.rs\<close>. The table is shown to
  be a canonical prefix-free code: the codes of every length fill one range, and the ranges of
  successive lengths follow one another.
\<close>

subsection \<open>The table\<close>

text \<open>\<^verbatim>\<open>(num_bits, code)\<close> for every byte and, at index 256, for the end-of-string symbol.\<close>

definition ENCODE_TABLE :: "(nat \<times> u32) list" where
  "ENCODE_TABLE =
     [(13, 0x1ff8), (23, 0x7fffd8), (28, 0xfffffe2), (28, 0xfffffe3), (28, 0xfffffe4), (28, 0xfffffe5),
      (28, 0xfffffe6), (28, 0xfffffe7), (28, 0xfffffe8), (24, 0xffffea), (30, 0x3ffffffc), (28, 0xfffffe9),
      (28, 0xfffffea), (30, 0x3ffffffd), (28, 0xfffffeb), (28, 0xfffffec), (28, 0xfffffed), (28, 0xfffffee),
      (28, 0xfffffef), (28, 0xffffff0), (28, 0xffffff1), (28, 0xffffff2), (30, 0x3ffffffe), (28, 0xffffff3),
      (28, 0xffffff4), (28, 0xffffff5), (28, 0xffffff6), (28, 0xffffff7), (28, 0xffffff8), (28, 0xffffff9),
      (28, 0xffffffa), (28, 0xffffffb), (6, 0x14), (10, 0x3f8), (10, 0x3f9), (12, 0xffa),
      (13, 0x1ff9), (6, 0x15), (8, 0xf8), (11, 0x7fa), (10, 0x3fa), (10, 0x3fb),
      (8, 0xf9), (11, 0x7fb), (8, 0xfa), (6, 0x16), (6, 0x17), (6, 0x18),
      (5, 0x0), (5, 0x1), (5, 0x2), (6, 0x19), (6, 0x1a), (6, 0x1b),
      (6, 0x1c), (6, 0x1d), (6, 0x1e), (6, 0x1f), (7, 0x5c), (8, 0xfb),
      (15, 0x7ffc), (6, 0x20), (12, 0xffb), (10, 0x3fc), (13, 0x1ffa), (6, 0x21),
      (7, 0x5d), (7, 0x5e), (7, 0x5f), (7, 0x60), (7, 0x61), (7, 0x62),
      (7, 0x63), (7, 0x64), (7, 0x65), (7, 0x66), (7, 0x67), (7, 0x68),
      (7, 0x69), (7, 0x6a), (7, 0x6b), (7, 0x6c), (7, 0x6d), (7, 0x6e),
      (7, 0x6f), (7, 0x70), (7, 0x71), (7, 0x72), (8, 0xfc), (7, 0x73),
      (8, 0xfd), (13, 0x1ffb), (19, 0x7fff0), (13, 0x1ffc), (14, 0x3ffc), (6, 0x22),
      (15, 0x7ffd), (5, 0x3), (6, 0x23), (5, 0x4), (6, 0x24), (5, 0x5),
      (6, 0x25), (6, 0x26), (6, 0x27), (5, 0x6), (7, 0x74), (7, 0x75),
      (6, 0x28), (6, 0x29), (6, 0x2a), (5, 0x7), (6, 0x2b), (7, 0x76),
      (6, 0x2c), (5, 0x8), (5, 0x9), (6, 0x2d), (7, 0x77), (7, 0x78),
      (7, 0x79), (7, 0x7a), (7, 0x7b), (15, 0x7ffe), (11, 0x7fc), (14, 0x3ffd),
      (13, 0x1ffd), (28, 0xffffffc), (20, 0xfffe6), (22, 0x3fffd2), (20, 0xfffe7), (20, 0xfffe8),
      (22, 0x3fffd3), (22, 0x3fffd4), (22, 0x3fffd5), (23, 0x7fffd9), (22, 0x3fffd6), (23, 0x7fffda),
      (23, 0x7fffdb), (23, 0x7fffdc), (23, 0x7fffdd), (23, 0x7fffde), (24, 0xffffeb), (23, 0x7fffdf),
      (24, 0xffffec), (24, 0xffffed), (22, 0x3fffd7), (23, 0x7fffe0), (24, 0xffffee), (23, 0x7fffe1),
      (23, 0x7fffe2), (23, 0x7fffe3), (23, 0x7fffe4), (21, 0x1fffdc), (22, 0x3fffd8), (23, 0x7fffe5),
      (22, 0x3fffd9), (23, 0x7fffe6), (23, 0x7fffe7), (24, 0xffffef), (22, 0x3fffda), (21, 0x1fffdd),
      (20, 0xfffe9), (22, 0x3fffdb), (22, 0x3fffdc), (23, 0x7fffe8), (23, 0x7fffe9), (21, 0x1fffde),
      (23, 0x7fffea), (22, 0x3fffdd), (22, 0x3fffde), (24, 0xfffff0), (21, 0x1fffdf), (22, 0x3fffdf),
      (23, 0x7fffeb), (23, 0x7fffec), (21, 0x1fffe0), (21, 0x1fffe1), (22, 0x3fffe0), (21, 0x1fffe2),
      (23, 0x7fffed), (22, 0x3fffe1), (23, 0x7fffee), (23, 0x7fffef), (20, 0xfffea), (22, 0x3fffe2),
      (22, 0x3fffe3), (22, 0x3fffe4), (23, 0x7ffff0), (22, 0x3fffe5), (22, 0x3fffe6), (23, 0x7ffff1),
      (26, 0x3ffffe0), (26, 0x3ffffe1), (20, 0xfffeb), (19, 0x7fff1), (22, 0x3fffe7), (23, 0x7ffff2),
      (22, 0x3fffe8), (25, 0x1ffffec), (26, 0x3ffffe2), (26, 0x3ffffe3), (26, 0x3ffffe4), (27, 0x7ffffde),
      (27, 0x7ffffdf), (26, 0x3ffffe5), (24, 0xfffff1), (25, 0x1ffffed), (19, 0x7fff2), (21, 0x1fffe3),
      (26, 0x3ffffe6), (27, 0x7ffffe0), (27, 0x7ffffe1), (26, 0x3ffffe7), (27, 0x7ffffe2), (24, 0xfffff2),
      (21, 0x1fffe4), (21, 0x1fffe5), (26, 0x3ffffe8), (26, 0x3ffffe9), (28, 0xffffffd), (27, 0x7ffffe3),
      (27, 0x7ffffe4), (27, 0x7ffffe5), (20, 0xfffec), (24, 0xfffff3), (20, 0xfffed), (21, 0x1fffe6),
      (22, 0x3fffe9), (21, 0x1fffe7), (21, 0x1fffe8), (23, 0x7ffff3), (22, 0x3fffea), (22, 0x3fffeb),
      (25, 0x1ffffee), (25, 0x1ffffef), (24, 0xfffff4), (24, 0xfffff5), (26, 0x3ffffea), (23, 0x7ffff4),
      (26, 0x3ffffeb), (27, 0x7ffffe6), (26, 0x3ffffec), (26, 0x3ffffed), (27, 0x7ffffe7), (27, 0x7ffffe8),
      (27, 0x7ffffe9), (27, 0x7ffffea), (27, 0x7ffffeb), (28, 0xffffffe), (27, 0x7ffffec), (27, 0x7ffffed),
      (27, 0x7ffffee), (27, 0x7ffffef), (27, 0x7fffff0), (26, 0x3ffffee), (30, 0x3fffffff)]"

text \<open>The bits of a code and of a byte, most significant first.\<close>

definition msb_bits :: "nat \<Rightarrow> 'a::len word \<Rightarrow> bool list" where
  "msb_bits n w = map (\<lambda>k. bit w (n - 1 - k)) [0..<n]"

definition code_bits :: "nat \<Rightarrow> bool list" where
  "code_bits i = msb_bits (fst (ENCODE_TABLE ! i)) (snd (ENCODE_TABLE ! i))"

subsection \<open>Facts about the table\<close>

definition code_ok :: "nat \<times> u32 \<Rightarrow> bool" where
  "code_ok e \<longleftrightarrow> 5 \<le> fst e \<and> fst e \<le> 30 \<and> unat (snd e) < 2 ^ fst e"

lemma length_ENCODE_TABLE [simp]: "length ENCODE_TABLE = 257"
  by (simp add: ENCODE_TABLE_def)

lemma ENCODE_TABLE_ok: "list_all code_ok ENCODE_TABLE"
  by (simp add: ENCODE_TABLE_def code_ok_def)

text \<open>
  The code is canonical: the codes of one length lie in one range, and the range of each length
  starts where twice the end of the next shorter one is. These are the ends of the ranges.
\<close>

definition first_code :: "nat list" where
  "first_code =
     [0, 0, 0, 0, 0, 0, 20, 92, 248, 508, 1016, 2042, 4090, 8184, 16380, 32764, 65534, 131068, 262136, 524272, 1048550, 2097116, 4194258, 8388568, 16777194, 33554412, 67108832, 134217694, 268435426, 536870910, 1073741820]"

definition next_code :: "nat list" where
  "next_code =
     [0, 0, 0, 0, 0, 10, 46, 124, 254, 508, 1021, 2045, 4092, 8190, 16382, 32767, 65534, 131068, 262136, 524275, 1048558, 2097129, 4194284, 8388597, 16777206, 33554416, 67108847, 134217713, 268435455, 536870910, 1073741824]"

text \<open>The symbols of each length, in the order of their codes.\<close>

definition symbols_of_length :: "nat list list" where
  "symbols_of_length =
     [[], [], [], [], [], [48, 49, 50, 97, 99, 101, 105, 111, 115, 116], [32, 37, 45, 46, 47, 51,
      52, 53, 54, 55, 56, 57, 61, 65, 95, 98, 100, 102, 103, 104, 108, 109, 110, 112, 114,
      117], [58, 66, 67, 68, 69, 70, 71, 72, 73, 74, 75, 76, 77, 78, 79, 80, 81, 82, 83, 84,
      85, 86, 87, 89, 106, 107, 113, 118, 119, 120, 121, 122], [38, 42, 44, 59, 88, 90], [],
      [33, 34, 40, 41, 63], [39, 43, 124], [35, 62], [0, 36, 64, 91, 93, 126], [94, 125],
      [60, 96, 123], [], [], [], [92, 195, 208], [128, 130, 131, 162, 184, 194, 224, 226],
      [153, 161, 167, 172, 176, 177, 179, 209, 216, 217, 227, 229, 230], [129, 132, 133,
      134, 136, 146, 154, 156, 160, 163, 164, 169, 170, 173, 178, 181, 185, 186, 187, 189,
      190, 196, 198, 228, 232, 233], [1, 135, 137, 138, 139, 140, 141, 143, 147, 149, 150,
      151, 152, 155, 157, 158, 165, 166, 168, 174, 175, 180, 182, 183, 188, 191, 197, 231,
      239], [9, 142, 144, 145, 148, 159, 171, 206, 215, 225, 236, 237], [199, 207, 234,
      235], [192, 193, 200, 201, 202, 205, 210, 213, 218, 219, 238, 240, 242, 243, 255],
      [203, 204, 211, 212, 214, 221, 222, 223, 241, 244, 245, 246, 247, 248, 250, 251, 252,
      253, 254], [2, 3, 4, 5, 6, 7, 8, 11, 12, 14, 15, 16, 17, 18, 19, 20, 21, 23, 24, 25,
      26, 27, 28, 29, 30, 31, 127, 220, 249], [], [10, 13, 22, 256]]"

text \<open>The ends of the ranges of the lengths that occur.\<close>

lemma code_range_at:
  shows
    "first_code ! 5 = 0" "first_code ! 6 = 20" "first_code ! 7 = 92" "first_code ! 8 = 248"
    "first_code ! 10 = 1016" "first_code ! 11 = 2042" "first_code ! 12 = 4090"
    "first_code ! 13 = 8184" "first_code ! 14 = 16380" "first_code ! 15 = 32764"
    "first_code ! 19 = 524272" "first_code ! 20 = 1048550" "first_code ! 21 = 2097116"
    "first_code ! 22 = 4194258" "first_code ! 23 = 8388568" "first_code ! 24 = 16777194"
    "first_code ! 25 = 33554412" "first_code ! 26 = 67108832" "first_code ! 27 = 134217694"
    "first_code ! 28 = 268435426" "first_code ! 30 = 1073741820" "next_code ! 5 = 10"
    "next_code ! 6 = 46" "next_code ! 7 = 124" "next_code ! 8 = 254" "next_code ! 10 = 1021"
    "next_code ! 11 = 2045" "next_code ! 12 = 4092" "next_code ! 13 = 8190"
    "next_code ! 14 = 16382" "next_code ! 15 = 32767" "next_code ! 19 = 524275"
    "next_code ! 20 = 1048558" "next_code ! 21 = 2097129" "next_code ! 22 = 4194284"
    "next_code ! 23 = 8388597" "next_code ! 24 = 16777206" "next_code ! 25 = 33554416"
    "next_code ! 26 = 67108847" "next_code ! 27 = 134217713" "next_code ! 28 = 268435455"
    "next_code ! 30 = 1073741824"
  by (simp_all add: first_code_def next_code_def)

definition entry_check :: "nat \<Rightarrow> nat \<times> u32 \<Rightarrow> bool" where
  "entry_check i e \<longleftrightarrow>
     (let n = fst e; c = unat (snd e) in
      first_code ! n \<le> c \<and> c < next_code ! n \<and> symbols_of_length ! n ! (c - first_code ! n) = i \<and>
      (i = 256 \<longrightarrow> e = (30, 0x3fffffff)))"

fun table_check :: "nat \<Rightarrow> (nat \<times> u32) list \<Rightarrow> bool" where
  "table_check i [] = True"
| "table_check i (e # es) = (if entry_check i e then table_check (i + 1) es else False)"

text \<open>Evaluate the check from the front: the rest of the table is left alone.\<close>

lemma table_check_cong: "i = j \<Longrightarrow> table_check i es = table_check j es"
  by simp

lemma ENCODE_TABLE_check: "table_check 0 ENCODE_TABLE"
  unfolding ENCODE_TABLE_def
  by (simp add: entry_check_def code_range_at symbols_of_length_def cong: table_check_cong)

lemma table_check_nth: "table_check j es \<Longrightarrow> i < length es \<Longrightarrow> entry_check (j + i) (es ! i)"
proof (induction es arbitrary: i j)
  case (Cons e es)
  then have e: "entry_check j e" and es: "table_check (j + 1) es"
    by (simp_all split: if_splits)
  show ?case
  proof (cases i)
    case 0
    then show ?thesis using e by simp
  next
    case (Suc k)
    then show ?thesis using Cons.IH [OF es, of k] Cons.prems(2) by simp
  qed
qed simp

lemma EOS_entry: "ENCODE_TABLE ! 256 = (30, 0x3fffffff)"
  using table_check_nth [OF ENCODE_TABLE_check, of 256] by (simp add: entry_check_def Let_def)

lemma code_ranges_chain: "k < 30 \<Longrightarrow> 2 * next_code ! k = first_code ! Suc k"
proof -
  have eq: "map (\<lambda>c. 2 * c) (butlast next_code) = tl first_code"
    and len: "length next_code = 31" "length first_code = 31"
    by (simp_all add: first_code_def next_code_def)
  assume "k < 30"
  then have "tl first_code ! k = 2 * next_code ! k"
    using len by (simp add: eq [symmetric] nth_butlast)
  moreover have "tl first_code ! k = first_code ! Suc k"
    using len \<open>k < 30\<close> by (simp add: nth_tl)
  ultimately show ?thesis by simp
qed

subsection \<open>The code is prefix-free\<close>

lemma code_entry:
  assumes "i < 257"
  shows "5 \<le> fst (ENCODE_TABLE ! i)" "fst (ENCODE_TABLE ! i) \<le> 30"
    and "unat (snd (ENCODE_TABLE ! i)) < 2 ^ fst (ENCODE_TABLE ! i)"
    and "first_code ! fst (ENCODE_TABLE ! i) \<le> unat (snd (ENCODE_TABLE ! i))"
    and "unat (snd (ENCODE_TABLE ! i)) < next_code ! fst (ENCODE_TABLE ! i)"
    and "symbols_of_length ! fst (ENCODE_TABLE ! i)
           ! (unat (snd (ENCODE_TABLE ! i)) - first_code ! fst (ENCODE_TABLE ! i)) = i"
proof -
  have "code_ok (ENCODE_TABLE ! i)"
    using ENCODE_TABLE_ok assms by (simp add: list_all_length)
  then show "5 \<le> fst (ENCODE_TABLE ! i)" "fst (ENCODE_TABLE ! i) \<le> 30"
    and "unat (snd (ENCODE_TABLE ! i)) < 2 ^ fst (ENCODE_TABLE ! i)"
    by (simp_all add: code_ok_def)
  have "entry_check i (ENCODE_TABLE ! i)"
    using table_check_nth [OF ENCODE_TABLE_check, of i] assms by simp
  then show "first_code ! fst (ENCODE_TABLE ! i) \<le> unat (snd (ENCODE_TABLE ! i))"
    and "unat (snd (ENCODE_TABLE ! i)) < next_code ! fst (ENCODE_TABLE ! i)"
    and "symbols_of_length ! fst (ENCODE_TABLE ! i)
           ! (unat (snd (ENCODE_TABLE ! i)) - first_code ! fst (ENCODE_TABLE ! i)) = i"
    by (simp_all add: entry_check_def Let_def)
qed

text \<open>Between two lengths, the shorter codes are used up before the longer ones start.\<close>

lemma length_first_code: "length first_code = 31"
  by (simp add: first_code_def)

lemma first_le_next: "k \<le> 30 \<Longrightarrow> first_code ! k \<le> next_code ! k"
proof -
  have "list_all2 (\<le>) first_code next_code"
    by (simp add: first_code_def next_code_def)
  then show "k \<le> 30 \<Longrightarrow> ?thesis"
    by (auto dest: list_all2_nthD [where p = k] simp: length_first_code)
qed

lemma next_code_scaled: "n + Suc d \<le> 30 \<Longrightarrow> next_code ! n * 2 ^ Suc d \<le> first_code ! (n + Suc d)"
proof (induction d)
  case 0
  then show ?case using code_ranges_chain [of n] by simp
next
  case (Suc d)
  then have "next_code ! n * 2 ^ Suc d \<le> next_code ! (n + Suc d)"
    using first_le_next [of "n + Suc d"] by simp
  then show ?case
    using code_ranges_chain [of "n + Suc d"] Suc.prems by simp
qed

lemma length_msb_bits [simp]: "length (msb_bits n w) = n"
  by (simp add: msb_bits_def)

lemma nth_msb_bits [simp]: "k < n \<Longrightarrow> msb_bits n w ! k = bit w (n - 1 - k)"
  by (simp add: msb_bits_def)

lemma prefix_msb_bits:
  fixes c :: "'a::len word"
  assumes p: "prefix (msb_bits n c) (msb_bits m d)"
    and c: "unat c < 2 ^ n" and d: "unat d < 2 ^ m"
  shows "n \<le> m" "c = drop_bit (m - n) d"
proof -
  show le: "n \<le> m" using prefix_length_le [OF p] by simp
  have eq: "bit c (n - 1 - k) = bit d (m - 1 - k)" if "k < n" for k
  proof -
    have "msb_bits m d ! k = msb_bits n c ! k"
      using p that by (auto simp: prefix_def nth_append)
    then show ?thesis using that le by simp
  qed
  have high: "\<not> bit w k" if "unat w < 2 ^ l" "l \<le> k" for w :: "'a word" and l k
  proof -
    have "(2::nat) ^ l \<le> 2 ^ k" using that by (simp add: power_increasing)
    then have "unat w div 2 ^ k = 0" using that by (simp add: order_less_le_trans)
    then have "\<not> bit (unat w) k" by (simp add: bit_iff_odd)
    then show ?thesis by (simp add: bit_unsigned_iff)
  qed
  show "c = drop_bit (m - n) d"
  proof (rule bit_word_eqI)
    fix k
    assume "k < LENGTH('a)"
    show "bit c k = bit (drop_bit (m - n) d) k"
    proof (cases "k < n")
      case True
      then have "n - 1 - (n - 1 - k) = k" "m - 1 - (n - 1 - k) = m - n + k" using le by auto
      then show ?thesis using eq [of "n - 1 - k"] True by (simp add: bit_drop_bit_eq)
    next
      case False
      then have "\<not> bit c k" "\<not> bit d (m - n + k)" using high c d le by auto
      then show ?thesis by (simp add: bit_drop_bit_eq)
    qed
  qed
qed

lemma code_bits_prefix_free:
  assumes i: "i < 257" and j: "j < 257" and p: "prefix (code_bits i) (code_bits j)"
  shows "i = j"
proof -
  let ?n = "fst (ENCODE_TABLE ! i)" and ?m = "fst (ENCODE_TABLE ! j)"
  let ?c = "snd (ENCODE_TABLE ! i)" and ?d = "snd (ENCODE_TABLE ! j)"
  have le: "?n \<le> ?m" and c: "?c = drop_bit (?m - ?n) ?d"
    using prefix_msb_bits [OF p [unfolded code_bits_def] code_entry(3) [OF i] code_entry(3) [OF j]]
    by simp_all
  show "i = j"
  proof (cases "?n = ?m")
    case True
    then have cd: "?c = ?d" using c by simp
    have "i = symbols_of_length ! ?n ! (unat ?c - first_code ! ?n)"
      by (rule code_entry(6) [OF i, symmetric])
    also have "\<dots> = symbols_of_length ! ?m ! (unat ?d - first_code ! ?m)"
      by (simp only: True cd)
    also have "\<dots> = j" by (rule code_entry(6) [OF j])
    finally show ?thesis .
  next
    case False
    then obtain e where m: "?m = ?n + Suc e" 
      using le less_imp_Suc_add [of ?n ?m] by (auto simp only: nat_less_le add_Suc_right)
    have "next_code ! ?n * 2 ^ Suc e \<le> unat ?d"
      using next_code_scaled [of ?n e] code_entry(2) [OF j] code_entry(4) [OF j] m by simp
    then have "next_code ! ?n \<le> unat ?d div 2 ^ Suc e"
      by (simp add: less_eq_div_iff_mult_less_eq)
    also have "\<dots> = unat ?c"
      using unat_drop_bit_eq [of "Suc e" ?d] by (simp only: c m drop_bit_nat_def diff_add_inverse)
    finally show ?thesis using code_entry(5) [OF i] by simp
  qed
qed

end
