(* ===== verification/Hpack_Huffman.thy ===== *)
theory Hpack_Huffman
  imports Huffman_Table
begin

text \<open>
  HPACK Huffman coding, \<^verbatim>\<open>lkh2/src/hpack_enc/huffman.rs\<close>: the length computation and
  the bit-packing loop over a 64-bit accumulator. The specification side is the bit string that
  RFC 7541 prescribes (the codes one after the other, padded with ones to a whole byte) and
  the decoder of that bit string.
\<close>

subsection \<open>The encoder\<close>

definition encoded_len :: "bytes \<Rightarrow> nat" where
  "encoded_len src = (sum_list (map (\<lambda>b. fst (ENCODE_TABLE ! unat b)) src) + 7) div 8"

text \<open>The inner loop: while at most 32 bits are left in the 40-bit window, push its top byte.\<close>

function flush_loop :: "u64 \<Rightarrow> nat \<Rightarrow> bytes \<Rightarrow> u64 \<times> nat \<times> bytes" where
  "flush_loop bits bits_left dst =
     (if bits_left \<le> 32
      then flush_loop (push_bit 8 bits) (bits_left + 8) (dst @ [ucast (drop_bit 32 bits)])
      else (bits, bits_left, dst))"
  by pat_completeness auto
termination
  by (relation "measure (\<lambda>(bits, bits_left, dst). 33 - bits_left)") auto

declare flush_loop.simps [simp del]

fun encode_loop :: "bytes \<Rightarrow> u64 \<Rightarrow> nat \<Rightarrow> bytes \<Rightarrow> u64 \<times> nat \<times> bytes" where
  "encode_loop [] bits bits_left dst = (bits, bits_left, dst)"
| "encode_loop (b # src) bits bits_left dst =
     (let (nbits, code) = ENCODE_TABLE ! unat b;
          bits1 = bits OR push_bit (bits_left - nbits) (ucast code :: u64);
          (bits2, left2, dst2) = flush_loop bits1 (bits_left - nbits) dst
      in encode_loop src bits2 left2 dst2)"

definition huffman_encode :: "bytes \<Rightarrow> bytes \<Rightarrow> bytes" where
  "huffman_encode src dst =
     (let (bits, bits_left, out) = encode_loop src 0 40 dst in
      if bits_left \<noteq> 40
      then out @ [ucast (drop_bit 32 (bits OR (push_bit bits_left 1 - 1)))]
      else out)"

subsection \<open>Specification: bit strings\<close>

definition codes :: "bytes \<Rightarrow> bool list" where
  "codes src = concat (map (\<lambda>b. code_bits (unat b)) src)"

definition byte_bits :: "bytes \<Rightarrow> bool list" where
  "byte_bits xs = concat (map (msb_bits 8) xs)"

definition pad_len :: "nat \<Rightarrow> nat" where
  "pad_len n = (8 - n mod 8) mod 8"

text \<open>RFC 7541 section 5.2: codes up to a padding of fewer than eight ones.\<close>

definition is_padding :: "bool list \<Rightarrow> bool" where
  "is_padding bl \<longleftrightarrow> length bl < 8 \<and> list_all id bl"

function rfc_huffman_decode :: "bool list \<Rightarrow> bytes option" where
  "rfc_huffman_decode bl =
     (if is_padding bl then Some []
      else case find (\<lambda>i. prefix (code_bits i) bl \<and> code_bits i \<noteq> []) [0..<256] of
             None \<Rightarrow> None
           | Some i \<Rightarrow>
               map_option (\<lambda>r. word_of_nat i # r) (rfc_huffman_decode (drop (length (code_bits i)) bl)))"
  by pat_completeness auto
termination
proof (relation "measure length")
  fix bl i
  assume "\<not> is_padding bl" and f: "find (\<lambda>i. prefix (code_bits i) bl \<and> code_bits i \<noteq> []) [0..<256] = Some i"
  then have "bl \<noteq> []" by (auto simp: is_padding_def)
  moreover have "code_bits i \<noteq> []" using f by (auto simp: find_Some_iff)
  ultimately show "(drop (length (code_bits i)) bl, bl) \<in> measure length" by simp
qed simp

declare rfc_huffman_decode.simps [simp del]

subsection \<open>The packing loop\<close>

text \<open>
  The accumulator holds \<open>pend\<close>, the bits not yet written out: its top bit at position 39, with
  zeros below them. The bits above position 39 are left-overs of bytes already written.
\<close>

definition holds :: "u64 \<Rightarrow> nat \<Rightarrow> bool list \<Rightarrow> bool" where
  "holds bits bits_left pend \<longleftrightarrow>
     bits_left + length pend = 40 \<and>
     (\<forall>j < 40. bit bits (39 - j) = (j < length pend \<and> pend ! j))"

lemma holds_lengths: "holds bits left pend \<Longrightarrow> left + length pend = 40"
  by (simp add: holds_def)

lemma holds_bit: "holds bits left pend \<Longrightarrow> k < 40 \<Longrightarrow> bit bits k = (39 - k < length pend \<and> pend ! (39 - k))"
proof -
  assume h: "holds bits left pend" and "k < 40"
  moreover have "39 - k < 40" by simp
  ultimately have "bit bits (39 - (39 - k)) = (39 - k < length pend \<and> pend ! (39 - k))"
    unfolding holds_def by blast
  then show ?thesis using \<open>k < 40\<close> by simp
qed

lemma holdsI:
  assumes "left + length pend = 40"
    and "\<And>k. k < 40 \<Longrightarrow> bit bits k = (39 - k < length pend \<and> pend ! (39 - k))"
  shows "holds bits left pend"
  unfolding holds_def using assms by simp

lemma holds_byte:
  assumes h: "holds bits left pend" and "8 \<le> length pend"
  shows "msb_bits 8 (ucast (drop_bit 32 bits) :: u8) = take 8 pend"
proof (rule nth_equalityI)
  show "length (msb_bits 8 (ucast (drop_bit 32 bits) :: u8)) = length (take 8 pend)"
    using assms by simp
  fix k assume "k < length (msb_bits 8 (ucast (drop_bit 32 bits) :: u8))"
  then have k: "k < 8" by simp
  then have "39 - k < 40" "7 - k < 8" by simp_all
  then show "msb_bits 8 (ucast (drop_bit 32 bits) :: u8) ! k = take 8 pend ! k"
    using assms k holds_bit [OF h, of "39 - k"] by (simp add: bit_ucast_iff bit_drop_bit_eq)
qed

lemma holds_shift:
  assumes h: "holds bits left pend" and l: "left \<le> 32"
  shows "holds (push_bit 8 bits) (left + 8) (drop 8 pend)"
proof (rule holdsI)
  have len: "8 \<le> length pend" using holds_lengths [OF h] l by simp
  then show "left + 8 + length (drop 8 pend) = 40" using holds_lengths [OF h] by simp
  fix k :: nat assume k: "k < 40"
  show "bit (push_bit 8 bits) k = (39 - k < length (drop 8 pend) \<and> drop 8 pend ! (39 - k))"
  proof (cases "k < 8")
    case True
    then have "\<not> 39 - k < length (drop 8 pend)" using holds_lengths [OF h] by simp
    then show ?thesis using True by (simp add: bit_push_bit_iff)
  next
    case False
    then have e: "39 - (k - 8) = 8 + (39 - k)" using k by simp
    show ?thesis using False k len holds_bit [OF h, of "k - 8"]
      by (auto simp: bit_push_bit_iff e)
  qed
qed

lemma byte_bits_append [simp]: "byte_bits (xs @ ys) = byte_bits xs @ byte_bits ys"
  by (simp add: byte_bits_def)

lemma byte_bits_Nil [simp]: "byte_bits [] = []"
  by (simp add: byte_bits_def)

lemma byte_bits_Cons [simp]: "byte_bits (x # xs) = msb_bits 8 x @ byte_bits xs"
  by (simp add: byte_bits_def)

lemma length_byte_bits [simp]: "length (byte_bits xs) = 8 * length xs"
  by (induction xs) simp_all

lemma flush_loop_spec:
  "holds bits left pend \<Longrightarrow> flush_loop bits left dst = (bits', left', dst') \<Longrightarrow>
   \<exists>out pend'. dst' = dst @ out \<and> holds bits' left' pend' \<and> 32 < left' \<and> pend = byte_bits out @ pend'"
proof (induction bits left dst arbitrary: pend rule: flush_loop.induct)
  case (1 bits left dst)
  show ?case
  proof (cases "left \<le> 32")
    case True
    then have fl: "flush_loop (push_bit 8 bits) (left + 8) (dst @ [ucast (drop_bit 32 bits)]) = (bits', left', dst')"
      using "1.prems"(2) by (subst (asm) flush_loop.simps) simp
    obtain out pend' where o: "dst' = (dst @ [ucast (drop_bit 32 bits)]) @ out" "holds bits' left' pend'"
      "32 < left'" "drop 8 pend = byte_bits out @ pend'"
      using "1.IH" [OF True holds_shift [OF "1.prems"(1) True] fl] by blast
    have "8 \<le> length pend" using holds_lengths [OF "1.prems"(1)] True by simp
    then have "pend = byte_bits (ucast (drop_bit 32 bits) # out) @ pend'"
      using holds_byte [OF "1.prems"(1)] o(4) append_take_drop_id [of 8 pend] by simp
    moreover have "dst' = dst @ (ucast (drop_bit 32 bits) # out)" using o(1) by simp
    ultimately show ?thesis using o(2,3) by blast
  next
    case False
    then have "bits' = bits" "left' = left" "dst' = dst"
      using "1.prems"(2) by (simp_all add: flush_loop.simps [of bits left dst])
    then show ?thesis using False "1.prems"(1) by (intro exI [of _ "[]"] exI [of _ pend]) simp
  qed
qed

lemma length_code_bits [simp]: "length (code_bits i) = fst (ENCODE_TABLE ! i)"
  by (simp add: code_bits_def)

lemma code_bit_high:
  assumes "i < 257" "fst (ENCODE_TABLE ! i) \<le> k"
  shows "\<not> bit (snd (ENCODE_TABLE ! i)) k"
proof -
  have "(2::nat) ^ fst (ENCODE_TABLE ! i) \<le> 2 ^ k" using assms by (simp add: power_increasing)
  then have "unat (snd (ENCODE_TABLE ! i)) div 2 ^ k = 0"
    using code_entry(3) [OF assms(1)] by (simp add: order_less_le_trans)
  then have "\<not> bit (unat (snd (ENCODE_TABLE ! i))) k" by (simp add: bit_iff_odd)
  then show ?thesis by (simp add: bit_unsigned_iff)
qed

lemma holds_code:
  assumes h: "holds bits left pend" and l: "32 < left" and i: "i < 257"
  shows "holds (bits OR push_bit (left - fst (ENCODE_TABLE ! i)) (ucast (snd (ENCODE_TABLE ! i)) :: u64))
           (left - fst (ENCODE_TABLE ! i)) (pend @ code_bits i)"
    (is "holds ?b ?l _")
proof (rule holdsI)
  let ?n = "fst (ENCODE_TABLE ! i)" and ?c = "snd (ENCODE_TABLE ! i)"
  have n: "?n \<le> 30" by (rule code_entry(2) [OF i])
  have len: "left + length pend = 40" by (rule holds_lengths [OF h])
  show "?l + length (pend @ code_bits i) = 40" using n len l by simp
  fix k :: nat assume k: "k < 40"
  have b: "bit ?b k = (bit bits k \<or> (left - ?n \<le> k \<and> bit ?c (k - (left - ?n))))"
    using k by (auto simp: bit_or_iff bit_push_bit_iff bit_ucast_iff dest: bit_imp_le_length)
  show "bit ?b k = (39 - k < length (pend @ code_bits i) \<and> (pend @ code_bits i) ! (39 - k))"
  proof (cases "39 - k < length pend")
    case True
    then have "?n \<le> k - (left - ?n)" using len n l k by simp
    then have "\<not> bit ?c (k - (left - ?n))" by (rule code_bit_high [OF i])
    then show ?thesis using True b holds_bit [OF h k] by (simp add: nth_append)
  next
    case False
    then have old: "\<not> bit bits k" using holds_bit [OF h k] by simp
    show ?thesis
    proof (cases "left - ?n \<le> k")
      case True
      define q where "q = 39 - k - length pend"
      have q: "q < ?n" "?n - 1 - q = k - (left - ?n)" using True False len n l k by (auto simp: q_def)
      then have "code_bits i ! q = bit ?c (k - (left - ?n))" by (simp add: code_bits_def)
      moreover have "39 - k < length pend + ?n" using q(1) by (simp add: q_def)
      ultimately show ?thesis using b old True False by (simp add: nth_append q_def)
    next
      case False
      then show ?thesis using b old \<open>\<not> 39 - k < length pend\<close> len n l k by (auto simp: nth_append)
    qed
  qed
qed

lemma codes_Cons: "codes (b # src) = code_bits (unat b) @ codes src"
  by (simp add: codes_def)

lemma unat_u8_less [simp]: "unat (b :: u8) < 257"
  using unat_u8_le [of b] by simp

lemma encode_loop_spec:
  "holds bits left pend \<Longrightarrow> 32 < left \<Longrightarrow> encode_loop src bits left dst = (bits', left', dst') \<Longrightarrow>
   \<exists>out pend'. dst' = dst @ out \<and> holds bits' left' pend' \<and> 32 < left' \<and>
               pend @ codes src = byte_bits out @ pend'"
proof (induction src arbitrary: bits left pend dst)
  case Nil
  then show ?case by (intro exI [of _ "[]"] exI [of _ pend]) (simp add: codes_def)
next
  case (Cons b src)
  let ?n = "fst (ENCODE_TABLE ! unat b)" and ?c = "snd (ENCODE_TABLE ! unat b)"
  obtain bits2 left2 dst2 where
    fl: "flush_loop (bits OR push_bit (left - ?n) (ucast ?c)) (left - ?n) dst = (bits2, left2, dst2)"
    by (metis prod_cases3)
  obtain out pend2 where o: "dst2 = dst @ out" "holds bits2 left2 pend2" "32 < left2"
    "pend @ code_bits (unat b) = byte_bits out @ pend2"
    using flush_loop_spec [OF holds_code [OF Cons.prems(1,2) unat_u8_less] fl] by blast
  have "encode_loop src bits2 left2 dst2 = (bits', left', dst')"
    using Cons.prems(3) by (simp add: fl Let_def split_beta)
  from Cons.IH [OF o(2,3) this] obtain out' pend' where
    o': "dst' = dst2 @ out'" "holds bits' left' pend'" "32 < left'" "pend2 @ codes src = byte_bits out' @ pend'"
    by blast
  have "pend @ codes (b # src) = byte_bits (out @ out') @ pend'"
  proof -
    have "pend @ codes (b # src) = (byte_bits out @ pend2) @ codes src"
      by (simp add: codes_Cons flip: o(4))
    then show ?thesis using o'(4) by simp
  qed
  then show ?case using o(1) o' by auto
qed

lemma holds_last_byte:
  assumes h: "holds bits left pend" and l: "32 < left" "left \<noteq> 40"
  shows "msb_bits 8 (ucast (drop_bit 32 (bits OR (push_bit left 1 - 1))) :: u8) =
           pend @ replicate (8 - length pend) True"
    (is "msb_bits 8 ?w = _")
proof (rule nth_equalityI)
  have len: "left + length pend = 40" by (rule holds_lengths [OF h])
  then show "length (msb_bits 8 ?w) = length (pend @ replicate (8 - length pend) True)"
    using l by simp
  fix k assume "k < length (msb_bits 8 ?w)"
  then have k: "k < 8" by simp
  then have "7 - k < 8" "32 + (7 - k) = 39 - k" "39 - k < 40" by simp_all
  then have "msb_bits 8 ?w ! k = (bit bits (39 - k) \<or> 39 - k < left)"
    using k by (auto simp: bit_ucast_iff bit_drop_bit_eq bit_or_iff push_bit_of_1 bit_mask_iff
        simp flip: mask_eq_exp_minus_1)
  also have "\<dots> = (pend @ replicate (8 - length pend) True) ! k"
    using k len l holds_bit [OF h, of "39 - k"] by (auto simp: nth_append)
  finally show "msb_bits 8 ?w ! k = (pend @ replicate (8 - length pend) True) ! k" .
qed

text \<open>The encoder appends, to whatever the buffer holds, the padded codes of its input.\<close>

lemma huffman_encode_bits:
  "\<exists>out. huffman_encode src dst = dst @ out \<and>
         byte_bits out = codes src @ replicate (pad_len (length (codes src))) True"
proof -
  obtain bits left dst' where lp: "encode_loop src 0 40 dst = (bits, left, dst')"
    by (metis prod_cases3)
  have "holds 0 40 []" by (simp add: holds_def)
  from encode_loop_spec [OF this _ lp] obtain out pend where
    o: "dst' = dst @ out" "holds bits left pend" "32 < left" "codes src = byte_bits out @ pend"
    by auto
  have len: "left + length pend = 40" by (rule holds_lengths [OF o(2)])
  have m: "length (codes src) mod 8 = length pend" using o(3,4) len by simp
  show ?thesis
  proof (cases "left = 40")
    case True
    then have "pend = []" using len by simp
    then show ?thesis using lp True o m by (simp add: huffman_encode_def pad_len_def)
  next
    case False
    let ?w = "ucast (drop_bit 32 (bits OR (push_bit left 1 - 1))) :: u8"
    have "huffman_encode src dst = dst @ (out @ [?w])"
      using lp False o(1) by (simp add: huffman_encode_def)
    moreover have "byte_bits (out @ [?w]) = codes src @ replicate (pad_len (length (codes src))) True"
      using holds_last_byte [OF o(2,3) False] False len m o(3,4) by (simp add: pad_len_def)
    ultimately show ?thesis by blast
  qed
qed

lemma length_codes: "length (codes src) = sum_list (map (\<lambda>b. fst (ENCODE_TABLE ! unat b)) src)"
  by (induction src) (simp_all add: codes_def)

lemma pad_len_less: "pad_len n < 8"
  by (simp add: pad_len_def)

lemma padded_length: "n + pad_len n = 8 * ((n + 7) div 8)"
proof -
  have "n = 8 * (n div 8) + n mod 8" "n mod 8 < 8" by simp_all
  then obtain q r where n: "n = 8 * q + r" "r < 8" by blast
  show ?thesis
  proof (cases "r = 0")
    case False
    then have "8 - r < 8" by simp
    moreover have "(8 * q + r + 7) div 8 = Suc q" using n False by simp
    ultimately show ?thesis using n False by (simp add: pad_len_def)
  qed (simp add: n pad_len_def)
qed

lemma length_huffman_encode: "length (huffman_encode src dst) = length dst + encoded_len src"
proof -
  obtain out where o: "huffman_encode src dst = dst @ out"
    "byte_bits out = codes src @ replicate (pad_len (length (codes src))) True"
    using huffman_encode_bits by blast
  have "8 * length out = length (codes src) + pad_len (length (codes src))"
    using arg_cong [OF o(2), of length] by simp
  then have "length out = encoded_len src"
    using padded_length [of "length (codes src)"] by (simp add: encoded_len_def length_codes)
  then show ?thesis using o(1) by simp
qed

subsection \<open>Decoding\<close>

text \<open>No code consists of ones only: it would be a prefix of the end-of-string code.\<close>

lemma EOS_bits: "code_bits 256 = replicate 30 True"
proof -
  have m: "(0x3fffffff :: u32) = mask 30" by (simp add: mask_eq_exp_minus_1)
  show ?thesis
    unfolding code_bits_def EOS_entry m by (intro nth_equalityI) (auto simp: bit_mask_iff)
qed

lemma code_bits_not_ones:
  assumes "i < 256"
  shows "\<not> list_all id (code_bits i)"
proof
  let ?n = "fst (ENCODE_TABLE ! i)"
  assume "list_all id (code_bits i)"
  then have "code_bits i = replicate ?n True"
    by (auto simp: list_all_iff replicate_length_same [symmetric] simp flip: length_code_bits)
  then have "prefix (code_bits i) (code_bits 256)"
    using code_entry(2) [of i] assms unfolding EOS_bits prefix_def
    by (intro exI [of _ "replicate (30 - ?n) True"]) (simp flip: replicate_add)
  then show False using code_bits_prefix_free [of i 256] assms by simp
qed

lemma not_padding_code: "i < 256 \<Longrightarrow> \<not> is_padding (code_bits i @ r)"
  using code_bits_not_ones [of i] by (simp add: is_padding_def)

lemma find_code:
  assumes "i < 256"
  shows "find (\<lambda>k. prefix (code_bits k) (code_bits i @ r) \<and> code_bits k \<noteq> []) [0..<256] = Some i"
proof -
  have ne: "code_bits i \<noteq> []"
    using code_entry(1) [of i] assms by (simp flip: length_greater_0_conv)
  have u: "k = i" if "k < 256" "prefix (code_bits k) (code_bits i @ r)" for k
    using prefix_same_cases [OF that(2), of "code_bits i"] that(1) assms
      code_bits_prefix_free [of k i] code_bits_prefix_free [of i k] by auto
  have "\<not> prefix (code_bits k) (code_bits i @ r)" if "k < i" for k
    using u [of k] less_trans [OF that assms] that by auto
  then show ?thesis using assms ne by (auto simp: find_Some_iff intro!: exI [of _ i])
qed

lemma rfc_huffman_decode_codes: "n < 8 \<Longrightarrow> rfc_huffman_decode (codes src @ replicate n True) = Some src"
proof (induction src)
  case Nil
  then show ?case by (subst rfc_huffman_decode.simps) (simp add: codes_def is_padding_def list_all_iff)
next
  case (Cons b src)
  have b: "unat b < 256" using unat_u8_le [of b] by simp
  show ?case
    using Cons not_padding_code [OF b] find_code [OF b]
    by (subst rfc_huffman_decode.simps) (simp add: codes_Cons)
qed

subsection \<open>Properties\<close>

text \<open>
  C8. Whatever the input and whatever the buffer already holds, the Huffman encoder appends
  exactly \<^verbatim>\<open>encoded_len(src)\<close> bytes, the number that the string encoder writes as the length prefix;
  their bits are the RFC 7541 codes of the input followed by fewer than eight one bits; and the RFC
  decoder reads the input back from them.
\<close>

theorem huffman_encode_correct:
  "\<exists>out. huffman_encode src dst = dst @ out \<and> length out = encoded_len src \<and>
         (\<exists>n < 8. byte_bits out = codes src @ replicate n True) \<and>
         rfc_huffman_decode (byte_bits out) = Some src"
proof -
  obtain out where o: "huffman_encode src dst = dst @ out"
    "byte_bits out = codes src @ replicate (pad_len (length (codes src))) True"
    using huffman_encode_bits by blast
  moreover have "length out = encoded_len src" using length_huffman_encode [of src dst] o(1) by simp
  ultimately show ?thesis using rfc_huffman_decode_codes pad_len_less by auto
qed

end
