(* ===== verification/H2_Frame.thy ===== *)
theory H2_Frame
  imports Prelude
begin

text \<open>
  The HTTP/2 frame types of \<^verbatim>\<open>lkh2/src/frame.rs\<close>: the type byte, the flag byte, the nine-byte frame
  header with its parser and encoder, the payload structs as records and the frame enum. The
  lemmas give the round trip of the header and of the identifier tables.
\<close>

subsection \<open>Frame types\<close>

definition FRAME_HEADER_SIZE :: nat where
  "FRAME_HEADER_SIZE = 9"

datatype H2FrameType =
    FT_Data | FT_Headers | FT_Priority | FT_RstStream | FT_Settings
  | FT_PushPromise | FT_Ping | FT_GoAway | FT_WindowUpdate | FT_Continuation

definition frame_type_from_u8 :: "u8 \<Rightarrow> H2FrameType option" where
  "frame_type_from_u8 v =
     (if v = 0x0 then Some FT_Data
      else if v = 0x1 then Some FT_Headers
      else if v = 0x2 then Some FT_Priority
      else if v = 0x3 then Some FT_RstStream
      else if v = 0x4 then Some FT_Settings
      else if v = 0x5 then Some FT_PushPromise
      else if v = 0x6 then Some FT_Ping
      else if v = 0x7 then Some FT_GoAway
      else if v = 0x8 then Some FT_WindowUpdate
      else if v = 0x9 then Some FT_Continuation
      else None)"

fun frame_type_as_u8 :: "H2FrameType \<Rightarrow> u8" where
  "frame_type_as_u8 FT_Data = 0x0"
| "frame_type_as_u8 FT_Headers = 0x1"
| "frame_type_as_u8 FT_Priority = 0x2"
| "frame_type_as_u8 FT_RstStream = 0x3"
| "frame_type_as_u8 FT_Settings = 0x4"
| "frame_type_as_u8 FT_PushPromise = 0x5"
| "frame_type_as_u8 FT_Ping = 0x6"
| "frame_type_as_u8 FT_GoAway = 0x7"
| "frame_type_as_u8 FT_WindowUpdate = 0x8"
| "frame_type_as_u8 FT_Continuation = 0x9"

fun frame_type_display :: "H2FrameType \<Rightarrow> string" where
  "frame_type_display FT_Data = ''DATA''"
| "frame_type_display FT_Headers = ''HEADERS''"
| "frame_type_display FT_Priority = ''PRIORITY''"
| "frame_type_display FT_RstStream = ''RST_STREAM''"
| "frame_type_display FT_Settings = ''SETTINGS''"
| "frame_type_display FT_PushPromise = ''PUSH_PROMISE''"
| "frame_type_display FT_Ping = ''PING''"
| "frame_type_display FT_GoAway = ''GOAWAY''"
| "frame_type_display FT_WindowUpdate = ''WINDOW_UPDATE''"
| "frame_type_display FT_Continuation = ''CONTINUATION''"

subsection \<open>Frame flags\<close>

text \<open>The newtype \<^verbatim>\<open>H2FrameFlags(u8)\<close> is the byte itself.\<close>

type_synonym H2FrameFlags = u8

definition FLAGS_NONE :: H2FrameFlags where
  "FLAGS_NONE = 0"

definition FLAG_END_STREAM :: u8 where
  "FLAG_END_STREAM = 0x1"

definition FLAG_END_HEADERS :: u8 where
  "FLAG_END_HEADERS = 0x4"

definition FLAG_PADDED :: u8 where
  "FLAG_PADDED = 0x8"

definition FLAG_PRIORITY :: u8 where
  "FLAG_PRIORITY = 0x20"

definition FLAG_ACK :: u8 where
  "FLAG_ACK = 0x1"

definition flags_is_end_stream :: "H2FrameFlags \<Rightarrow> bool" where
  "flags_is_end_stream f \<longleftrightarrow> f AND FLAG_END_STREAM \<noteq> 0"

definition flags_is_end_headers :: "H2FrameFlags \<Rightarrow> bool" where
  "flags_is_end_headers f \<longleftrightarrow> f AND FLAG_END_HEADERS \<noteq> 0"

definition flags_is_padded :: "H2FrameFlags \<Rightarrow> bool" where
  "flags_is_padded f \<longleftrightarrow> f AND FLAG_PADDED \<noteq> 0"

definition flags_is_priority :: "H2FrameFlags \<Rightarrow> bool" where
  "flags_is_priority f \<longleftrightarrow> f AND FLAG_PRIORITY \<noteq> 0"

definition flags_is_ack :: "H2FrameFlags \<Rightarrow> bool" where
  "flags_is_ack f \<longleftrightarrow> f AND FLAG_ACK \<noteq> 0"

definition flags_set :: "u8 \<Rightarrow> H2FrameFlags \<Rightarrow> H2FrameFlags" where
  "flags_set flag f = f OR flag"

definition flags_clear :: "u8 \<Rightarrow> H2FrameFlags \<Rightarrow> H2FrameFlags" where
  "flags_clear flag f = f AND NOT flag"

subsection \<open>Frame header\<close>

record H2FrameHeader =
  fh_length :: u32
  fh_frame_type :: H2FrameType
  fh_flags :: H2FrameFlags
  fh_stream_id :: u32

definition frame_header_new :: "H2FrameType \<Rightarrow> H2FrameFlags \<Rightarrow> u32 \<Rightarrow> u32 \<Rightarrow> H2FrameHeader" where
  "frame_header_new frame_type flags stream_id len =
     \<lparr>fh_length = len, fh_frame_type = frame_type, fh_flags = flags,
      fh_stream_id = stream_id AND 0x7FFFFFFF\<rparr>"

text \<open>The 24-bit length of the first three bytes.\<close>

definition u24_of_be :: "u8 \<Rightarrow> u8 \<Rightarrow> u8 \<Rightarrow> u32" where
  "u24_of_be a b c = push_bit 16 (ucast a) OR push_bit 8 (ucast b) OR ucast c"

text \<open>
  The parser takes exactly nine bytes (\<^verbatim>\<open>&[u8; 9]\<close>); the last equation covers lists that the
  array type rules out.
\<close>

fun frame_header_parse :: "bytes \<Rightarrow> H2FrameHeader option" where
  "frame_header_parse [d0, d1, d2, d3, d4, d5, d6, d7, d8] =
     (case frame_type_from_u8 d3 of
        None \<Rightarrow> None
      | Some frame_type \<Rightarrow>
          Some \<lparr>fh_length = u24_of_be d0 d1 d2, fh_frame_type = frame_type, fh_flags = d4,
                fh_stream_id = u32_of_be d5 d6 d7 d8 AND 0x7FFFFFFF\<rparr>)"
| "frame_header_parse _ = None"

definition frame_header_encode :: "H2FrameHeader \<Rightarrow> bytes" where
  "frame_header_encode h =
     [ucast (drop_bit 16 (fh_length h)), ucast (drop_bit 8 (fh_length h)), ucast (fh_length h),
      frame_type_as_u8 (fh_frame_type h), fh_flags h,
      ucast (drop_bit 24 (fh_stream_id h)), ucast (drop_bit 16 (fh_stream_id h)),
      ucast (drop_bit 8 (fh_stream_id h)), ucast (fh_stream_id h)]"

definition frame_header_total_size :: "H2FrameHeader \<Rightarrow> nat" where
  "frame_header_total_size h = FRAME_HEADER_SIZE + unat (fh_length h)"

subsection \<open>Payloads and the frame enum\<close>

record PrioritySpec =
  ps_exclusive :: bool
  ps_stream_dependency :: u32
  ps_weight :: u8

record DataFrame =
  df_stream_id :: u32
  df_data :: bytes
  df_end_stream :: bool
  df_padding :: "u8 option"

record HeadersFrame =
  hf_stream_id :: u32
  hf_header_block :: bytes
  hf_end_stream :: bool
  hf_end_headers :: bool
  hf_priority :: "PrioritySpec option"
  hf_padding :: "u8 option"

record PriorityFrame =
  pf_stream_id :: u32
  pf_priority :: PrioritySpec

record RstStreamFrame =
  rf_stream_id :: u32
  rf_error_code :: u32

record SettingsParameter =
  sp_id :: u16
  sp_value :: u32

record SettingsFrame =
  sf_ack :: bool
  sf_settings :: "SettingsParameter list"

record PushPromiseFrame =
  ppf_stream_id :: u32
  ppf_promised_stream_id :: u32
  ppf_header_block :: bytes
  ppf_end_headers :: bool
  ppf_padding :: "u8 option"

text \<open>The ping payload is \<^verbatim>\<open>[u8; 8]\<close>: a list of length eight.\<close>

record PingFrame =
  pgf_ack :: bool
  pgf_data :: bytes

record GoAwayFrame =
  gf_last_stream_id :: u32
  gf_error_code :: u32
  gf_debug_data :: bytes

record WindowUpdateFrame =
  wf_stream_id :: u32
  wf_increment :: u32

record ContinuationFrame =
  cf_stream_id :: u32
  cf_header_block :: bytes
  cf_end_headers :: bool

record UnknownFrame =
  uf_frame_type :: u8
  uf_stream_id :: u32
  uf_flags :: u8
  uf_payload :: bytes

datatype H2Frame =
    Data DataFrame
  | Headers HeadersFrame
  | Priority PriorityFrame
  | RstStream RstStreamFrame
  | Settings SettingsFrame
  | PushPromise PushPromiseFrame
  | Ping PingFrame
  | GoAway GoAwayFrame
  | WindowUpdate WindowUpdateFrame
  | Continuation ContinuationFrame
  | Unknown UnknownFrame

fun frame_stream_id :: "H2Frame \<Rightarrow> u32" where
  "frame_stream_id (Data f) = df_stream_id f"
| "frame_stream_id (Headers f) = hf_stream_id f"
| "frame_stream_id (Priority f) = pf_stream_id f"
| "frame_stream_id (RstStream f) = rf_stream_id f"
| "frame_stream_id (Settings _) = 0"
| "frame_stream_id (PushPromise f) = ppf_stream_id f"
| "frame_stream_id (Ping _) = 0"
| "frame_stream_id (GoAway _) = 0"
| "frame_stream_id (WindowUpdate f) = wf_stream_id f"
| "frame_stream_id (Continuation f) = cf_stream_id f"
| "frame_stream_id (Unknown f) = uf_stream_id f"

fun frame_frame_type :: "H2Frame \<Rightarrow> H2FrameType" where
  "frame_frame_type (Data _) = FT_Data"
| "frame_frame_type (Headers _) = FT_Headers"
| "frame_frame_type (Priority _) = FT_Priority"
| "frame_frame_type (RstStream _) = FT_RstStream"
| "frame_frame_type (Settings _) = FT_Settings"
| "frame_frame_type (PushPromise _) = FT_PushPromise"
| "frame_frame_type (Ping _) = FT_Ping"
| "frame_frame_type (GoAway _) = FT_GoAway"
| "frame_frame_type (WindowUpdate _) = FT_WindowUpdate"
| "frame_frame_type (Continuation _) = FT_Continuation"
| "frame_frame_type (Unknown f) =
     (case frame_type_from_u8 (uf_frame_type f) of None \<Rightarrow> FT_Data | Some t \<Rightarrow> t)"

fun frame_is_end_stream :: "H2Frame \<Rightarrow> bool" where
  "frame_is_end_stream (Data f) = df_end_stream f"
| "frame_is_end_stream (Headers f) = hf_end_stream f"
| "frame_is_end_stream _ = False"

subsection \<open>Settings identifiers\<close>

datatype SettingsId =
    HeaderTableSize | EnablePush | MaxConcurrentStreams | InitialWindowSize | MaxFrameSize
  | MaxHeaderListSize | EnableConnectProtocol | NoRfc7540Priorities

definition settings_id_from_u16 :: "u16 \<Rightarrow> SettingsId option" where
  "settings_id_from_u16 v =
     (if v = 0x1 then Some HeaderTableSize
      else if v = 0x2 then Some EnablePush
      else if v = 0x3 then Some MaxConcurrentStreams
      else if v = 0x4 then Some InitialWindowSize
      else if v = 0x5 then Some MaxFrameSize
      else if v = 0x6 then Some MaxHeaderListSize
      else if v = 0x8 then Some EnableConnectProtocol
      else if v = 0x9 then Some NoRfc7540Priorities
      else None)"

subsection \<open>Facts\<close>

lemmas flag_defs =
  FLAGS_NONE_def FLAG_END_STREAM_def FLAG_END_HEADERS_def FLAG_PADDED_def FLAG_PRIORITY_def
  FLAG_ACK_def flags_set_def flags_clear_def flags_is_end_stream_def flags_is_end_headers_def
  flags_is_padded_def flags_is_priority_def flags_is_ack_def

lemma frame_type_from_as_u8 [simp]: "frame_type_from_u8 (frame_type_as_u8 t) = Some t"
  by (cases t) (simp_all add: frame_type_from_u8_def)

lemma frame_type_from_u8_Some:
  "frame_type_from_u8 v = Some t \<Longrightarrow> frame_type_as_u8 t = v"
  by (auto simp: frame_type_from_u8_def split: if_splits)

lemma length_frame_header_encode [simp]: "length (frame_header_encode h) = 9"
  by (simp add: frame_header_encode_def)

lemma u24_of_to_be [be_simps]:
  assumes "unat w < 2 ^ 24"
  shows "u24_of_be (ucast (drop_bit 16 w)) (ucast (drop_bit 8 w)) (ucast w) = w"
proof (rule bit_word_eqI)
  fix n assume n: "n < LENGTH(32)"
  have "w = take_bit 24 w"
    using assms by (simp add: word_unat_eq_iff take_bit_eq_mod unat_mod_distrib)
  then have high: "24 \<le> n \<Longrightarrow> \<not> bit w n"
    by (metis bit_take_bit_iff leD)
  consider "n < 8" | "8 \<le> n" "n < 16" | "16 \<le> n" "n < 24" | "24 \<le> n" "n < 32"
    using n by fastforce
  then show "bit (u24_of_be (ucast (drop_bit 16 w)) (ucast (drop_bit 8 w)) (ucast w)) n = bit w n"
    by cases (auto simp: u24_of_be_def bit_simps high)
qed

lemma u24_of_be_less: "unat (u24_of_be a b c) < 2 ^ 24"
proof -
  have "take_bit 24 (u24_of_be a b c) = u24_of_be a b c"
  proof (rule bit_word_eqI)
    fix n assume "n < LENGTH(32)"
    show "bit (take_bit 24 (u24_of_be a b c)) n = bit (u24_of_be a b c) n"
      by (cases "n < 24")
        (auto simp: u24_of_be_def bit_simps dest: bit_imp_le_length)
  qed
  then have "unat (u24_of_be a b c) = take_bit 24 (unat (u24_of_be a b c))"
    by (metis unsigned_take_bit_eq)
  then show ?thesis by (metis take_bit_nat_less_exp)
qed

text \<open>A header whose length fits 24 bits and whose stream identifier fits 31 bits survives the wire.\<close>

lemma frame_header_parse_encode:
  assumes "unat (fh_length h) < 2 ^ 24" and "unat (fh_stream_id h) < 2 ^ 31"
  shows "frame_header_parse (frame_header_encode h) = Some h"
  using assms
  by (simp add: frame_header_encode_def u24_of_to_be u32_of_to_be mask31_id)

text \<open>The reserved bit is dropped: whatever is parsed has a 31-bit stream identifier.\<close>

lemma frame_header_parse_bounds:
  assumes "frame_header_parse bs = Some h"
  shows "unat (fh_length h) < 2 ^ 24" and "unat (fh_stream_id h) < 2 ^ 31"
proof -
  have "unat (fh_length h) < 2 ^ 24 \<and> unat (fh_stream_id h) < 2 ^ 31"
    using assms
    by (cases bs rule: frame_header_parse.cases)
      (auto simp only: frame_header_parse.simps H2FrameHeader.simps u24_of_be_less mask31_less
         option.inject option.distinct split: option.splits)
  then show "unat (fh_length h) < 2 ^ 24" and "unat (fh_stream_id h) < 2 ^ 31" by simp_all
qed

end
