(* ===== verification/H2_Policy.thy ===== *)
theory H2_Policy
  imports H2_Frame
begin

text \<open>
  The behaviour strategies of \<^verbatim>\<open>lkh2/src/policy.rs\<close>: how outbound frames are grouped into writes,
  when received data is acknowledged with WINDOW_UPDATE frames, and how each header is encoded.
  The two trait contracts that the rest of the engine relies on are the locales
  \<open>frame_write_policy\<close> and \<open>flow_control_policy\<close>, each interpreted on the implementations of the
  source.
\<close>

subsection \<open>Frame grouping\<close>

record ConfigurableWritePolicy =
  split_headers :: bool
  split_data :: bool

definition write_policy_new :: "bool \<Rightarrow> bool \<Rightarrow> ConfigurableWritePolicy" where
  "write_policy_new h d = \<lparr>split_headers = h, split_data = d\<rparr>"

definition write_policy_default :: ConfigurableWritePolicy where
  "write_policy_default = write_policy_new False False"

definition write_policy_chrome :: ConfigurableWritePolicy where
  "write_policy_chrome = write_policy_new True True"

definition write_policy_safari :: ConfigurableWritePolicy where
  "write_policy_safari = write_policy_new False True"

definition isolate :: "ConfigurableWritePolicy \<Rightarrow> H2Frame \<Rightarrow> bool" where
  "isolate p frame =
     (case frame of Headers _ \<Rightarrow> split_headers p | Data _ \<Rightarrow> split_data p | _ \<Rightarrow> False)"

fun group_loop ::
  "ConfigurableWritePolicy \<Rightarrow> H2Frame list \<Rightarrow> H2Frame list list \<Rightarrow> H2Frame list \<Rightarrow> H2Frame list list"
where
  "group_loop p [] groups current = (if current \<noteq> [] then groups @ [current] else groups)"
| "group_loop p (frame # frames) groups current =
     (if isolate p frame
      then group_loop p frames ((if current \<noteq> [] then groups @ [current] else groups) @ [[frame]]) []
      else group_loop p frames groups (current @ [frame]))"

definition group_frames :: "ConfigurableWritePolicy \<Rightarrow> H2Frame list \<Rightarrow> H2Frame list list" where
  "group_frames p frames =
     (if frames = [] then []
      else if \<not> split_headers p \<and> \<not> split_data p then [frames]
      else group_loop p frames [] [])"

subsection \<open>Single-precision arithmetic\<close>

text \<open>
  The few \<^verbatim>\<open>f32\<close> operations that the threshold needs. A finite float is \<open>m * 2 ^ e\<close> with a sign;
  \<open>round24\<close> rounds an exact value to 24 significant bits, ties to even. The products formed here lie
  between \<open>0\<close> and \<open>2 ^ 33\<close>, so the limits of the exponent range play no part.
\<close>

datatype f32 = NaN | Infinity bool | Finite bool nat int

fun bit_length :: "nat \<Rightarrow> nat" where
  "bit_length n = (if n = 0 then 0 else Suc (bit_length (n div 2)))"

declare bit_length.simps [simp del]

definition round_half_even :: "nat \<Rightarrow> nat \<Rightarrow> nat" where
  "round_half_even m s =
     (let q = m div 2 ^ s; r = 2 * (m mod 2 ^ s) in
      if r < 2 ^ s then q
      else if r > 2 ^ s then q + 1
      else if even q then q else q + 1)"

definition round24 :: "bool \<Rightarrow> nat \<Rightarrow> int \<Rightarrow> f32" where
  "round24 neg m e =
     (let s = bit_length m - 24 in
      if s = 0 then Finite neg m e else Finite neg (round_half_even m s) (e + int s))"

definition f32_of_u32 :: "u32 \<Rightarrow> f32" where
  "f32_of_u32 w = round24 False (unat w) 0"

text \<open>The literals \<^verbatim>\<open>0.1\<close>, \<^verbatim>\<open>0.5\<close> and \<^verbatim>\<open>1.0\<close>.\<close>

definition f32_0_1 :: f32 where
  "f32_0_1 = Finite False 13421773 (- 27)"

definition f32_0_5 :: f32 where
  "f32_0_5 = Finite False 1 (- 1)"

definition f32_1_0 :: f32 where
  "f32_1_0 = Finite False 1 0"

definition scaled :: "bool \<Rightarrow> nat \<Rightarrow> int \<Rightarrow> int \<Rightarrow> int" where
  "scaled neg m e base = (if neg then - int m else int m) * 2 ^ nat (e - base)"

fun f32_less :: "f32 \<Rightarrow> f32 \<Rightarrow> bool" where
  "f32_less NaN y = False"
| "f32_less x NaN = False"
| "f32_less (Infinity s) y = (s \<and> y \<noteq> Infinity True)"
| "f32_less x (Infinity s) = (\<not> s)"
| "f32_less (Finite s m e) (Finite t n f) = (scaled s m e (min e f) < scaled t n f (min e f))"

definition f32_clamp :: "f32 \<Rightarrow> f32 \<Rightarrow> f32 \<Rightarrow> f32" where
  "f32_clamp x lo hi =
     (let x1 = if f32_less x lo then lo else x in if f32_less hi x1 then hi else x1)"

fun f32_mul :: "f32 \<Rightarrow> f32 \<Rightarrow> f32" where
  "f32_mul NaN y = NaN"
| "f32_mul x NaN = NaN"
| "f32_mul (Infinity s) (Infinity t) = Infinity (s \<noteq> t)"
| "f32_mul (Infinity s) (Finite t n f) = (if n = 0 then NaN else Infinity (s \<noteq> t))"
| "f32_mul (Finite s m e) (Infinity t) = (if m = 0 then NaN else Infinity (s \<noteq> t))"
| "f32_mul (Finite s m e) (Finite t n f) = round24 (s \<noteq> t) (m * n) (e + f)"

text \<open>\<^verbatim>\<open>as u32\<close>: truncation, saturating, and zero for a value that is not a number.\<close>

fun f32_as_u32 :: "f32 \<Rightarrow> u32" where
  "f32_as_u32 NaN = 0"
| "f32_as_u32 (Infinity s) = (if s then 0 else 4294967295)"
| "f32_as_u32 (Finite s m e) =
     (if s then 0
      else word_of_nat (min 4294967295 (if 0 \<le> e then m * 2 ^ nat e else m div 2 ^ nat (- e))))"

subsection \<open>Flow control\<close>

text \<open>\<^verbatim>\<open>ImmediateFlowControl\<close> has no state: every DATA frame is given back at once.\<close>

definition immediate_on_data_received ::
  "unit \<Rightarrow> u32 \<Rightarrow> u32 \<Rightarrow> i32 \<Rightarrow> u32 \<Rightarrow> u32 option \<times> unit" where
  "immediate_on_data_received s stream_id data_len current_window initial_window =
     (if data_len > 0 then Some data_len else None, ())"

definition immediate_on_stream_closed :: "unit \<Rightarrow> u32 \<Rightarrow> unit" where
  "immediate_on_stream_closed s stream_id = ()"

record ThresholdFlowControl =
  threshold_ratio :: f32
  accumulated :: "(u32 \<times> u32) list"

definition threshold_new :: "f32 \<Rightarrow> ThresholdFlowControl" where
  "threshold_new ratio = \<lparr>threshold_ratio = f32_clamp ratio f32_0_1 f32_1_0, accumulated = []\<rparr>"

definition threshold_chrome :: ThresholdFlowControl where
  "threshold_chrome = threshold_new f32_0_5"

definition threshold_firefox :: ThresholdFlowControl where
  "threshold_firefox = threshold_new f32_0_5"

text \<open>The entry of a stream, zero when there is none.\<close>

definition acc_of :: "ThresholdFlowControl \<Rightarrow> u32 \<Rightarrow> u32" where
  "acc_of s stream_id = (case map_of (accumulated s) stream_id of None \<Rightarrow> 0 | Some a \<Rightarrow> a)"

definition threshold_for :: "f32 \<Rightarrow> u32 \<Rightarrow> u32" where
  "threshold_for ratio initial_window = f32_as_u32 (f32_mul (f32_of_u32 initial_window) ratio)"

definition threshold_on_data_received ::
  "ThresholdFlowControl \<Rightarrow> u32 \<Rightarrow> u32 \<Rightarrow> i32 \<Rightarrow> u32 \<Rightarrow> u32 option \<times> ThresholdFlowControl" where
  "threshold_on_data_received s stream_id data_len current_window initial_window =
     (if data_len = 0 then (None, s)
      else
        let acc = acc_of s stream_id + data_len;
            threshold = threshold_for (threshold_ratio s) initial_window
        in if acc \<ge> threshold
           then (Some acc, s\<lparr>accumulated := AList.update stream_id 0 (accumulated s)\<rparr>)
           else (None, s\<lparr>accumulated := AList.update stream_id acc (accumulated s)\<rparr>))"

definition threshold_on_stream_closed :: "ThresholdFlowControl \<Rightarrow> u32 \<Rightarrow> ThresholdFlowControl" where
  "threshold_on_stream_closed s stream_id =
     s\<lparr>accumulated := AList.delete stream_id (accumulated s)\<rparr>"

subsection \<open>Header encoding\<close>

datatype HpackFieldEncoding =
    Indexed
  | IncrementalIndexing (huffman_value: bool)
  | WithoutIndexing (huffman_value: bool)
  | NeverIndexed (huffman_value: bool)

text \<open>A policy is its \<^verbatim>\<open>encoding_for\<close>: name and value to encoding.\<close>

type_synonym hpack_policy = "bytes \<Rightarrow> bytes \<Rightarrow> HpackFieldEncoding"

definition starts_with_colon :: "bytes \<Rightarrow> bool" where
  "starts_with_colon name = (name \<noteq> [] \<and> hd name = 58)"

definition DefaultHpackPolicy :: hpack_policy where
  "DefaultHpackPolicy name val = Indexed"

definition ChromeHpackPolicy :: hpack_policy where
  "ChromeHpackPolicy name val =
     (if starts_with_colon name then Indexed else IncrementalIndexing True)"

definition FirefoxHpackPolicy :: hpack_policy where
  "FirefoxHpackPolicy name val =
     (if starts_with_colon name then Indexed else IncrementalIndexing True)"

definition SafariHpackPolicy :: hpack_policy where
  "SafariHpackPolicy name val =
     (if starts_with_colon name then Indexed
      else if length val \<le> 3 then IncrementalIndexing False
      else IncrementalIndexing True)"

subsection \<open>Behaviour bundles\<close>

text \<open>
  \<^verbatim>\<open>Box<dyn FlowControlPolicy>\<close> over the two implementations of the source, with the dispatch of its
  methods.
\<close>

datatype FlowControl = Immediate | Threshold ThresholdFlowControl

fun flow_on_data_received ::
  "FlowControl \<Rightarrow> u32 \<Rightarrow> u32 \<Rightarrow> i32 \<Rightarrow> u32 \<Rightarrow> u32 option \<times> FlowControl" where
  "flow_on_data_received Immediate stream_id data_len cur init =
     (fst (immediate_on_data_received () stream_id data_len cur init), Immediate)"
| "flow_on_data_received (Threshold t) stream_id data_len cur init =
     map_prod id Threshold (threshold_on_data_received t stream_id data_len cur init)"

fun flow_on_stream_closed :: "FlowControl \<Rightarrow> u32 \<Rightarrow> FlowControl" where
  "flow_on_stream_closed Immediate stream_id = Immediate"
| "flow_on_stream_closed (Threshold t) stream_id = Threshold (threshold_on_stream_closed t stream_id)"

fun flow_held :: "FlowControl \<Rightarrow> u32 \<Rightarrow> u32" where
  "flow_held Immediate k = 0"
| "flow_held (Threshold t) k = acc_of t k"

text \<open>
  The three boxed trait objects: their methods, and the state of the flow control object (the
  only one whose methods take \<^verbatim>\<open>&mut self\<close>).
\<close>

record 'f H2Behavior =
  bh_group_frames :: "H2Frame list \<Rightarrow> H2Frame list list"
  bh_on_data_received :: "'f \<Rightarrow> u32 \<Rightarrow> u32 \<Rightarrow> i32 \<Rightarrow> u32 \<Rightarrow> u32 option \<times> 'f"
  bh_on_stream_closed :: "'f \<Rightarrow> u32 \<Rightarrow> 'f"
  bh_flow_control :: 'f
  bh_hpack_policy :: hpack_policy

definition default_behavior :: "FlowControl H2Behavior" where
  "default_behavior =
     \<lparr>bh_group_frames = group_frames (write_policy_new False False),
      bh_on_data_received = flow_on_data_received,
      bh_on_stream_closed = flow_on_stream_closed,
      bh_flow_control = Immediate,
      bh_hpack_policy = DefaultHpackPolicy\<rparr>"

definition behavior_chrome :: "FlowControl H2Behavior" where
  "behavior_chrome =
     \<lparr>bh_group_frames = group_frames (write_policy_new True True),
      bh_on_data_received = flow_on_data_received,
      bh_on_stream_closed = flow_on_stream_closed,
      bh_flow_control = Threshold threshold_chrome,
      bh_hpack_policy = ChromeHpackPolicy\<rparr>"

definition behavior_firefox :: "FlowControl H2Behavior" where
  "behavior_firefox =
     \<lparr>bh_group_frames = group_frames (write_policy_new True True),
      bh_on_data_received = flow_on_data_received,
      bh_on_stream_closed = flow_on_stream_closed,
      bh_flow_control = Threshold threshold_firefox,
      bh_hpack_policy = FirefoxHpackPolicy\<rparr>"

definition behavior_safari :: "FlowControl H2Behavior" where
  "behavior_safari =
     \<lparr>bh_group_frames = group_frames (write_policy_new False True),
      bh_on_data_received = flow_on_data_received,
      bh_on_stream_closed = flow_on_stream_closed,
      bh_flow_control = Threshold (threshold_new f32_0_5),
      bh_hpack_policy = SafariHpackPolicy\<rparr>"

subsection \<open>The contract of a write policy\<close>

text \<open>
  What the writer relies on: grouping neither drops, duplicates nor reorders frames, and no group
  is empty (an empty group would be an empty write).
\<close>

locale frame_write_policy =
  fixes group :: "'p \<Rightarrow> H2Frame list \<Rightarrow> H2Frame list list"
  assumes group_concat: "concat (group p fs) = fs"
    and group_nonempty: "[] \<notin> set (group p fs)"
begin

lemma group_Nil: "group p [] = []"
proof (cases "group p []")
  case (Cons g gs)
  then show ?thesis using group_concat [of p "[]"] group_nonempty [of p "[]"] by simp
qed simp

text \<open>Anything computed frame by frame does not depend on the grouping.\<close>

lemma group_map: "concat (map (\<lambda>g. concat (map f g)) (group p fs)) = concat (map f fs)"
proof -
  have "concat (map (\<lambda>g. concat (map f g)) gs) = concat (map f (concat gs))" for gs
    by (induction gs) simp_all
  then show ?thesis by (simp add: group_concat)
qed

end

lemma group_loop_acc: "group_loop p fs gs cur = gs @ group_loop p fs [] cur"
proof (induction fs arbitrary: gs cur)
  case (Cons f fs)
  show ?case
    using Cons [of "(if cur \<noteq> [] then gs @ [cur] else gs) @ [[f]]" "[]"]
      Cons [of "(if cur \<noteq> [] then [cur] else []) @ [[f]]" "[]"] Cons [of gs "cur @ [f]"]
    by (cases "cur = []") simp_all
qed simp

lemma group_loop_step:
  "group_loop p (f # fs) [] cur =
     (if isolate p f then (if cur \<noteq> [] then [cur] else []) @ [f] # group_loop p fs [] []
      else group_loop p fs [] (cur @ [f]))"
  by (auto simp: group_loop_acc [of p fs "[[f]]"] group_loop_acc [of p fs "[cur, [f]]"])

lemma group_loop_concat: "concat (group_loop p fs [] cur) = cur @ fs"
  by (induction fs arbitrary: cur) (auto simp: group_loop_step simp del: group_loop.simps(2))

lemma group_loop_nonempty: "[] \<notin> set (group_loop p fs [] cur)"
  by (induction fs arbitrary: cur) (auto simp: group_loop_step simp del: group_loop.simps(2))

interpretation wp: frame_write_policy group_frames
proof
  fix p fs
  show "concat (group_frames p fs) = fs"
    by (simp add: group_frames_def group_loop_concat)
  show "[] \<notin> set (group_frames p fs)"
    by (simp add: group_frames_def group_loop_nonempty)
qed

text \<open>An isolated frame is alone in its group, and neighbouring groups are never both shared ones.\<close>

definition isolated_alone :: "ConfigurableWritePolicy \<Rightarrow> H2Frame list list \<Rightarrow> bool" where
  "isolated_alone p gs = list_all (\<lambda>g. list_ex (isolate p) g \<longrightarrow> length g = 1) gs"

fun maximal_groups :: "ConfigurableWritePolicy \<Rightarrow> H2Frame list list \<Rightarrow> bool" where
  "maximal_groups p (g # h # gs) =
     ((list_ex (isolate p) g \<or> list_ex (isolate p) h) \<and> maximal_groups p (h # gs))"
| "maximal_groups p gs = True"

lemma group_loop_alone:
  "\<not> list_ex (isolate p) cur \<Longrightarrow> isolated_alone p (group_loop p fs [] cur)"
  by (induction fs arbitrary: cur) (auto simp: isolated_alone_def group_loop_step simp del: group_loop.simps(2))

lemma maximal_Cons: "list_ex (isolate p) g \<Longrightarrow> maximal_groups p gs \<Longrightarrow> maximal_groups p (g # gs)"
  by (cases gs) simp_all

lemma maximal_append:
  "maximal_groups p gs \<Longrightarrow> list_ex (isolate p) g \<Longrightarrow> maximal_groups p (cur # g # gs)"
  by (simp add: maximal_Cons)

lemma group_loop_maximal:
  "\<not> list_ex (isolate p) cur \<Longrightarrow> maximal_groups p (group_loop p fs [] cur)"
  by (induction fs arbitrary: cur)
    (auto simp: group_loop_step maximal_Cons maximal_append simp del: group_loop.simps(2))

lemma no_isolation: "\<not> split_headers p \<Longrightarrow> \<not> split_data p \<Longrightarrow> \<not> isolate p f"
  by (cases f) (simp_all add: isolate_def)

lemma group_frames_alone: "isolated_alone p (group_frames p fs)"
  using no_isolation [of p]
  by (auto simp: group_frames_def group_loop_alone) (auto simp: isolated_alone_def list_ex_iff)

lemma group_frames_maximal: "maximal_groups p (group_frames p fs)"
  by (auto simp: group_frames_def group_loop_maximal)

subsection \<open>The contract of a flow control policy\<close>

text \<open>
  What the engine relies on: a policy may hold received bytes back, but it accounts for every one of
  them, stream by stream. \<open>held s k\<close> is what the policy owes for stream \<open>k\<close> (\<open>0\<close> for the
  connection). The equations are between \<^verbatim>\<open>u32\<close> values, as the counters are.
\<close>

definition increment_of :: "u32 option \<Rightarrow> u32" where
  "increment_of r = (case r of None \<Rightarrow> 0 | Some n \<Rightarrow> n)"

datatype fc_event = Received u32 u32 i32 u32 | StreamClosed u32

fun received_for :: "u32 \<Rightarrow> fc_event list \<Rightarrow> u32" where
  "received_for k [] = 0"
| "received_for k (Received sid len cur init # es) = (if sid = k then len else 0) + received_for k es"
| "received_for k (StreamClosed sid # es) = received_for k es"

fun closes :: "u32 \<Rightarrow> fc_event \<Rightarrow> bool" where
  "closes k (Received sid len cur init) = False"
| "closes k (StreamClosed sid) = (sid = k)"

text \<open>A run of a policy: the total of the increments given for stream \<open>k\<close>, and the last state.\<close>

fun fc_run ::
  "('s \<Rightarrow> u32 \<Rightarrow> u32 \<Rightarrow> i32 \<Rightarrow> u32 \<Rightarrow> u32 option \<times> 's) \<Rightarrow> ('s \<Rightarrow> u32 \<Rightarrow> 's) \<Rightarrow> u32 \<Rightarrow>
   's \<Rightarrow> fc_event list \<Rightarrow> u32 \<times> 's"
where
  "fc_run on_data closed k s [] = (0, s)"
| "fc_run on_data closed k s (Received sid len cur init # es) =
     (let (r, s1) = on_data s sid len cur init;
          (n, s2) = fc_run on_data closed k s1 es
      in ((if sid = k then increment_of r else 0) + n, s2))"
| "fc_run on_data closed k s (StreamClosed sid # es) = fc_run on_data closed k (closed s sid) es"

locale flow_control_policy =
  fixes on_data :: "'s \<Rightarrow> u32 \<Rightarrow> u32 \<Rightarrow> i32 \<Rightarrow> u32 \<Rightarrow> u32 option \<times> 's"
    and closed :: "'s \<Rightarrow> u32 \<Rightarrow> 's"
    and held :: "'s \<Rightarrow> u32 \<Rightarrow> u32"
  assumes on_data_balance:
      "on_data s sid len cur init = (r, s') \<Longrightarrow> increment_of r + held s' sid = held s sid + len"
    and on_data_other: "on_data s sid len cur init = (r, s') \<Longrightarrow> k \<noteq> sid \<Longrightarrow> held s' k = held s k"
    and closed_other: "k \<noteq> sid \<Longrightarrow> held (closed s sid) k = held s k"
begin

lemma run_balance:
  "\<not> list_ex (closes k) es \<Longrightarrow> fc_run on_data closed k s es = (n, s') \<Longrightarrow>
   n + held s' k = held s k + received_for k es"
proof (induction es arbitrary: s n)
  case (Cons e es)
  show ?case
  proof (cases e)
    case (Received sid len cur init)
    obtain r s1 where od: "on_data s sid len cur init = (r, s1)" by fastforce
    obtain m where run: "fc_run on_data closed k s1 es = (m, s')"
      and n: "n = (if sid = k then increment_of r else 0) + m"
      using Cons.prems(2) od by (auto simp: Received Let_def split: prod.splits)
    have m: "m + held s' k = held s1 k + received_for k es"
      using Cons.IH [OF _ run] Cons.prems(1) by simp
    show ?thesis
    proof (cases "sid = k")
      case True
      have "n + held s' k = increment_of r + (m + held s' k)" using n True by (simp add: ac_simps)
      also have "\<dots> = (increment_of r + held s1 k) + received_for k es" using m by (simp add: ac_simps)
      also have "\<dots> = (held s k + len) + received_for k es"
        using on_data_balance [OF od] True by simp
      finally show ?thesis using True Received by (simp add: ac_simps)
    next
      case False
      then show ?thesis using n m on_data_other [OF od, of k] Received by simp
    qed
  next
    case (StreamClosed sid)
    then show ?thesis using Cons.IH [of "closed s sid" n] Cons.prems closed_other [of k sid s] by auto
  qed
qed simp

end

lemma acc_of_update: "acc_of (s\<lparr>accumulated := AList.update k v (accumulated s)\<rparr>) j = (if j = k then v else acc_of s j)"
  by (simp add: acc_of_def update_conv')

lemma acc_of_delete: "acc_of (s\<lparr>accumulated := AList.delete k (accumulated s)\<rparr>) j = (if j = k then 0 else acc_of s j)"
  by (simp add: acc_of_def delete_conv')

interpretation imm: flow_control_policy immediate_on_data_received immediate_on_stream_closed "\<lambda>s k. 0"
  by unfold_locales (auto simp: immediate_on_data_received_def increment_of_def word_gt_0)

interpretation thr: flow_control_policy threshold_on_data_received threshold_on_stream_closed acc_of
  by unfold_locales
    (auto simp: threshold_on_data_received_def threshold_on_stream_closed_def increment_of_def
      acc_of_update acc_of_delete Let_def split: if_splits)

interpretation dyn: flow_control_policy flow_on_data_received flow_on_stream_closed flow_held
proof
  fix s s' sid len cur init k r
  assume od: "flow_on_data_received s sid len cur init = (r, s')"
  show "increment_of r + flow_held s' sid = flow_held s sid + len"
  proof (cases s)
    case Immediate
    then show ?thesis
      using od imm.on_data_balance [of "()" sid len cur init r "()"] by (auto simp: immediate_on_data_received_def)
  next
    case (Threshold t)
    obtain r1 t1 where t1: "threshold_on_data_received t sid len cur init = (r1, t1)" by fastforce
    then show ?thesis using od Threshold thr.on_data_balance [OF t1] by auto
  qed
  assume k: "k \<noteq> sid"
  show "flow_held s' k = flow_held s k"
  proof (cases s)
    case (Threshold t)
    obtain r1 t1 where t1: "threshold_on_data_received t sid len cur init = (r1, t1)" by fastforce
    then show ?thesis using od Threshold thr.on_data_other [OF t1 k] by auto
  qed (use od in auto)
next
  fix s :: FlowControl and k sid :: u32
  assume "k \<noteq> sid"
  then show "flow_held (flow_on_stream_closed s sid) k = flow_held s k"
    using thr.closed_other by (cases s) auto
qed

subsection \<open>The threshold never exceeds the window\<close>

lemma bit_length_bounds: "n < 2 ^ bit_length n \<and> (0 < n \<longrightarrow> 2 ^ (bit_length n - 1) \<le> n)"
proof (induction n rule: bit_length.induct)
  case (1 n)
  show ?case
  proof (cases "n = 0")
    case False
    let ?l = "bit_length (n div 2)"
    have l: "bit_length n = Suc ?l" using False by (subst bit_length.simps) simp
    have IH: "n div 2 < 2 ^ ?l" "0 < n div 2 \<Longrightarrow> 2 ^ (?l - 1) \<le> n div 2" using 1 False by auto
    have up: "n < 2 * 2 ^ ?l" using IH(1) by linarith
    have "2 ^ ?l \<le> n"
    proof (cases "n div 2 = 0")
      case True
      then show ?thesis using False by (simp add: bit_length.simps [of 0])
    next
      case nz: False
      then have "?l \<noteq> 0" using IH(1) by (intro notI) simp
      then have "(2::nat) ^ ?l = 2 * 2 ^ (?l - 1)" by (cases ?l) simp_all
      then show ?thesis using IH(2) nz by linarith
    qed
    then show ?thesis using up l by simp
  qed (simp add: bit_length.simps [of 0])
qed

lemma bit_length_le: "n < 2 ^ k \<Longrightarrow> bit_length n \<le> k"
proof (rule ccontr)
  assume n: "n < 2 ^ k" and "\<not> bit_length n \<le> k"
  then have "k \<le> bit_length n - 1" "0 < n" using bit_length.simps [of 0] by (auto intro: ccontr)
  then have "2 ^ k \<le> n" using bit_length_bounds [of n] by (meson le_trans one_le_numeral power_increasing)
  then show False using n by simp
qed

text \<open>Rounding to 24 bits gives a mantissa of at most \<open>2 ^ 24\<close> and at most doubles the value.\<close>

lemma round_half_even_bounds:
  assumes "24 < bit_length m"
  defines "s \<equiv> bit_length m - 24"
  shows "round_half_even m s \<le> 2 ^ 24" "round_half_even m s * 2 ^ s \<le> 2 * m"
proof -
  have m: "m < 2 ^ (24 + s)" "0 < m" "2 ^ (23 + s) \<le> m"
    using bit_length_bounds [of m] assms bit_length.simps [of 0] by (auto intro: ccontr)
  have r: "round_half_even m s \<le> m div 2 ^ s + 1"
    by (auto simp: round_half_even_def Let_def)
  have "m div 2 ^ s < 2 ^ 24" using m(1) by (simp add: less_mult_imp_div_less power_add mult.commute)
  then show "round_half_even m s \<le> 2 ^ 24" using r by simp
  have "round_half_even m s * 2 ^ s \<le> (m div 2 ^ s + 1) * 2 ^ s" using r by (rule mult_le_mono1)
  also have "\<dots> \<le> m + 2 ^ s" by (simp add: div_times_less_eq_dividend)
  also have "\<dots> \<le> 2 * m"
  proof -
    have "(2::nat) ^ s \<le> 2 ^ (23 + s)" by (rule power_increasing) simp_all
    then show ?thesis using m(3) by linarith
  qed
  finally show "round_half_even m s * 2 ^ s \<le> 2 * m" .
qed

lemma clamp_0_5: "f32_clamp f32_0_5 f32_0_1 f32_1_0 = f32_0_5"
  by (simp add: f32_clamp_def f32_0_1_def f32_0_5_def f32_1_0_def scaled_def)

lemma half_of_mantissa:
  assumes "m \<le> 2 ^ 24"
  shows "unat (f32_as_u32 (f32_mul (Finite False m (int s)) f32_0_5)) \<le> m * 2 ^ s div 2"
proof -
  have cut: "unat (word_of_nat (min 4294967295 n) :: u32) \<le> n" for n
    by (simp add: unat_of_nat min_def)
  have e: "0 < s \<Longrightarrow> m * 2 ^ s div 2 = m * 2 ^ (s - 1)"
    by (cases s) simp_all
  show ?thesis
  proof (cases "m < 2 ^ 24")
    case True
    then have "bit_length m \<le> 24" by (rule bit_length_le)
    then have "f32_mul (Finite False m (int s)) f32_0_5 = Finite False m (int s - 1)"
      by (simp add: f32_0_5_def round24_def)
    then show ?thesis using cut e by (cases "s = 0") (auto simp: nat_diff_distrib)
  next
    case False
    then have m: "m = 2 ^ 24" using assms by simp
    have "bit_length m = 25"
      by (simp add: m bit_length.simps)
    then have "f32_mul (Finite False m (int s)) f32_0_5 = Finite False (2 ^ 23) (int s)"
      by (simp add: f32_0_5_def round24_def round_half_even_def m)
    then show ?thesis using cut by (simp add: m)
  qed
qed

lemma threshold_half_le_window: "threshold_for f32_0_5 w \<le> w"
proof -
  have "unat (threshold_for f32_0_5 w) \<le> unat w"
  proof (cases "24 < bit_length (unat w)")
    case True
    let ?s = "bit_length (unat w) - 24"
    have f: "f32_of_u32 w = Finite False (round_half_even (unat w) ?s) (int ?s)"
      using True by (simp add: f32_of_u32_def round24_def)
    show ?thesis
      using half_of_mantissa [OF round_half_even_bounds(1) [OF True], of ?s] round_half_even_bounds(2) [OF True]
      unfolding threshold_for_def f by linarith
  next
    case False
    then have f: "f32_of_u32 w = Finite False (unat w) (int 0)"
      by (simp add: f32_of_u32_def round24_def)
    have "unat w \<le> 2 ^ 24"
      using bit_length_bounds [of "unat w"] False power_increasing [of "bit_length (unat w)" 24 "2::nat"] by simp
    then show ?thesis
      using half_of_mantissa [of "unat w" 0] unfolding threshold_for_def f by simp
  qed
  then show ?thesis by (simp add: word_le_nat_alt)
qed

text \<open>With the ratio of the presets, less than the window is held back when the window is the one the policy is told.\<close>

lemma threshold_keeps_below:
  assumes "threshold_ratio s = threshold_ratio threshold_chrome"
    and "acc_of s k < w"
    and "threshold_on_data_received s sid len cur w = (r, s')"
  shows "acc_of s' k < w \<and> threshold_ratio s' = threshold_ratio threshold_chrome"
proof -
  have "threshold_ratio s = f32_0_5"
    using assms(1) by (simp add: threshold_chrome_def threshold_new_def clamp_0_5)
  moreover have "0 < w" using assms(2) by (metis word_gt_0 not_less word_zero_le order_le_less)
  ultimately show ?thesis
    using assms threshold_half_le_window [of w]
    by (auto simp: threshold_on_data_received_def acc_of_update Let_def split: if_splits)
qed

subsection \<open>Properties\<close>

text \<open>
  C35. Grouping for the write policies is exact: the groups in order are the frames in order, no group is
  empty, a frame that the policy isolates is written alone, and two neighbouring groups are
  never both shared ones, so no write is split without need.
\<close>

theorem group_frames_exact:
  "concat (group_frames p fs) = fs \<and> [] \<notin> set (group_frames p fs) \<and>
   isolated_alone p (group_frames p fs) \<and> maximal_groups p (group_frames p fs)"
  using wp.group_concat wp.group_nonempty group_frames_alone group_frames_maximal by blast

text \<open>
  C32. The threshold policy loses no credit: over any sequence of received DATA frames and closed
  streams in which stream \<open>k\<close> is not closed, the increments it announces for \<open>k\<close> and what it still
  holds back add up to the bytes received on \<open>k\<close> (as \<^verbatim>\<open>u32\<close> values, that
  is modulo \<open>2 ^ 32\<close>).
\<close>

theorem threshold_conserves_credit:
  assumes "\<not> list_ex (closes k) es"
    and "fc_run threshold_on_data_received threshold_on_stream_closed k (threshold_new ratio) es = (n, s)"
  shows "n + acc_of s k = received_for k es"
  using thr.run_balance [OF assms] by (simp add: threshold_new_def acc_of_def)

theorem threshold_conserves_credit_witness:
  "(let es = [Received 0 40000 65535 65535, Received 1 20000 65535 65535, StreamClosed 3,
              Received 1 20000 45535 65535, Received 1 5 65535 65535];
        (n, s) = fc_run threshold_on_data_received threshold_on_stream_closed 1 threshold_chrome es
    in \<not> list_ex (closes 1) es \<and> n = 40000 \<and> acc_of s 1 = 5 \<and> n + acc_of s 1 = received_for 1 es)"
proof -
  let ?es = "[Received 0 40000 65535 65535, Received 1 20000 65535 65535, StreamClosed 3,
              Received 1 20000 45535 65535, Received 1 5 65535 65535]"
  have t: "threshold_for f32_0_5 65535 = 32767"
    by (simp add: threshold_for_def f32_of_u32_def f32_0_5_def round24_def bit_length.simps)
  obtain n s where run:
    "fc_run threshold_on_data_received threshold_on_stream_closed 1 (threshold_new f32_0_5) ?es = (n, s)"
    by fastforce
  have "n + acc_of s 1 = received_for 1 ?es"
    by (rule threshold_conserves_credit [OF _ run]) simp
  moreover have "n = 40000" "acc_of s 1 = 5"
    using run by (auto simp: threshold_new_def clamp_0_5 threshold_on_data_received_def
        threshold_on_stream_closed_def t acc_of_def increment_of_def Let_def)
  ultimately show ?thesis using run by (simp add: threshold_chrome_def)
qed

text \<open>
  The bound of the presets does not hold for every ratio that the constructor accepts: with ratio
  one and a window of 16777219 bytes the \<^verbatim>\<open>f32\<close> threshold is one byte above the window, so a
  sender that uses the whole window gets no update and can send nothing more.
\<close>

theorem threshold_can_exceed_window:
  "let s = threshold_new f32_1_0; w = 16777219 in
   threshold_for (threshold_ratio s) w = 16777220 \<and>
   fst (threshold_on_data_received s 1 w (uint w) w) = None"
proof -
  have c: "f32_clamp f32_1_0 f32_0_1 f32_1_0 = f32_1_0"
    by (simp add: f32_clamp_def f32_0_1_def f32_1_0_def scaled_def)
  have t: "threshold_for f32_1_0 16777219 = 16777220"
    by (simp add: threshold_for_def f32_of_u32_def f32_1_0_def round24_def round_half_even_def bit_length.simps)
  show ?thesis
    by (simp add: threshold_new_def c t threshold_on_data_received_def acc_of_def)
qed

end
