(* ===== verification/Hpack_Enc.thy ===== *)
theory Hpack_Enc
  imports Hpack_Table Hpack_Huffman H2_Policy
begin

text \<open>
  The HPACK encoder of \<^verbatim>\<open>lkh2/src/hpack_enc/mod.rs\<close>: integers, strings, the literal and indexed
  representations, table size updates and header blocks under an encoding policy. The
  specification is a decoder written from RFC 7541; the encoder is shown to stay in step with it
  over any sequence of blocks and table resizes.
\<close>

subsection \<open>Integers and strings\<close>

fun integer_tail :: "nat \<Rightarrow> bytes" where
  "integer_tail v =
     (if v \<ge> 128 then word_of_nat (v mod 128 + 128) # integer_tail (v div 128) else [word_of_nat v])"

declare integer_tail.simps [simp del]

definition encode_integer :: "nat \<Rightarrow> nat \<Rightarrow> u8 \<Rightarrow> bytes \<Rightarrow> bytes" where
  "encode_integer v prefix_bits leading buf =
     (let m = 2 ^ prefix_bits - 1;
          lead = leading AND NOT (word_of_nat m)
      in if v < m then buf @ [lead OR word_of_nat v]
         else buf @ (lead OR word_of_nat m) # integer_tail (v - m))"

definition encode_string :: "bytes \<Rightarrow> bool \<Rightarrow> bytes \<Rightarrow> bytes" where
  "encode_string src use_huffman buf =
     (if use_huffman \<and> encoded_len src \<le> length src
      then huffman_encode src (encode_integer (encoded_len src) 7 0x80 buf)
      else encode_integer (length src) 7 0x00 buf @ src)"

subsection \<open>Representations\<close>

definition encode_indexed :: "nat \<Rightarrow> bytes \<Rightarrow> bytes" where
  "encode_indexed index buf = encode_integer index 7 0x80 buf"

definition encode_literal_indexed_name :: "nat \<Rightarrow> bytes \<Rightarrow> bool \<Rightarrow> bytes \<Rightarrow> bytes" where
  "encode_literal_indexed_name name_index val huff buf =
     encode_string val huff (encode_integer name_index 6 0x40 buf)"

definition encode_literal_new_name :: "bytes \<Rightarrow> bytes \<Rightarrow> bool \<Rightarrow> bytes \<Rightarrow> bytes" where
  "encode_literal_new_name name val huff buf =
     encode_string val huff (encode_string name True (buf @ [0x40]))"

definition encode_literal_without_indexing_indexed_name ::
  "nat \<Rightarrow> bytes \<Rightarrow> bool \<Rightarrow> bytes \<Rightarrow> bytes" where
  "encode_literal_without_indexing_indexed_name name_index val huff buf =
     encode_string val huff (encode_integer name_index 4 0x00 buf)"

definition encode_literal_without_indexing_new_name ::
  "bytes \<Rightarrow> bytes \<Rightarrow> bool \<Rightarrow> bytes \<Rightarrow> bytes" where
  "encode_literal_without_indexing_new_name name val huff buf =
     encode_string val huff (encode_string name True (buf @ [0x00]))"

definition encode_literal_never_indexed_indexed_name ::
  "nat \<Rightarrow> bytes \<Rightarrow> bool \<Rightarrow> bytes \<Rightarrow> bytes" where
  "encode_literal_never_indexed_indexed_name name_index val huff buf =
     encode_string val huff (encode_integer name_index 4 0x10 buf)"

definition encode_literal_never_indexed_new_name ::
  "bytes \<Rightarrow> bytes \<Rightarrow> bool \<Rightarrow> bytes \<Rightarrow> bytes" where
  "encode_literal_never_indexed_new_name name val huff buf =
     encode_string val huff (encode_string name True (buf @ [0x10]))"

subsection \<open>The encoder\<close>

record Encoder =
  enc_dynamic :: DynamicTable
  enc_pending :: "nat option"

definition encoder_new :: "nat \<Rightarrow> Encoder" where
  "encoder_new max_table_size = \<lparr>enc_dynamic = table_new max_table_size, enc_pending = None\<rparr>"

definition encoder_with_default_size :: Encoder where
  "encoder_with_default_size = encoder_new 4096"

definition encoder_set_max_table_size :: "nat \<Rightarrow> Encoder \<Rightarrow> Encoder" where
  "encoder_set_max_table_size new_size e =
     e\<lparr>enc_dynamic := table_set_max_size new_size (enc_dynamic e), enc_pending := Some new_size\<rparr>"

definition emit_pending_table_size_update :: "Encoder \<Rightarrow> bytes \<Rightarrow> Encoder \<times> bytes" where
  "emit_pending_table_size_update e buf =
     (case enc_pending e of
        Some new_size \<Rightarrow> (e\<lparr>enc_pending := None\<rparr>, encode_integer new_size 5 0x20 buf)
      | None \<Rightarrow> (e, buf))"

text \<open>\<open>enc_insert\<close> is \<^verbatim>\<open>self.dynamic.insert(name.to_vec(), value.to_vec())\<close>.\<close>

definition enc_insert :: "bytes \<Rightarrow> bytes \<Rightarrow> Encoder \<Rightarrow> Encoder" where
  "enc_insert name val e = e\<lparr>enc_dynamic := table_insert name val (enc_dynamic e)\<rparr>"

definition encode_header ::
  "bytes \<Rightarrow> bytes \<Rightarrow> HpackFieldEncoding \<Rightarrow> Encoder \<times> bytes \<Rightarrow> Encoder \<times> bytes" where
  "encode_header name val encoding st =
     (let (e, buf) = st; table_match = find_header name val (enc_dynamic e) in
      case encoding of
        Indexed \<Rightarrow>
          (case table_match of
             Some (Full idx) \<Rightarrow> (e, encode_indexed idx buf)
           | Some (NameOnly idx) \<Rightarrow>
               (enc_insert name val e, encode_literal_indexed_name idx val True buf)
           | None \<Rightarrow> (enc_insert name val e, encode_literal_new_name name val True buf))
      | IncrementalIndexing huff \<Rightarrow>
          (case table_match of
             Some (Full idx) \<Rightarrow> (e, encode_indexed idx buf)
           | Some (NameOnly idx) \<Rightarrow>
               (enc_insert name val e, encode_literal_indexed_name idx val huff buf)
           | None \<Rightarrow> (enc_insert name val e, encode_literal_new_name name val huff buf))
      | WithoutIndexing huff \<Rightarrow>
          (case table_match of
             Some (Full idx) \<Rightarrow> (e, encode_literal_without_indexing_indexed_name idx val huff buf)
           | Some (NameOnly idx) \<Rightarrow> (e, encode_literal_without_indexing_indexed_name idx val huff buf)
           | None \<Rightarrow> (e, encode_literal_without_indexing_new_name name val huff buf))
      | NeverIndexed huff \<Rightarrow>
          (case table_match of
             Some (Full idx) \<Rightarrow> (e, encode_literal_never_indexed_indexed_name idx val huff buf)
           | Some (NameOnly idx) \<Rightarrow> (e, encode_literal_never_indexed_indexed_name idx val huff buf)
           | None \<Rightarrow> (e, encode_literal_never_indexed_new_name name val huff buf)))"

definition encode_header_default :: "bytes \<Rightarrow> bytes \<Rightarrow> Encoder \<times> bytes \<Rightarrow> Encoder \<times> bytes" where
  "encode_header_default name val st =
     encode_header name val (if starts_with_colon name then Indexed else IncrementalIndexing True) st"

definition encode_with_policy :: "(bytes \<times> bytes) list \<Rightarrow> hpack_policy \<Rightarrow> Encoder \<Rightarrow> Encoder \<times> bytes" where
  "encode_with_policy headers policy e =
     fold (\<lambda>(n, v). encode_header n v (policy n v)) headers (emit_pending_table_size_update e [])"

definition encode_owned :: "(bytes \<times> bytes) list \<Rightarrow> Encoder \<Rightarrow> Encoder \<times> bytes" where
  "encode_owned headers e =
     fold (\<lambda>(n, v). encode_header_default n v) headers (emit_pending_table_size_update e [])"

definition encode_pairs :: "(bytes \<times> bytes) list \<Rightarrow> Encoder \<Rightarrow> Encoder \<times> bytes" where
  "encode_pairs headers e =
     fold (\<lambda>(n, v). encode_header_default n v) headers (emit_pending_table_size_update e [])"

subsection \<open>Specification: the RFC 7541 decoder\<close>

fun rfc_int_tail :: "bytes \<Rightarrow> (nat \<times> bytes) option" where
  "rfc_int_tail [] = None"
| "rfc_int_tail (b # bl) =
     (if unat b < 128 then Some (unat b, bl)
      else map_option (\<lambda>(v, r). (unat b - 128 + 128 * v, r)) (rfc_int_tail bl))"

definition rfc_int :: "nat \<Rightarrow> bytes \<Rightarrow> (nat \<times> bytes) option" where
  "rfc_int p bl =
     (case bl of
        [] \<Rightarrow> None
      | b # bl' \<Rightarrow>
          let v = unat b mod 2 ^ p in
          if v < 2 ^ p - 1 then Some (v, bl')
          else map_option (\<lambda>(w, r). (v + w, r)) (rfc_int_tail bl'))"

definition rfc_string :: "bytes \<Rightarrow> (bytes \<times> bytes) option" where
  "rfc_string bl =
     (case rfc_int 7 bl of
        None \<Rightarrow> None
      | Some (n, r) \<Rightarrow>
          if length r < n then None
          else if bit (hd bl) 7
               then map_option (\<lambda>s. (s, drop n r)) (rfc_huffman_decode (byte_bits (take n r)))
               else Some (take n r, drop n r))"

text \<open>The decoder's table: its entries, newest first, and its current maximum.\<close>

type_synonym rfc_table = "entry list \<times> nat"

definition rfc_add :: "entry \<Rightarrow> rfc_table \<Rightarrow> rfc_table" where
  "rfc_add e t =
     (if esize e > snd t then [] else e # keep_fit (snd t - esize e) (fst t), snd t)"

definition rfc_resize :: "nat \<Rightarrow> rfc_table \<Rightarrow> rfc_table" where
  "rfc_resize n t = (keep_fit n (fst t), n)"

definition rfc_lookup :: "nat \<Rightarrow> rfc_table \<Rightarrow> entry option" where
  "rfc_lookup i t =
     (if 1 \<le> i \<and> i \<le> 61 + length (fst t) then Some ((STATIC_TABLE @ fst t) ! (i - 1)) else None)"

text \<open>A literal: the name by index (or, for index zero, as a string) and then the value.\<close>

definition rfc_literal :: "nat \<Rightarrow> rfc_table \<Rightarrow> bytes \<Rightarrow> (entry \<times> bytes) option" where
  "rfc_literal p t bl =
     (case rfc_int p bl of
        None \<Rightarrow> None
      | Some (i, r) \<Rightarrow>
          (case (if i = 0 then rfc_string r else map_option (\<lambda>e. (fst e, r)) (rfc_lookup i t)) of
             None \<Rightarrow> None
           | Some (n, r1) \<Rightarrow>
               (case rfc_string r1 of None \<Rightarrow> None | Some (v, r2) \<Rightarrow> Some ((n, v), r2))))"

datatype rfc_item = Field entry | Resized

text \<open>
  One representation. Table size updates are accepted up to the limit, before the first field. That an encoder also
  announces the smallest of several limits set between two blocks (section 4.2) is not checked.
\<close>

definition rfc_item :: "nat \<Rightarrow> bool \<Rightarrow> rfc_table \<Rightarrow> bytes \<Rightarrow> (rfc_item \<times> rfc_table \<times> bytes) option" where
  "rfc_item limit start t bl =
     (let b = hd bl in
      if bit b 7 then
        (case rfc_int 7 bl of
           None \<Rightarrow> None
         | Some (i, r) \<Rightarrow> map_option (\<lambda>e. (Field e, t, r)) (rfc_lookup i t))
      else if bit b 6 then map_option (\<lambda>(e, r). (Field e, rfc_add e t, r)) (rfc_literal 6 t bl)
      else if bit b 5 then
        (case rfc_int 5 bl of
           None \<Rightarrow> None
         | Some (n, r) \<Rightarrow> if start \<and> n \<le> limit then Some (Resized, rfc_resize n t, r) else None)
      else map_option (\<lambda>(e, r). (Field e, t, r)) (rfc_literal 4 t bl))"

fun rfc_block_fuel ::
  "nat \<Rightarrow> nat \<Rightarrow> bool \<Rightarrow> rfc_table \<Rightarrow> bytes \<Rightarrow> (entry list \<times> rfc_table) option" where
  "rfc_block_fuel k limit start t [] = Some ([], t)"
| "rfc_block_fuel 0 limit start t (b # bl) = None"
| "rfc_block_fuel (Suc k) limit start t (b # bl) =
     (case rfc_item limit start t (b # bl) of
        None \<Rightarrow> None
      | Some (Resized, t', r) \<Rightarrow> rfc_block_fuel k limit start t' r
      | Some (Field e, t', r) \<Rightarrow> map_option (\<lambda>(es, t''). (e # es, t'')) (rfc_block_fuel k limit False t' r))"

text \<open>Every representation takes at least one byte, so the length of the block is enough fuel.\<close>

definition rfc_decode :: "nat \<Rightarrow> rfc_table \<Rightarrow> bytes \<Rightarrow> (entry list \<times> rfc_table) option" where
  "rfc_decode limit t bl = rfc_block_fuel (length bl) limit True t bl"

subsection \<open>Integers and strings are read back\<close>

lemma encode_integer_buf: "encode_integer v p l buf = buf @ encode_integer v p l []"
  by (simp add: encode_integer_def Let_def)

lemma rfc_int_tail_append: "rfc_int_tail (integer_tail v @ r) = Some (v, r)"
proof (induction v rule: integer_tail.induct)
  case (1 v)
  show ?case
  proof (cases "v \<ge> 128")
    case True
    have "unat (word_of_nat (v mod 128 + 128) :: u8) = v mod 128 + 128"
      by (simp only: unat_of_nat) simp
    then show ?thesis
      using True 1 by (simp add: integer_tail.simps [of v])
  next
    case False
    then show ?thesis by (simp add: integer_tail.simps [of v] unat_of_nat)
  qed
qed

lemma lead_byte:
  fixes l :: u8
  assumes "n < 2 ^ p" "p \<le> 7"
  defines "b \<equiv> (l AND NOT (word_of_nat (2 ^ p - 1))) OR word_of_nat n"
  shows "unat b mod 2 ^ p = n" "p \<le> j \<Longrightarrow> bit b j = bit l j"
proof -
  have m: "(word_of_nat (2 ^ p - 1) :: u8) = mask p"
    by (simp add: of_nat_diff mask_eq_exp_minus_1)
  have small: "\<not> bit n k" if "p \<le> k" for k
  proof -
    have "(2::nat) ^ p \<le> 2 ^ k" using that by (rule power_increasing) simp
    then show ?thesis using assms(1) by (simp add: bit_iff_odd order_less_le_trans)
  qed
  have high: "\<not> bit (word_of_nat n :: u8) k" if "p \<le> k" for k
    using small [OF that] by (simp add: bit_of_nat_iff)
  have low: "k < p" if "bit (word_of_nat n :: u8) k" for k
    using that high [of k] by (meson not_le)
  show "p \<le> j \<Longrightarrow> bit b j = bit l j"
    unfolding b_def m
    by (auto simp: bit_or_iff bit_and_iff bit_not_iff bit_mask_iff high dest: bit_imp_le_length)
  have "take_bit p b = word_of_nat n"
    unfolding b_def m
    by (rule bit_word_eqI)
      (auto simp: bit_take_bit_iff bit_or_iff bit_and_iff bit_not_iff bit_mask_iff dest: low)
  moreover have "n < 256" using assms(1,2) power_increasing [of p 7 "2::nat"] by simp
  ultimately have "unat (take_bit p b) = n" by (simp add: unat_of_nat)
  then show "unat b mod 2 ^ p = n" by (simp only: unsigned_take_bit_eq take_bit_nat_def)
qed

lemma rfc_int_encode:
  assumes "1 \<le> p" "p \<le> 7"
  shows "rfc_int p (encode_integer v p l [] @ r) = Some (v, r)"
proof -
  have p: "2 ^ p - 1 < (2::nat) ^ p" by simp
  show ?thesis
    using lead_byte(1) [OF p assms(2), of l] lead_byte(1) [of v p l, OF _ assms(2)]
    by (auto simp: encode_integer_def Let_def rfc_int_def rfc_int_tail_append split: option.split)
qed

lemma hd_encode_integer:
  assumes "p \<le> j" "p \<le> 7"
  shows "bit (hd (encode_integer v p l [])) j = bit l j"
proof -
  have p: "2 ^ p - 1 < (2::nat) ^ p" by simp
  show ?thesis
    using lead_byte(2) [OF p assms(2,1), of l] lead_byte(2) [of v p j l, OF _ assms(2,1)]
    by (auto simp: encode_integer_def Let_def)
qed

lemma encode_integer_not_Nil [simp]: "encode_integer v p l buf \<noteq> []"
  by (simp add: encode_integer_def Let_def)

lemma flush_loop_buf:
  "flush_loop bits left (buf @ dst) = (case flush_loop bits left dst of (b, l, out) \<Rightarrow> (b, l, buf @ out))"
proof (induction bits left dst rule: flush_loop.induct)
  case (1 bits left dst)
  then show ?case
    by (subst (1 2) flush_loop.simps) simp
qed

lemma encode_loop_buf:
  "encode_loop src bits left (buf @ dst) = (case encode_loop src bits left dst of (b, l, out) \<Rightarrow> (b, l, buf @ out))"
  by (induction src arbitrary: bits left dst)
    (auto simp: Let_def flush_loop_buf split: prod.split)

lemma huffman_encode_buf: "huffman_encode src buf = buf @ huffman_encode src []"
  using encode_loop_buf [of src 0 40 buf "[]"]
  by (auto simp: huffman_encode_def Let_def split: prod.split)

lemma huffman_decode_encode: "rfc_huffman_decode (byte_bits (huffman_encode src [])) = Some src"
  using huffman_encode_bits [of src "[]"] rfc_huffman_decode_codes pad_len_less by auto

lemma encode_string_buf: "encode_string s h buf = buf @ encode_string s h []"
  by (simp add: encode_string_def encode_integer_buf [of _ _ _ buf] huffman_encode_buf [of s "buf @ _"]
      huffman_encode_buf [of s "encode_integer _ _ _ _"])

lemma rfc_string_encode: "rfc_string (encode_string s h [] @ r) = Some (s, r)"
proof (cases "h \<and> encoded_len s \<le> length s")
  case True
  let ?i = "encode_integer (encoded_len s) 7 0x80 []" and ?d = "huffman_encode s []"
  have "encode_string s h [] = ?i @ ?d"
    using True by (simp add: encode_string_def huffman_encode_buf [of s ?i])
  moreover have "rfc_int 7 (?i @ (?d @ r)) = Some (encoded_len s, ?d @ r)"
    by (rule rfc_int_encode) simp_all
  moreover have "bit (hd (?i @ (?d @ r))) 7"
    using hd_encode_integer [of 7 7 "encoded_len s" "0x80"] by (simp add: bit_numeral_word_iff)
  ultimately show ?thesis
    using length_huffman_encode [of s "[]"] huffman_decode_encode [of s] by (simp add: rfc_string_def)
next
  case False
  let ?i = "encode_integer (length s) 7 0x00 []"
  have "encode_string s h [] = ?i @ s"
    using False by (auto simp: encode_string_def)
  moreover have "rfc_int 7 (?i @ (s @ r)) = Some (length s, s @ r)"
    by (rule rfc_int_encode) simp_all
  moreover have "\<not> bit (hd (?i @ (s @ r))) 7"
    using hd_encode_integer [of 7 7 "length s" 0] by simp
  ultimately show ?thesis by (simp add: rfc_string_def)
qed

subsection \<open>Fields are read back\<close>

lemma rfc_literal_index:
  assumes "1 \<le> p" "p \<le> 7" and "rfc_lookup i t = Some e"
  shows "rfc_literal p t (encode_integer i p l [] @ encode_string v h [] @ r) = Some ((fst e, v), r)"
proof -
  have "i \<noteq> 0" using assms(3) by (auto simp: rfc_lookup_def split: if_splits)
  then show ?thesis
    using assms rfc_int_encode [OF assms(1,2)] by (simp add: rfc_literal_def rfc_string_encode)
qed

lemma rfc_literal_name:
  assumes "1 \<le> p" "p \<le> 7"
  shows "rfc_literal p t (encode_integer 0 p l [] @ encode_string n True [] @ encode_string v h [] @ r) = Some ((n, v), r)"
  using assms rfc_int_encode [OF assms(1,2)] by (simp add: rfc_literal_def rfc_string_encode)

lemma literal_bytes:
  "[0x40] = encode_integer 0 6 0x40 []" "[0x10] = encode_integer 0 4 0x10 []" "[0] = encode_integer 0 4 0 []"
  by (simp_all add: encode_integer_def Let_def)

text \<open>The bytes that one header adds to the block.\<close>

lemmas representation_defs =
  encode_indexed_def encode_literal_indexed_name_def encode_literal_new_name_def
  encode_literal_without_indexing_indexed_name_def encode_literal_without_indexing_new_name_def
  encode_literal_never_indexed_indexed_name_def encode_literal_never_indexed_new_name_def

text \<open>
  The decoder is in step with the encoder: same maximum, and the encoder's entries are the most
  recent ones of the decoder. (After a shrink and a growth that were announced as one update, the
  decoder may still have older entries that the encoder has dropped.)
\<close>

definition in_step :: "DynamicTable \<Rightarrow> rfc_table \<Rightarrow> bool" where
  "in_step d t \<longleftrightarrow> table_inv d \<and> prefix (dt_entries d) (fst t) \<and> dt_max_size d = snd t"

lemma in_step_lookup:
  assumes "in_step d t" "1 \<le> i" "i \<le> length (hpack_space d)"
  shows "rfc_lookup i t = Some (hpack_space d ! (i - 1))"
proof -
  obtain zs where "fst t = dt_entries d @ zs" using assms(1) by (auto simp: in_step_def prefix_def)
  then have "STATIC_TABLE @ fst t = hpack_space d @ zs" by (simp add: hpack_space_def)
  moreover have "i - 1 < length (hpack_space d)" using assms(2,3) by simp
  ultimately have "(STATIC_TABLE @ fst t) ! (i - 1) = hpack_space d ! (i - 1)"
    by (simp add: nth_append)
  then show ?thesis
    using assms(2,3) \<open>fst t = _\<close> by (simp add: rfc_lookup_def hpack_space_def)
qed

lemma in_step_insert:
  assumes "in_step d t"
  shows "in_step (table_insert n v d) (rfc_add (n, v) t)"
proof -
  have "table_inv d" using assms by (simp add: in_step_def)
  then show ?thesis
    using assms keep_fit_mono_prefix [of "dt_entries d" "fst t"] table_inv_insert [of d n v]
    by (auto simp: in_step_def table_insert_eq rfc_add_def esize_def Let_def)
qed

lemmas item_rules = rfc_item_def Let_def hd_encode_integer rfc_int_encode rfc_literal_index rfc_literal_name

lemma byte_bits_table:
  "bit (0x80 :: u8) 7" "\<not> bit (0x40 :: u8) 7" "bit (0x40 :: u8) 6" "\<not> bit (0x20 :: u8) 7" "\<not> bit (0x20 :: u8) 6"
  "bit (0x20 :: u8) 5" "\<not> bit (0x10 :: u8) 7" "\<not> bit (0x10 :: u8) 6" "\<not> bit (0x10 :: u8) 5"
  by (simp_all add: bit_numeral_word_iff)

definition reads_as :: "bytes \<Rightarrow> entry \<Rightarrow> rfc_table \<Rightarrow> rfc_table \<Rightarrow> bool" where
  "reads_as out e t t' \<longleftrightarrow>
     out \<noteq> [] \<and> (\<forall>limit start r. rfc_item limit start t (out @ r) = Some (Field e, t', r))"

lemma reads_indexed: "rfc_lookup i t = Some e \<Longrightarrow> reads_as (encode_integer i 7 0x80 []) e t t"
  by (simp add: reads_as_def item_rules byte_bits_table)

lemma reads_incremental:
  "rfc_lookup i t = Some e \<Longrightarrow>
   reads_as (encode_integer i 6 0x40 [] @ encode_string v h []) (fst e, v) t (rfc_add (fst e, v) t)"
  "reads_as (encode_integer 0 6 0x40 [] @ encode_string n True [] @ encode_string v h []) (n, v) t (rfc_add (n, v) t)"
  by (simp_all add: reads_as_def item_rules byte_bits_table)

lemma reads_plain:
  assumes "l = 0 \<or> l = 0x10"
  shows "rfc_lookup i t = Some e \<Longrightarrow>
           reads_as (encode_integer i 4 l [] @ encode_string v h []) (fst e, v) t t"
    and "reads_as (encode_integer 0 4 l [] @ encode_string n True [] @ encode_string v h []) (n, v) t t"
  using assms by (auto simp: reads_as_def item_rules byte_bits_table)

lemmas reads_rules = reads_indexed reads_incremental reads_plain

text \<open>A match of the search is an entry of the decoder's table, with the value for a full match.\<close>

lemma match_lookup:
  assumes "in_step (enc_dynamic e) t"
  shows "find_header n v (enc_dynamic e) = Some (Full i) \<Longrightarrow> rfc_lookup i t = Some (n, v)"
    "find_header n v (enc_dynamic e) = Some (Full i) \<or> find_header n v (enc_dynamic e) = Some (NameOnly i) \<Longrightarrow>
     \<exists>x. rfc_lookup i t = Some x \<and> fst x = n"
  using in_step_lookup [OF assms] find_header_Full find_header_NameOnly by fastforce+

lemma encode_indexing_reads:
  assumes st: "in_step (enc_dynamic e) t" and h: "enc = Indexed \<and> h = True \<or> enc = IncrementalIndexing h"
  shows "\<exists>out d' t'. encode_header n v enc (e, buf) = (e\<lparr>enc_dynamic := d'\<rparr>, buf @ out) \<and>
           reads_as out (n, v) t t' \<and> in_step d' t'"
proof (cases "find_header n v (enc_dynamic e)")
  case None
  then have "encode_header n v enc (e, buf) = (enc_insert n v e,
      buf @ (encode_integer 0 6 0x40 [] @ encode_string n True [] @ encode_string v h []))"
    using h by (auto simp: encode_header_def Let_def representation_defs encode_string_buf [of _ _ "_ @ _"]
        literal_bytes encode_integer_buf [of _ _ _ buf])
  then show ?thesis using reads_incremental(2) in_step_insert [OF st] unfolding enc_insert_def by blast
next
  case (Some m)
  show ?thesis
  proof (cases m)
    case (Full i)
    then have "encode_header n v enc (e, buf) = (e\<lparr>enc_dynamic := enc_dynamic e\<rparr>, buf @ encode_integer i 7 0x80 [])"
      using h Some by (auto simp: encode_header_def Let_def representation_defs encode_integer_buf [of _ _ _ buf])
    then show ?thesis using reads_indexed [OF match_lookup(1) [OF st]] Some Full st by blast
  next
    case (NameOnly i)
    then obtain x where x: "rfc_lookup i t = Some x" "fst x = n" using match_lookup(2) [OF st] Some by blast
    have "encode_header n v enc (e, buf) =
        (enc_insert n v e, buf @ (encode_integer i 6 0x40 [] @ encode_string v h []))"
      using h Some NameOnly by (auto simp: encode_header_def Let_def representation_defs
          encode_string_buf [of _ _ "encode_integer _ _ _ _"] encode_string_buf [of _ _ "buf @ _"] encode_integer_buf [of _ _ _ buf])
    then show ?thesis
      using reads_incremental(1) [OF x(1), of v h] x(2) in_step_insert [OF st] unfolding enc_insert_def by blast
  qed
qed

lemma encode_plain_reads:
  assumes st: "in_step (enc_dynamic e) t"
    and l: "l = (0 :: u8) \<and> enc = WithoutIndexing h \<or> l = 0x10 \<and> enc = NeverIndexed h"
  shows "\<exists>out t'. encode_header n v enc (e, buf) = (e, buf @ out) \<and> reads_as out (n, v) t t' \<and> in_step (enc_dynamic e) t'"
proof (cases "find_header n v (enc_dynamic e)")
  case None
  have l': "l = 0 \<or> l = 0x10" using l by blast
  have "encode_header n v enc (e, buf) = (e, buf @ (encode_integer 0 4 l [] @ encode_string n True [] @ encode_string v h []))"
    using l None by (auto simp: encode_header_def Let_def representation_defs encode_string_buf [of _ _ "_ @ _"]
        literal_bytes encode_integer_buf [of _ _ _ buf])
  then show ?thesis using reads_plain(2) [OF l'] st by blast
next
  case (Some m)
  have l': "l = 0 \<or> l = 0x10" using l by blast
  obtain i where i: "m = Full i \<or> m = NameOnly i" by (cases m) auto
  then obtain x where x: "rfc_lookup i t = Some x" "fst x = n" using match_lookup(2) [OF st] Some by blast
  have "encode_header n v enc (e, buf) = (e, buf @ (encode_integer i 4 l [] @ encode_string v h []))"
    using l Some i by (auto simp: encode_header_def Let_def representation_defs
        encode_string_buf [of _ _ "encode_integer _ _ _ _"] encode_string_buf [of _ _ "buf @ _"] encode_integer_buf [of _ _ _ buf])
  then show ?thesis using reads_plain(1) [OF l' x(1), of v h] x(2) st by blast
qed

lemma encode_header_reads:
  assumes st: "in_step (enc_dynamic e) t"
  shows "\<exists>out d' t'. encode_header n v enc (e, buf) = (e\<lparr>enc_dynamic := d'\<rparr>, buf @ out) \<and>
           reads_as out (n, v) t t' \<and> in_step d' t'"
proof (cases "enc = Indexed \<or> (\<exists>h. enc = IncrementalIndexing h)")
  case True
  then obtain h where "enc = Indexed \<and> h = True \<or> enc = IncrementalIndexing h" by blast
  then show ?thesis by (rule encode_indexing_reads [OF st])
next
  case False
  then obtain h and l :: u8 where "l = 0 \<and> enc = WithoutIndexing h \<or> l = 0x10 \<and> enc = NeverIndexed h"
    by (cases enc) auto
  then obtain out t' where "encode_header n v enc (e, buf) = (e\<lparr>enc_dynamic := enc_dynamic e\<rparr>, buf @ out)"
    "reads_as out (n, v) t t'" "in_step (enc_dynamic e) t'"
    using encode_plain_reads [OF st, of l enc h n v buf] by auto
  then show ?thesis by blast
qed

subsection \<open>Blocks and sessions\<close>

lemma rfc_block_field:
  assumes "reads_as out e t t'" "length (out @ r) \<le> k"
  shows "\<exists>k'. length r \<le> k' \<and> rfc_block_fuel k limit start t (out @ r) =
           map_option (\<lambda>(es, t''). (e # es, t'')) (rfc_block_fuel k' limit False t' r)"
proof -
  obtain b bl where out: "out = b # bl" using assms(1) by (cases out) (auto simp: reads_as_def)
  obtain k' where "k = Suc k'" using assms(2) out by (cases k) auto
  then show ?thesis using assms out unfolding reads_as_def by (intro exI [of _ k']) auto
qed

lemma fields_read:
  assumes "in_step (enc_dynamic e) t"
  shows "\<exists>out d' t'. fold (\<lambda>(n, v). encode_header n v (f n v)) hs (e, buf) = (e\<lparr>enc_dynamic := d'\<rparr>, buf @ out) \<and>
           in_step d' t' \<and>
           (\<forall>k limit start. length out \<le> k \<longrightarrow> rfc_block_fuel k limit start t out = Some (hs, t'))"
  using assms
proof (induction hs arbitrary: e t buf)
  case Nil
  then have "fold (\<lambda>(n, v). encode_header n v (f n v)) [] (e, buf) = (e\<lparr>enc_dynamic := enc_dynamic e\<rparr>, buf @ [])"
    by simp
  moreover have "rfc_block_fuel k limit start t [] = Some ([], t)" for k limit start
    by (cases k) simp_all
  ultimately show ?case using Nil by blast
next
  case (Cons hv hs)
  obtain n v where hv: "hv = (n, v)" by fastforce
  obtain out d' t' where o: "encode_header n v (f n v) (e, buf) = (e\<lparr>enc_dynamic := d'\<rparr>, buf @ out)"
    "reads_as out (n, v) t t'" "in_step d' t'"
    using encode_header_reads [OF Cons.prems] by blast
  have "in_step (enc_dynamic (e\<lparr>enc_dynamic := d'\<rparr>)) t'" using o(3) by simp
  from Cons.IH [OF this, of "buf @ out"] obtain out2 d2 t2 where
    o2: "fold (\<lambda>(n, v). encode_header n v (f n v)) hs (e\<lparr>enc_dynamic := d'\<rparr>, buf @ out) =
           (e\<lparr>enc_dynamic := d2\<rparr>, buf @ (out @ out2))" "in_step d2 t2"
      "\<And>k limit start. length out2 \<le> k \<Longrightarrow> rfc_block_fuel k limit start t' out2 = Some (hs, t2)"
    by auto
  have "rfc_block_fuel k limit start t (out @ out2) = Some (hv # hs, t2)"
    if "length (out @ out2) \<le> k" for k limit start
    using rfc_block_field [OF o(2) that, of limit start] o2(3) hv by auto
  moreover have "fold (\<lambda>(n, v). encode_header n v (f n v)) (hv # hs) (e, buf) =
      (e\<lparr>enc_dynamic := d2\<rparr>, buf @ (out @ out2))"
    using o(1) o2(1) hv by simp
  ultimately show ?case using o2(2) by blast
qed

text \<open>With a resize pending, the decoder falls in step when it reads the update.\<close>

definition sync :: "Encoder \<Rightarrow> rfc_table \<Rightarrow> nat \<Rightarrow> bool" where
  "sync e t limit \<longleftrightarrow>
     (case enc_pending e of
        None \<Rightarrow> in_step (enc_dynamic e) t
      | Some m \<Rightarrow> table_inv (enc_dynamic e) \<and> prefix (dt_entries (enc_dynamic e)) (fst t) \<and>
                  dt_max_size (enc_dynamic e) = m \<and> m \<le> limit)"

lemma sync_resize:
  assumes "sync e t limit"
  shows "sync (encoder_set_max_table_size m e) t m"
proof -
  have inv: "table_inv (enc_dynamic e)" and pre: "prefix (dt_entries (enc_dynamic e)) (fst t)"
    using assms by (auto simp: sync_def in_step_def split: option.splits)
  have "prefix (keep_fit m (dt_entries (enc_dynamic e))) (fst t)"
    using keep_fit_prefix pre by (rule prefix_order.trans)
  then show ?thesis
    using table_inv_set_max_size [OF inv, of m] dt_max_size_simps(2) [OF inv, of m]
    by (simp add: sync_def encoder_set_max_table_size_def) (simp add: table_set_max_size_eq [OF inv])
qed

lemma sync_update_read:
  assumes "sync e t limit" "enc_pending e = Some m"
  shows "in_step (enc_dynamic e) (rfc_resize m t)"
    and "rfc_item limit True t (encode_integer m 5 0x20 [] @ r) = Some (Resized, rfc_resize m t, r)"
proof -
  have inv: "table_inv (enc_dynamic e)" "prefix (dt_entries (enc_dynamic e)) (fst t)"
    "dt_max_size (enc_dynamic e) = m" "m \<le> limit"
    using assms by (auto simp: sync_def)
  then have "entries_total (dt_entries (enc_dynamic e)) \<le> m" by (auto simp: table_inv_def)
  then show "in_step (enc_dynamic e) (rfc_resize m t)"
    using inv keep_fit_longest by (simp add: in_step_def rfc_resize_def)
  show "rfc_item limit True t (encode_integer m 5 0x20 [] @ r) = Some (Resized, rfc_resize m t, r)"
    using inv(4) by (simp add: item_rules byte_bits_table)
qed

text \<open>One block, encoded under any policy.\<close>

lemma block_read:
  assumes s: "sync e t limit"
  shows "\<exists>e' out t'. fold (\<lambda>(n, v). encode_header n v (f n v)) hs (emit_pending_table_size_update e []) = (e', out) \<and>
           rfc_decode limit t out = Some (hs, t') \<and> sync e' t' limit"
proof (cases "enc_pending e")
  case None
  then have "in_step (enc_dynamic e) t" using s by (simp add: sync_def)
  from fields_read [OF this, of f hs "[]"] obtain out d' t' where
    "fold (\<lambda>(n, v). encode_header n v (f n v)) hs (e, []) = (e\<lparr>enc_dynamic := d'\<rparr>, out)" "in_step d' t'"
    "rfc_decode limit t out = Some (hs, t')"
    by (auto simp: rfc_decode_def)
  moreover have "sync (e\<lparr>enc_dynamic := d'\<rparr>) t' limit" using None calculation(2) by (simp add: sync_def)
  moreover have "emit_pending_table_size_update e [] = (e, [])"
    using None by (simp add: emit_pending_table_size_update_def)
  ultimately show ?thesis by (simp only:) blast
next
  case (Some m)
  let ?u = "encode_integer m 5 0x20 []" and ?e = "e\<lparr>enc_pending := None\<rparr>"
  have "in_step (enc_dynamic ?e) (rfc_resize m t)" using sync_update_read(1) [OF s Some] by simp
  from fields_read [OF this, of f hs ?u] obtain out d' t' where
    o: "fold (\<lambda>(n, v). encode_header n v (f n v)) hs (?e, ?u) = (?e\<lparr>enc_dynamic := d'\<rparr>, ?u @ out)" "in_step d' t'"
    "\<And>k. length out \<le> k \<Longrightarrow> rfc_block_fuel k limit True (rfc_resize m t) out = Some (hs, t')"
    by auto
  obtain b bl where u: "?u = b # bl" by (cases ?u) auto
  then have "rfc_decode limit t (?u @ out) = Some (hs, t')"
    using sync_update_read(2) [OF s Some, of out] o(3) by (simp add: rfc_decode_def)
  moreover have "sync (?e\<lparr>enc_dynamic := d'\<rparr>) t' limit" using o(2) by (simp add: sync_def)
  moreover have "emit_pending_table_size_update e [] = (?e, ?u)"
    using Some by (simp add: emit_pending_table_size_update_def)
  ultimately show ?thesis using o(1) by (simp only:) blast
qed

lemma encode_header_default_policy:
  "(\<lambda>(n, v). encode_header_default n v) = (\<lambda>(n, v). encode_header n v (ChromeHpackPolicy n v))"
  by (simp add: fun_eq_iff encode_header_default_def ChromeHpackPolicy_def)

lemma encode_owned_policy: "encode_owned hs e = encode_with_policy hs ChromeHpackPolicy e"
  by (simp add: encode_owned_def encode_with_policy_def encode_header_default_policy)

lemma encode_pairs_policy: "encode_pairs hs e = encode_with_policy hs ChromeHpackPolicy e"
  by (simp add: encode_pairs_def encode_with_policy_def encode_header_default_policy)

text \<open>What a user does with one encoder, and what the peer's decoder sees of it.\<close>

datatype hpack_op =
    SetMaxTableSize nat
  | EncodeWithPolicy hpack_policy "(bytes \<times> bytes) list"
  | EncodeOwned "(bytes \<times> bytes) list"
  | EncodePairs "(bytes \<times> bytes) list"

datatype peer_event = TableLimit nat | HeaderBlock bytes

fun encoder_step :: "Encoder \<Rightarrow> hpack_op \<Rightarrow> Encoder \<times> peer_event" where
  "encoder_step e (SetMaxTableSize m) = (encoder_set_max_table_size m e, TableLimit m)"
| "encoder_step e (EncodeWithPolicy p hs) = map_prod id HeaderBlock (encode_with_policy hs p e)"
| "encoder_step e (EncodeOwned hs) = map_prod id HeaderBlock (encode_owned hs e)"
| "encoder_step e (EncodePairs hs) = map_prod id HeaderBlock (encode_pairs hs e)"

fun encoder_session :: "Encoder \<Rightarrow> hpack_op list \<Rightarrow> peer_event list" where
  "encoder_session e [] = []"
| "encoder_session e (op # ops) = (let (e', ev) = encoder_step e op in ev # encoder_session e' ops)"

fun rfc_session :: "nat \<Rightarrow> rfc_table \<Rightarrow> peer_event list \<Rightarrow> entry list list option" where
  "rfc_session limit t [] = Some []"
| "rfc_session limit t (TableLimit m # evs) = rfc_session m t evs"
| "rfc_session limit t (HeaderBlock bl # evs) =
     (case rfc_decode limit t bl of
        None \<Rightarrow> None
      | Some (hs, t') \<Rightarrow> map_option (Cons hs) (rfc_session limit t' evs))"

fun session_headers :: "hpack_op list \<Rightarrow> entry list list" where
  "session_headers [] = []"
| "session_headers (SetMaxTableSize m # ops) = session_headers ops"
| "session_headers (EncodeWithPolicy p hs # ops) = hs # session_headers ops"
| "session_headers (EncodeOwned hs # ops) = hs # session_headers ops"
| "session_headers (EncodePairs hs # ops) = hs # session_headers ops"

lemma policy_block_read:
  assumes "sync e t limit"
  obtains e' out t' where "encode_with_policy hs p e = (e', out)" "rfc_decode limit t out = Some (hs, t')"
    "sync e' t' limit"
  using block_read [OF assms, of p hs] unfolding encode_with_policy_def by blast

lemma session_read:
  "sync e t limit \<Longrightarrow> rfc_session limit t (encoder_session e ops) = Some (session_headers ops)"
proof (induction ops arbitrary: e t limit)
  case (Cons op ops)
  have block: "rfc_session limit t (encoder_session e (EncodeWithPolicy p hs # ops)) =
      Some (hs # session_headers ops)" for p hs
  proof -
    obtain e' out t' where "encode_with_policy hs p e = (e', out)" "rfc_decode limit t out = Some (hs, t')"
      "sync e' t' limit"
      by (rule policy_block_read [OF Cons.prems])
    then show ?thesis using Cons.IH by simp
  qed
  show ?case
    using Cons.IH [OF sync_resize [OF Cons.prems]] block
    by (cases op) (simp_all add: encode_owned_policy encode_pairs_policy)
qed simp

subsection \<open>What enters the table\<close>

definition may_index :: "HpackFieldEncoding \<Rightarrow> bool" where
  "may_index enc = (case enc of WithoutIndexing _ \<Rightarrow> False | NeverIndexed _ \<Rightarrow> False | _ \<Rightarrow> True)"

lemma encode_header_inv:
  "table_inv (enc_dynamic e) \<Longrightarrow> table_inv (enc_dynamic (fst (encode_header n v enc (e, buf))))"
  by (auto simp: encode_header_def enc_insert_def Let_def split: HpackFieldEncoding.split option.split TableMatch.split)

lemma set_keep_fit: "set (keep_fit b es) \<subseteq> set es"
  using set_mono_prefix [OF keep_fit_prefix] .

lemma encode_header_entries:
  assumes "table_inv (enc_dynamic e)"
  shows "set (dt_entries (enc_dynamic (fst (encode_header n v enc (e, buf))))) \<subseteq>
           set (dt_entries (enc_dynamic e)) \<union> (if may_index enc then {(n, v)} else {})"
  using set_keep_fit
  by (auto simp: encode_header_def enc_insert_def may_index_def table_insert_eq [OF assms] Let_def
      split: HpackFieldEncoding.split option.split TableMatch.split)

lemma fold_encode_entries:
  assumes "table_inv (enc_dynamic e)"
  shows "set (dt_entries (enc_dynamic (fst (fold (\<lambda>(n, v). encode_header n v (p n v)) hs (e, buf))))) \<subseteq>
           set (dt_entries (enc_dynamic e)) \<union> {(n, v) \<in> set hs. may_index (p n v)}"
  using assms
proof (induction hs arbitrary: e buf)
  case (Cons hv hs)
  obtain n v where hv: "hv = (n, v)" by fastforce
  obtain e' buf' where e': "encode_header n v (p n v) (e, buf) = (e', buf')" by fastforce
  have "table_inv (enc_dynamic e')" using encode_header_inv [OF Cons.prems] e' by (metis fst_conv)
  from Cons.IH [OF this, of buf'] show ?case
    using encode_header_entries [OF Cons.prems, of n v "p n v" buf] e' hv by (auto split: if_splits)
qed simp

subsection \<open>Properties\<close>

text \<open>
  C2. The encoder refines RFC 7541. Start an encoder with some table size and use it in any way: blocks
  under any policies or with the defaults, of any headers, and resizes in between, any number
  of them between two blocks. A decoder written from the RFC, started with the same table
  size and given the same limits, reads back exactly the header lists, block by block. The decoder accepts
  every table size update up to its limit at the start of a block.
\<close>

theorem encoder_session_decodes:
  "rfc_session m ([], m) (encoder_session (encoder_new m) ops) = Some (session_headers ops)"
  by (rule session_read) (simp add: sync_def in_step_def encoder_new_def table_new_def table_inv_def)

text \<open>
  C31. A header that the policy marks as never indexed or without indexing does not enter the
  encoder's table: after a block the table holds only what it held before and headers of the block
  whose encoding permits indexing.
\<close>

theorem sensitive_headers_not_stored:
  assumes "table_inv (enc_dynamic e)"
  shows "set (dt_entries (enc_dynamic (fst (encode_with_policy hs p e)))) \<subseteq>
           set (dt_entries (enc_dynamic e)) \<union> {(n, v) \<in> set hs. may_index (p n v)}"
proof -
  obtain buf where "emit_pending_table_size_update e [] = (e\<lparr>enc_pending := None\<rparr>, buf)"
    by (cases e; cases "enc_pending e") (auto simp: emit_pending_table_size_update_def)
  then show ?thesis
    using fold_encode_entries [of "e\<lparr>enc_pending := None\<rparr>" p hs buf] assms
    by (simp add: encode_with_policy_def)
qed

theorem sensitive_headers_not_stored_witness:
  "(let p = (\<lambda>n v. if n = ascii ''cookie'' then NeverIndexed True else Indexed);
        hs = [(ascii ''cookie'', ascii ''s=1''), (ascii ''x-a'', ascii ''b'')]
    in (ascii ''cookie'', ascii ''s=1'') \<notin>
         set (dt_entries (enc_dynamic (fst (encode_with_policy hs p encoder_with_default_size)))))"
proof -
  let ?p = "\<lambda>n v. if n = ascii ''cookie'' then NeverIndexed True else Indexed"
  let ?hs = "[(ascii ''cookie'', ascii ''s=1''), (ascii ''x-a'', ascii ''b'')]"
  have inv: "table_inv (enc_dynamic encoder_with_default_size)"
    by (simp add: encoder_with_default_size_def encoder_new_def)
  have "dt_entries (enc_dynamic encoder_with_default_size) = []"
    by (simp add: encoder_with_default_size_def encoder_new_def table_new_def)
  then show ?thesis
    using sensitive_headers_not_stored [OF inv, of ?hs ?p] by (auto simp: may_index_def Let_def)
qed

end
