(* ===== verification/Hpack.thy ===== *)
theory Hpack
  imports Hpack_Enc
begin

text \<open>
  The header compression front end of \<^verbatim>\<open>lkh2/src/hpack.rs\<close>: the decoder wrapper with its conversion of
  raw bytes to strings, the encoder wrapper, and the pseudo-header helpers. The decoder itself
  is the \<^verbatim>\<open>fluke_hpack\<close> package: its three operations are a parameter of the definitions that use them.
\<close>

subsection \<open>Conversion to strings\<close>

text \<open>
  \<^verbatim>\<open>String::from_utf8\<close> and \<^verbatim>\<open>from_utf8_lossy\<close> of the standard library. \<open>utf8_next\<close> looks at the front of
  a byte string: whether a well-formed character stands there, and how many bytes to
  step over (for an ill-formed one, the maximal part that a character could start with).
\<close>

definition byte_at :: "bytes \<Rightarrow> nat \<Rightarrow> nat" where
  "byte_at bl i = (if i < length bl then unat (bl ! i) else 0)"

definition is_cont :: "nat \<Rightarrow> bool" where
  "is_cont c \<longleftrightarrow> 128 \<le> c \<and> c < 192"

definition second3 :: "nat \<Rightarrow> nat \<Rightarrow> bool" where
  "second3 b c \<longleftrightarrow>
     b = 0xE0 \<and> 0xA0 \<le> c \<and> c \<le> 0xBF \<or>
     0xE1 \<le> b \<and> b \<le> 0xEC \<and> 0x80 \<le> c \<and> c \<le> 0xBF \<or>
     b = 0xED \<and> 0x80 \<le> c \<and> c \<le> 0x9F \<or>
     0xEE \<le> b \<and> b \<le> 0xEF \<and> 0x80 \<le> c \<and> c \<le> 0xBF"

definition second4 :: "nat \<Rightarrow> nat \<Rightarrow> bool" where
  "second4 b c \<longleftrightarrow>
     b = 0xF0 \<and> 0x90 \<le> c \<and> c \<le> 0xBF \<or>
     0xF1 \<le> b \<and> b \<le> 0xF3 \<and> 0x80 \<le> c \<and> c \<le> 0xBF \<or>
     b = 0xF4 \<and> 0x80 \<le> c \<and> c \<le> 0x8F"

definition utf8_next :: "bytes \<Rightarrow> bool \<times> nat" where
  "utf8_next bl =
     (let b = byte_at bl 0; c1 = byte_at bl 1; c2 = byte_at bl 2; c3 = byte_at bl 3 in
      if b < 128 then (True, 1)
      else if 0xC2 \<le> b \<and> b \<le> 0xDF then (if is_cont c1 then (True, 2) else (False, 1))
      else if 0xE0 \<le> b \<and> b \<le> 0xEF then
        (if second3 b c1 then (if is_cont c2 then (True, 3) else (False, 2)) else (False, 1))
      else if 0xF0 \<le> b \<and> b \<le> 0xF4 then
        (if second4 b c1
         then (if is_cont c2 then (if is_cont c3 then (True, 4) else (False, 3)) else (False, 2))
         else (False, 1))
      else (False, 1))"

lemma utf8_next_pos: "1 \<le> snd (utf8_next bl)"
  by (auto simp: utf8_next_def Let_def)

lemma utf8_next_shorter: "bl \<noteq> [] \<Longrightarrow> (ok, n) = utf8_next bl \<Longrightarrow> length (drop n bl) < length bl"
  using utf8_next_pos [of bl] by (cases bl) (auto dest: sym)

function utf8_valid :: "bytes \<Rightarrow> bool" where
  "utf8_valid bl =
     (if bl = [] then True
      else let (ok, n) = utf8_next bl in if ok then utf8_valid (drop n bl) else False)"
  by pat_completeness auto
termination
  by (relation "measure length") (auto dest: utf8_next_shorter)

function utf8_lossy :: "bytes \<Rightarrow> bytes" where
  "utf8_lossy bl =
     (if bl = [] then []
      else let (ok, n) = utf8_next bl in
           (if ok then take n bl else [0xEF, 0xBF, 0xBD]) @ utf8_lossy (drop n bl))"
  by pat_completeness auto
termination
  by (relation "measure length") (auto dest: utf8_next_shorter)

declare utf8_valid.simps [simp del] utf8_lossy.simps [simp del]

definition vec_to_string_lossy :: "bytes \<Rightarrow> bytes" where
  "vec_to_string_lossy bl = (if utf8_valid bl then bl else utf8_lossy bl)"

subsection \<open>Decoder\<close>

datatype HpackError = DecodingError string | EncodingError string

fun hpack_error_display :: "HpackError \<Rightarrow> string" where
  "hpack_error_display (DecodingError msg) = ''HPACK decoding error: '' @ msg"
| "hpack_error_display (EncodingError msg) = ''HPACK encoding error: '' @ msg"

text \<open>The operations of the \<^verbatim>\<open>fluke_hpack\<close> decoder on its state; an error comes as its debug text.\<close>

record 'd hpack_ops =
  ho_new :: 'd
  ho_decode :: "'d \<Rightarrow> bytes \<Rightarrow> (string + (bytes \<times> bytes) list) \<times> 'd"
  ho_set_max_table_size :: "nat \<Rightarrow> 'd \<Rightarrow> 'd"

definition header_decoder_new :: "'d hpack_ops \<Rightarrow> nat \<Rightarrow> 'd" where
  "header_decoder_new ops table_size =
     (if table_size \<noteq> 4096 then ho_set_max_table_size ops table_size (ho_new ops) else ho_new ops)"

definition header_decoder_with_default_size :: "'d hpack_ops \<Rightarrow> 'd" where
  "header_decoder_with_default_size ops = header_decoder_new ops 4096"

definition header_decode ::
  "'d hpack_ops \<Rightarrow> bytes \<Rightarrow> 'd \<Rightarrow> (HpackError + (bytes \<times> bytes) list) \<times> 'd" where
  "header_decode ops data d =
     (case ho_decode ops d data of
        (Inr headers, d') \<Rightarrow>
          (Inr (map (\<lambda>(name, val). (vec_to_string_lossy name, vec_to_string_lossy val)) headers), d')
      | (Inl e, d') \<Rightarrow> (Inl (DecodingError e), d'))"

definition header_decoder_set_max_table_size :: "'d hpack_ops \<Rightarrow> nat \<Rightarrow> 'd \<Rightarrow> 'd" where
  "header_decoder_set_max_table_size ops n d = ho_set_max_table_size ops n d"

subsection \<open>Encoder\<close>

text \<open>\<^verbatim>\<open>HeaderEncoder\<close> wraps the encoder without adding state.\<close>

definition header_encoder_new :: "nat \<Rightarrow> Encoder" where
  "header_encoder_new table_size = encoder_new table_size"

definition header_encoder_with_default_size :: Encoder where
  "header_encoder_with_default_size = header_encoder_new 4096"

definition header_encode :: "(bytes \<times> bytes) list \<Rightarrow> Encoder \<Rightarrow> Encoder \<times> bytes" where
  "header_encode headers e = encode_pairs headers e"

definition header_encode_owned :: "(bytes \<times> bytes) list \<Rightarrow> Encoder \<Rightarrow> Encoder \<times> bytes" where
  "header_encode_owned headers e = encode_owned headers e"

definition header_encode_with_policy ::
  "(bytes \<times> bytes) list \<Rightarrow> hpack_policy \<Rightarrow> Encoder \<Rightarrow> Encoder \<times> bytes" where
  "header_encode_with_policy headers policy e = encode_with_policy headers policy e"

definition header_encoder_set_max_table_size :: "nat \<Rightarrow> Encoder \<Rightarrow> Encoder" where
  "header_encoder_set_max_table_size n e = encoder_set_max_table_size n e"

subsection \<open>Pseudo-headers\<close>

definition get_pseudo_header :: "(bytes \<times> bytes) list \<Rightarrow> bytes \<Rightarrow> bytes option" where
  "get_pseudo_header headers name = map_option snd (find (\<lambda>(n, v). n = name) headers)"

definition get_status :: "(bytes \<times> bytes) list \<Rightarrow> u16 option" where
  "get_status headers =
     (case get_pseudo_header headers (ascii '':status'') of
        None \<Rightarrow> None
      | Some s \<Rightarrow> map_option word_of_nat (parse_unsigned 65535 s))"

subsection \<open>The strings are well-formed\<close>

lemma byte_at_append: "i < length xs \<Longrightarrow> byte_at (xs @ ys) i = byte_at xs i"
  by (simp add: byte_at_def nth_append)

lemma byte_at_take: "i < n \<Longrightarrow> byte_at (take n xs) i = byte_at xs i"
  by (simp add: byte_at_def)

lemma byte_at_0: "byte_at xs i \<noteq> 0 \<Longrightarrow> i < length xs"
  by (auto simp: byte_at_def split: if_splits)

lemma utf8_next_ok:
  assumes "bl \<noteq> []" "utf8_next bl = (True, n)"
  shows "n \<le> length bl" "utf8_next (take n bl @ r) = (True, n)"
proof -
  have c: "is_cont c \<Longrightarrow> c \<noteq> 0" "second3 b c \<Longrightarrow> c \<noteq> 0" "second4 b c \<Longrightarrow> c \<noteq> 0" for b c
    by (auto simp: is_cont_def second3_def second4_def)
  have l: "byte_at bl 1 \<noteq> 0 \<Longrightarrow> 2 \<le> length bl" "byte_at bl 2 \<noteq> 0 \<Longrightarrow> 3 \<le> length bl"
    "byte_at bl 3 \<noteq> 0 \<Longrightarrow> 4 \<le> length bl"
    using byte_at_0 [of bl] by fastforce+
  show n: "n \<le> length bl"
    using assms l c by (auto simp: utf8_next_def Let_def Suc_le_eq split: if_splits)
  have "byte_at (take n bl @ r) i = byte_at bl i" if "i < n" for i
    using that n by (simp add: byte_at_append byte_at_take)
  then show "utf8_next (take n bl @ r) = (True, n)"
    using assms(2) by (auto simp: utf8_next_def Let_def split: if_splits)
qed

lemma utf8_valid_step: "bl \<noteq> [] \<Longrightarrow> utf8_next bl = (True, n) \<Longrightarrow> utf8_valid bl = utf8_valid (drop n bl)"
  by (simp add: utf8_valid.simps [of bl])

lemma utf8_lossy_valid: "utf8_valid (utf8_lossy bl)"
proof (induction bl rule: utf8_lossy.induct)
  case (1 bl)
  show ?case
  proof (cases "bl = []")
    case True
    then show ?thesis by (simp add: utf8_lossy.simps [of "[]"] utf8_valid.simps [of "[]"])
  next
    case False
    obtain ok n where nx: "utf8_next bl = (ok, n)" by fastforce
    have IH: "utf8_valid (utf8_lossy (drop n bl))" using 1 False nx by simp
    show ?thesis
    proof (cases ok)
      case True
      then have n: "n \<le> length bl" "utf8_next (take n bl @ utf8_lossy (drop n bl)) = (True, n)"
        using utf8_next_ok [OF False] nx by auto
      moreover have "1 \<le> n" using utf8_next_pos [of bl] nx by simp
      ultimately have "utf8_valid (take n bl @ utf8_lossy (drop n bl))"
        using utf8_valid_step [OF _ n(2)] IH False by auto
      then show ?thesis using False True nx by (simp add: utf8_lossy.simps [of bl])
    next
      case no: False
      let ?r = "utf8_lossy (drop n bl)"
      have "utf8_next ([0xEF, 0xBF, 0xBD] @ ?r) = (True, 3)"
        by (simp add: utf8_next_def byte_at_def Let_def second3_def is_cont_def)
      then have "utf8_valid ([0xEF, 0xBF, 0xBD] @ ?r)"
        using utf8_valid_step [of "[0xEF, 0xBF, 0xBD] @ ?r" 3] IH by simp
      then show ?thesis using False no nx by (simp add: utf8_lossy.simps [of bl])
    qed
  qed
qed

lemma utf8_lossy_id: "utf8_valid bl \<Longrightarrow> utf8_lossy bl = bl"
proof (induction bl rule: utf8_valid.induct)
  case (1 bl)
  obtain ok n where nx: "utf8_next bl = (ok, n)" by fastforce
  show ?case
  proof (cases "bl = []")
    case False
    then have "ok" "utf8_valid (drop n bl)"
      using "1.prems" nx by (simp_all add: utf8_valid.simps [of bl] split: if_splits)
    then show ?thesis
      using "1.IH" [OF False] nx False by (simp add: utf8_lossy.simps [of bl])
  qed (simp add: utf8_lossy.simps)
qed

lemma vec_to_string_lossy_conv: "vec_to_string_lossy bl = utf8_lossy bl" "utf8_valid (vec_to_string_lossy bl)"
  using utf8_lossy_valid utf8_lossy_id by (simp_all add: vec_to_string_lossy_def)

subsection \<open>Both ends together\<close>

text \<open>
  What is relied on of the decoder package: its state stands for a limit and a table of the RFC, setting the maximal size
  sets the limit and resizes the table at once, and a block that RFC 7541 accepts is decoded as the RFC says. Nothing
  is said about other blocks.
\<close>

definition decoder_conforms :: "'d hpack_ops \<Rightarrow> ('d \<Rightarrow> nat \<Rightarrow> rfc_table \<Rightarrow> bool) \<Rightarrow> bool" where
  "decoder_conforms ops R \<longleftrightarrow>
     R (ho_new ops) 4096 ([], 4096) \<and>
     (\<forall>d limit t m. R d limit t \<longrightarrow> R (ho_set_max_table_size ops m d) m (rfc_resize m t)) \<and>
     (\<forall>d limit t bl hs t'. R d limit t \<longrightarrow> rfc_decode limit t bl = Some (hs, t') \<longrightarrow>
        (\<exists>d'. ho_decode ops d bl = (Inr hs, d') \<and> R d' limit t'))"

text \<open>A header encoder and a header decoder connected to each other, with both ends resized together.\<close>

fun header_session ::
  "'d hpack_ops \<Rightarrow> hpack_op list \<Rightarrow> Encoder \<Rightarrow> 'd \<Rightarrow> (HpackError + (bytes \<times> bytes) list) list" where
  "header_session ops [] e d = []"
| "header_session ops (SetMaxTableSize m # xs) e d =
     header_session ops xs (header_encoder_set_max_table_size m e) (header_decoder_set_max_table_size ops m d)"
| "header_session ops (EncodeWithPolicy p hs # xs) e d =
     (let (e', bl) = header_encode_with_policy hs p e; (r, d') = header_decode ops bl d
      in r # header_session ops xs e' d')"
| "header_session ops (EncodeOwned hs # xs) e d =
     (let (e', bl) = header_encode_owned hs e; (r, d') = header_decode ops bl d
      in r # header_session ops xs e' d')"
| "header_session ops (EncodePairs hs # xs) e d =
     (let (e', bl) = header_encode hs e; (r, d') = header_decode ops bl d
      in r # header_session ops xs e' d')"

definition lossy_headers :: "(bytes \<times> bytes) list \<Rightarrow> (bytes \<times> bytes) list" where
  "lossy_headers hs = map (\<lambda>(n, v). (utf8_lossy n, utf8_lossy v)) hs"

lemma lossy_headers_id: "list_all (\<lambda>(n, v). utf8_valid n \<and> utf8_valid v) hs \<Longrightarrow> lossy_headers hs = hs"
  by (induction hs) (auto simp: lossy_headers_def utf8_lossy_id)

lemma sync_resize_both:
  assumes "sync e t limit"
  shows "sync (encoder_set_max_table_size m e) (rfc_resize m t) m"
proof -
  let ?d = "table_set_max_size m (enc_dynamic e)"
  have s: "sync (encoder_set_max_table_size m e) t m" using assms by (rule sync_resize)
  then have "in_step ?d (rfc_resize m t)"
    using sync_update_read(1) [OF s, of m] by (simp add: encoder_set_max_table_size_def)
  then show ?thesis by (simp add: sync_def in_step_def encoder_set_max_table_size_def rfc_resize_def)
qed

lemma header_decode_block:
  assumes "decoder_conforms ops R" "R d limit t" "sync e t limit"
  obtains e' bl d' t' where "header_encode_with_policy hs p e = (e', bl)"
    "header_decode ops bl d = (Inr (lossy_headers hs), d')" "R d' limit t'" "sync e' t' limit"
proof -
  obtain e' bl t' where b: "encode_with_policy hs p e = (e', bl)" "rfc_decode limit t bl = Some (hs, t')" "sync e' t' limit"
    using policy_block_read [OF assms(3)] .
  then obtain d' where "ho_decode ops d bl = (Inr hs, d')" "R d' limit t'"
    using assms(1,2) unfolding decoder_conforms_def by blast
  then show ?thesis
    using b that by (simp add: header_encode_with_policy_def header_decode_def lossy_headers_def vec_to_string_lossy_conv)
qed

lemma header_session_read:
  assumes "decoder_conforms ops R"
  shows "R d limit t \<Longrightarrow> sync e t limit \<Longrightarrow>
    header_session ops xs e d = map (Inr \<circ> lossy_headers) (session_headers xs)"
proof (induction xs arbitrary: d limit t e)
  case (Cons x xs)
  have block: "header_session ops (EncodeWithPolicy p hs # xs) e d =
      Inr (lossy_headers hs) # map (Inr \<circ> lossy_headers) (session_headers xs)" for p hs
  proof -
    obtain e' bl d' t' where "header_encode_with_policy hs p e = (e', bl)"
      "header_decode ops bl d = (Inr (lossy_headers hs), d')" "R d' limit t'" "sync e' t' limit"
      by (rule header_decode_block [OF assms Cons.prems])
    then show ?thesis using Cons.IH by simp
  qed
  have "R (ho_set_max_table_size ops m d) m (rfc_resize m t)" for m
    using assms Cons.prems(1) unfolding decoder_conforms_def by blast
  note resized = Cons.IH [OF this sync_resize_both [OF Cons.prems(2)]]
  show ?case
    using resized block
    by (cases x) (simp_all add: header_encode_with_policy_def header_encode_owned_def header_encode_def encode_owned_policy
        encode_pairs_policy header_encoder_set_max_table_size_def header_decoder_set_max_table_size_def)
qed simp

subsection \<open>Properties\<close>

text \<open>
  C36. Headers survive the front end. Connect a header encoder to a header decoder of the same table size whose decoder
  package conforms to RFC 7541, encode any header lists in any of the three ways, and resize both ends in between: no
  block fails, and the decoder returns exactly the header lists, block by block, when all names and values are
  well-formed UTF-8, as they are when they come from Rust strings. Bytes that are not are replaced as the standard
  library does, and what is returned is always well-formed.
\<close>

theorem header_codec_round_trip:
  fixes xs :: "hpack_op list" and m :: nat
  assumes "decoder_conforms ops R"
  defines "received \<equiv> header_session ops xs (header_encoder_new m) (header_decoder_new ops m)"
  shows "received = map (Inr \<circ> lossy_headers) (session_headers xs) \<and>
    (\<forall>hs. Inr hs \<in> set received \<longrightarrow> list_all (\<lambda>(n, v). utf8_valid n \<and> utf8_valid v) hs) \<and>
    (list_all (list_all (\<lambda>(n, v). utf8_valid n \<and> utf8_valid v)) (session_headers xs) \<longrightarrow>
       received = map Inr (session_headers xs))"
proof -
  have "R (ho_set_max_table_size ops m (ho_new ops)) m (rfc_resize m ([], 4096))" "R (ho_new ops) 4096 ([], 4096)"
    using assms(1) unfolding decoder_conforms_def by blast+
  then have "R (header_decoder_new ops m) m ([], m)" by (simp add: header_decoder_new_def rfc_resize_def)
  moreover have "sync (header_encoder_new m) ([], m) m"
    by (simp add: sync_def in_step_def header_encoder_new_def encoder_new_def table_new_def table_inv_def)
  ultimately have r: "received = map (Inr \<circ> lossy_headers) (session_headers xs)"
    unfolding received_def by (rule header_session_read [OF assms(1)])
  moreover have "list_all (\<lambda>(n, v). utf8_valid n \<and> utf8_valid v) (lossy_headers hs)" for hs
    by (auto simp: lossy_headers_def list_all_iff utf8_lossy_valid)
  ultimately show ?thesis by (auto simp: lossy_headers_id list_all_iff)
qed

text \<open>A decoder that conforms: the one of the RFC.\<close>

definition rfc_hpack :: "(nat \<times> rfc_table) hpack_ops" where
  "rfc_hpack =
     \<lparr>ho_new = (4096, ([], 4096)),
      ho_decode = (\<lambda>(limit, t) bl. case rfc_decode limit t bl of
         Some (hs, t') \<Rightarrow> (Inr hs, (limit, t')) | None \<Rightarrow> (Inl ''InvalidBlock'', (limit, t))),
      ho_set_max_table_size = (\<lambda>m (limit, t). (m, rfc_resize m t))\<rparr>"

lemma rfc_hpack_conforms: "decoder_conforms rfc_hpack (\<lambda>d limit t. d = (limit, t))"
  by (simp add: decoder_conforms_def rfc_hpack_def)

theorem header_codec_round_trip_witness:
  "decoder_conforms rfc_hpack (\<lambda>d limit t. d = (limit, t)) \<and>
   header_session rfc_hpack
     [EncodePairs [(ascii ''a'', ascii ''b'')], SetMaxTableSize 64, EncodeOwned [(ascii ''a'', ascii ''b''), (ascii ''c'', [0xE2, 0x62])]]
     (header_encoder_new 4096) (header_decoder_new rfc_hpack 4096) =
   [Inr [(ascii ''a'', ascii ''b'')], Inr [(ascii ''a'', ascii ''b''), (ascii ''c'', [0xEF, 0xBF, 0xBD, 0x62])]]"
proof -
  have "lossy_headers [(ascii ''a'', ascii ''b'')] = [(ascii ''a'', ascii ''b'')]"
    "lossy_headers [(ascii ''a'', ascii ''b''), (ascii ''c'', [0xE2, 0x62])] =
       [(ascii ''a'', ascii ''b''), (ascii ''c'', [0xEF, 0xBF, 0xBD, 0x62])]"
    by (simp_all add: lossy_headers_def ascii_def utf8_lossy.simps utf8_next_def byte_at_def second3_def is_cont_def Let_def)
  then show ?thesis
    using header_codec_round_trip [OF rfc_hpack_conforms, of "[EncodePairs [(ascii ''a'', ascii ''b'')], SetMaxTableSize 64,
        EncodeOwned [(ascii ''a'', ascii ''b''), (ascii ''c'', [0xE2, 0x62])]]" 4096] rfc_hpack_conforms
    by simp
qed

end
