(* ===== verification/Rust_Str.thy ===== *)
theory Rust_Str
  imports Prelude "HOL-Library.Sublist"
begin

text \<open>
  The string operations of Rust's standard library that the sources use, on the UTF-8 bytes of
  the strings: splitting at an ASCII separator, trimming of white space, prefixes, ASCII case.
\<close>

subsection \<open>Splitting\<close>

text \<open>\<^verbatim>\<open>s.split(c)\<close> for an ASCII character: always at least one part.\<close>

fun split_on :: "u8 \<Rightarrow> bytes \<Rightarrow> bytes list" where
  "split_on c [] = [[]]"
| "split_on c (b # bl) =
     (if b = c then [] # split_on c bl
      else (case split_on c bl of p # ps \<Rightarrow> (b # p) # ps | [] \<Rightarrow> [[b]]))"

text \<open>\<^verbatim>\<open>s.split_once(c)\<close>.\<close>

fun split_once :: "u8 \<Rightarrow> bytes \<Rightarrow> (bytes \<times> bytes) option" where
  "split_once c [] = None"
| "split_once c (b # bl) =
     (if b = c then Some ([], bl) else map_option (\<lambda>(p, q). (b # p, q)) (split_once c bl))"

definition strip_prefix :: "bytes \<Rightarrow> bytes \<Rightarrow> bytes option" where
  "strip_prefix p s = (if take (length p) s = p then Some (drop (length p) s) else None)"

definition starts_with :: "bytes \<Rightarrow> bytes \<Rightarrow> bool" where
  "starts_with s p \<longleftrightarrow> take (length p) s = p"

definition ends_with :: "bytes \<Rightarrow> bytes \<Rightarrow> bool" where
  "ends_with s p \<longleftrightarrow> length p \<le> length s \<and> drop (length s - length p) s = p"

subsection \<open>White space\<close>

text \<open>The UTF-8 encodings of the characters with the Unicode property \<^verbatim>\<open>White_Space\<close>.\<close>

definition white_space :: "bytes list" where
  "white_space =
     [[9], [10], [11], [12], [13], [32], [0xC2, 0x85], [0xC2, 0xA0], [0xE1, 0x9A, 0x80],
      [0xE2, 0x80, 0x80], [0xE2, 0x80, 0x81], [0xE2, 0x80, 0x82], [0xE2, 0x80, 0x83],
      [0xE2, 0x80, 0x84], [0xE2, 0x80, 0x85], [0xE2, 0x80, 0x86], [0xE2, 0x80, 0x87],
      [0xE2, 0x80, 0x88], [0xE2, 0x80, 0x89], [0xE2, 0x80, 0x8A], [0xE2, 0x80, 0xA8],
      [0xE2, 0x80, 0xA9], [0xE2, 0x80, 0xAF], [0xE2, 0x81, 0x9F], [0xE3, 0x80, 0x80]]"

function strip_any :: "bytes list \<Rightarrow> bytes \<Rightarrow> bytes" where
  "strip_any ws s =
     (case find (\<lambda>w. w \<noteq> [] \<and> starts_with s w) ws of
        None \<Rightarrow> s
      | Some w \<Rightarrow> strip_any ws (drop (length w) s))"
  by pat_completeness auto
termination
proof (relation "measure (\<lambda>(ws, s). length s)")
  fix ws s w
  assume "find (\<lambda>w. w \<noteq> [] \<and> starts_with s w) ws = Some w"
  then have "w \<noteq> []" "starts_with s w" by (auto simp: find_Some_iff)
  then show "((ws, drop (length w) s), (ws, s)) \<in> measure (\<lambda>(ws, s). length s)"
    by (cases s) (auto simp: starts_with_def)
qed simp

declare strip_any.simps [simp del]

definition trim_start :: "bytes \<Rightarrow> bytes" where
  "trim_start s = strip_any white_space s"

definition trim_end :: "bytes \<Rightarrow> bytes" where
  "trim_end s = rev (strip_any (map rev white_space) (rev s))"

definition trim :: "bytes \<Rightarrow> bytes" where
  "trim s = trim_end (trim_start s)"

subsection \<open>ASCII case\<close>

definition to_ascii_lowercase :: "u8 \<Rightarrow> u8" where
  "to_ascii_lowercase b = (if 65 \<le> unat b \<and> unat b \<le> 90 then b + 32 else b)"

definition eq_ignore_ascii_case :: "bytes \<Rightarrow> bytes \<Rightarrow> bool" where
  "eq_ignore_ascii_case s t \<longleftrightarrow> map to_ascii_lowercase s = map to_ascii_lowercase t"

subsection \<open>Facts\<close>

lemma split_on_not_Nil [simp]: "split_on c s \<noteq> []"
  by (induction s) (auto split: list.split)

lemma split_on_free: "c \<notin> set s \<Longrightarrow> split_on c s = [s]"
  by (induction s) auto

lemma split_on_append: "c \<notin> set s \<Longrightarrow> split_on c (s @ c # t) = s # split_on c t"
  by (induction s) auto

lemma strip_any_id: "\<not> list_ex (\<lambda>w. w \<noteq> [] \<and> starts_with s w) ws \<Longrightarrow> strip_any ws s = s"
proof -
  assume "\<not> list_ex (\<lambda>w. w \<noteq> [] \<and> starts_with s w) ws"
  then have "find (\<lambda>w. w \<noteq> [] \<and> starts_with s w) ws = None"
    by (auto simp: find_None_iff list_ex_iff)
  then show ?thesis by (subst strip_any.simps) simp
qed

lemma starts_with_Cons [simp]:
  "starts_with [] (w # ws) = False" "starts_with (b # s) (w # ws) = (b = w \<and> starts_with s ws)"
  "starts_with s [] = True"
  by (auto simp: starts_with_def)

text \<open>A string whose first and last byte are printable ASCII is left alone by \<^verbatim>\<open>trim\<close>.\<close>

lemma trim_start_id: "s \<noteq> [] \<Longrightarrow> 32 < hd s \<Longrightarrow> hd s < 127 \<Longrightarrow> trim_start s = s"
  unfolding trim_start_def
  by (rule strip_any_id) (cases s; auto simp: white_space_def word_less_nat_alt)

lemma trim_end_id:
  assumes "s \<noteq> []" "32 < last s" "last s < 127"
  shows "trim_end s = s"
proof -
  obtain r b where s: "rev s = b # r" using assms(1) by (cases "rev s") auto
  then have "last s = b" using assms(1) by (metis hd_rev list.sel(1))
  then have "strip_any (map rev white_space) (rev s) = rev s"
    using assms unfolding s by (intro strip_any_id) (auto simp: white_space_def word_less_nat_alt)
  then show ?thesis by (simp add: trim_end_def)
qed

lemma trim_id: "s \<noteq> [] \<Longrightarrow> 32 < hd s \<Longrightarrow> hd s < 127 \<Longrightarrow> 32 < last s \<Longrightarrow> last s < 127 \<Longrightarrow> trim s = s"
  by (simp add: trim_def trim_start_id trim_end_id)

lemma trim_start_space: "trim_start (32 # s) = trim_start s"
  unfolding trim_start_def by (subst strip_any.simps) (simp add: white_space_def)

subsection \<open>Numbers in text\<close>

lemma of_char_digit: "d < 10 \<Longrightarrow> (of_char (char_of (48 + d) :: char) :: u8) = word_of_nat (48 + d)"
proof -
  assume "d < 10"
  have "(of_char (char_of (48 + d) :: char) :: u8) = word_of_nat (of_char (char_of (48 + d) :: char))"
    by (rule of_nat_of_char [symmetric])
  also have "(of_char (char_of (48 + d) :: char) :: nat) = 48 + d"
    using \<open>d < 10\<close> by simp
  finally show ?thesis .
qed

lemma digit_byte: "d < 10 \<Longrightarrow> unat (word_of_nat (48 + d) :: u8) = 48 + d"
  by (simp only: unat_of_nat) simp

lemma ascii_append [simp]: "ascii (s @ t) = ascii s @ ascii t"
  by (simp add: ascii_def)

lemma parse_digits_show:
  "n \<le> m \<Longrightarrow> parse_digits m 0 (ascii (show_nat n) @ t) = parse_digits m n t"
proof (induction n arbitrary: t rule: show_nat.induct)
  case (1 n)
  show ?case
  proof (cases "n < 10")
    case True
    then show ?thesis
      using digit_byte [OF True] "1.prems"
      by (simp add: show_nat.simps [of n] ascii_def of_char_digit del: of_nat_add)
  next
    case False
    have d: "n mod 10 < 10" by simp
    have d9: "n mod 10 \<le> 9" using d by linarith
    have le: "n div 10 \<le> m" using "1.prems" by (meson div_le_dividend le_trans)
    have "parse_digits m 0 (ascii (show_nat n) @ t) =
        parse_digits m 0 (ascii (show_nat (n div 10)) @ word_of_nat (48 + n mod 10) # t)"
      using False by (simp add: show_nat.simps [of n] ascii_def of_char_digit [OF d] del: of_nat_add)
    also have "\<dots> = parse_digits m (n div 10) (word_of_nat (48 + n mod 10) # t)"
      by (rule "1.IH" [OF False le])
    also have "\<dots> = parse_digits m n t"
      using digit_byte [OF d] "1.prems" d9 by (simp del: of_nat_add)
    finally show ?thesis .
  qed
qed

lemma show_nat_digits: "b \<in> set (ascii (show_nat n)) \<Longrightarrow> 48 \<le> unat b \<and> unat b \<le> 57"
proof (induction n rule: show_nat.induct)
  case (1 n)
  show ?case
  proof (cases "n < 10")
    case True
    then show ?thesis using "1.prems" digit_byte [OF True]
      by (auto simp: show_nat.simps [of n] ascii_def of_char_digit simp del: of_nat_add)
  next
    case False
    have d: "n mod 10 < 10" by simp
    have "b \<in> set (ascii (show_nat (n div 10))) \<or> b = word_of_nat (48 + n mod 10)"
      using "1.prems" False
      by (auto simp: show_nat.simps [of n] ascii_def of_char_digit [OF d] simp del: of_nat_add)
    then show ?thesis using "1.IH" [OF False] digit_byte [OF d] by auto
  qed
qed

lemma show_nat_not_Nil [simp]: "ascii (show_nat n) \<noteq> []"
  by (simp add: show_nat.simps [of n] ascii_def)

lemma parse_unsigned_show: "n \<le> m \<Longrightarrow> parse_unsigned m (ascii (show_nat n)) = Some n"
proof -
  assume le: "n \<le> m"
  obtain b s where s: "ascii (show_nat n) = b # s" by (cases "ascii (show_nat n)") auto
  then have "b \<noteq> 43" using show_nat_digits [of b n] by auto
  then show ?thesis
    using parse_digits_show [OF le, of "[]"] s by (simp add: parse_unsigned_def)
qed

end
