(* ===== verification/H2_Codec.thy ===== *)
theory H2_Codec
  imports H2_Frame
begin

text \<open>
  The frame codec of \<^verbatim>\<open>lkh2/src/codec.rs\<close>. \<open>decode\<close> takes the input buffer and returns the result
  together with the buffer after the call (\<^verbatim>\<open>BytesMut::split_to\<close> removes what was consumed);
  the encoders return the output buffer with the frame appended. One definition per
  \<^verbatim>\<open>decode_*\<close> and \<^verbatim>\<open>encode_*\<close> function.

  The lemmas show the round trip of every frame kind, how much of the buffer each result
  consumes, that a result never depends on bytes behind the frame, and the rejections.
\<close>

subsection \<open>Errors and results\<close>

datatype CodecError =
    InvalidFormat string
  | TooLarge nat nat

fun codec_error_display :: "CodecError \<Rightarrow> string" where
  "codec_error_display (InvalidFormat msg) = ''invalid frame: '' @ msg"
| "codec_error_display (TooLarge sz mx) =
     ''frame too large: '' @ show_nat sz @ '' bytes (max '' @ show_nat mx @ '')''"

datatype DecodeResult =
    Frame H2Frame
  | NeedMoreData nat
  | DecodeFail CodecError

definition DEFAULT_MAX_FRAME_SIZE :: u32 where
  "DEFAULT_MAX_FRAME_SIZE = 16384"

definition MAX_FRAME_SIZE_LIMIT :: u32 where
  "MAX_FRAME_SIZE_LIMIT = 16777215"

record H2Codec =
  codec_max_frame_size :: u32

definition codec_new :: H2Codec where
  "codec_new = \<lparr>codec_max_frame_size = DEFAULT_MAX_FRAME_SIZE\<rparr>"

definition set_max_frame_size :: "u32 \<Rightarrow> H2Codec \<Rightarrow> H2Codec" where
  "set_max_frame_size sz c =
     c\<lparr>codec_max_frame_size := max DEFAULT_MAX_FRAME_SIZE (min sz MAX_FRAME_SIZE_LIMIT)\<rparr>"

subsection \<open>Decoding the payloads\<close>

definition decode_data :: "H2FrameHeader \<Rightarrow> bytes \<Rightarrow> CodecError + H2Frame" where
  "decode_data header payload =
     (if fh_stream_id header = 0 then Inl (InvalidFormat ''DATA frame with stream ID 0'')
      else if flags_is_padded (fh_flags header) then
        (if payload = [] then Inl (InvalidFormat ''missing pad length'')
         else let pad_len = unat (payload ! 0) in
           if pad_len \<ge> length payload then Inl (InvalidFormat ''padding too large'')
           else Inr (Data \<lparr>df_stream_id = fh_stream_id header,
                           df_data = drop 1 (take (length payload - pad_len) payload),
                           df_end_stream = flags_is_end_stream (fh_flags header),
                           df_padding = Some (payload ! 0)\<rparr>))
      else Inr (Data \<lparr>df_stream_id = fh_stream_id header, df_data = payload,
                      df_end_stream = flags_is_end_stream (fh_flags header),
                      df_padding = None\<rparr>))"

text \<open>The five bytes of a priority specification at an offset.\<close>

definition priority_at :: "bytes \<Rightarrow> nat \<Rightarrow> PrioritySpec" where
  "priority_at payload offset =
     (let dep = u32_of_be (payload ! offset) (payload ! (offset + 1))
                  (payload ! (offset + 2)) (payload ! (offset + 3))
      in \<lparr>ps_exclusive = (dep AND 0x80000000 \<noteq> 0),
          ps_stream_dependency = dep AND 0x7FFFFFFF,
          ps_weight = payload ! (offset + 4)\<rparr>)"

definition decode_headers :: "H2FrameHeader \<Rightarrow> bytes \<Rightarrow> CodecError + H2Frame" where
  "decode_headers header payload =
     (if fh_stream_id header = 0 then Inl (InvalidFormat ''HEADERS frame with stream ID 0'')
      else if flags_is_padded (fh_flags header) \<and> payload = []
      then Inl (InvalidFormat ''missing pad length'')
      else
        let padding = (if flags_is_padded (fh_flags header) then Some (payload ! 0) else None);
            offset = (if flags_is_padded (fh_flags header) then 1 else 0)
        in if flags_is_priority (fh_flags header) \<and> length payload < offset + 5
           then Inl (InvalidFormat ''HEADERS: missing priority data'')
           else
             let priority = (if flags_is_priority (fh_flags header)
                             then Some (priority_at payload offset) else None);
                 offset' = (if flags_is_priority (fh_flags header) then offset + 5 else offset);
                 pad_len = (case padding of None \<Rightarrow> 0 | Some p \<Rightarrow> unat p)
             in if offset' + pad_len > length payload
                then Inl (InvalidFormat ''invalid padding'')
                else Inr (Headers
                  \<lparr>hf_stream_id = fh_stream_id header,
                   hf_header_block = drop offset' (take (length payload - pad_len) payload),
                   hf_end_stream = flags_is_end_stream (fh_flags header),
                   hf_end_headers = flags_is_end_headers (fh_flags header),
                   hf_priority = priority, hf_padding = padding\<rparr>))"

definition decode_priority :: "H2FrameHeader \<Rightarrow> bytes \<Rightarrow> CodecError + H2Frame" where
  "decode_priority header payload =
     (if fh_stream_id header = 0 then Inl (InvalidFormat ''PRIORITY frame with stream ID 0'')
      else if length payload \<noteq> 5
      then Inl (InvalidFormat (''PRIORITY frame must be 5 bytes, got '' @ show_nat (length payload)))
      else Inr (Priority \<lparr>pf_stream_id = fh_stream_id header,
                          pf_priority = priority_at payload 0\<rparr>))"

definition decode_rst_stream :: "H2FrameHeader \<Rightarrow> bytes \<Rightarrow> CodecError + H2Frame" where
  "decode_rst_stream header payload =
     (if fh_stream_id header = 0 then Inl (InvalidFormat ''RST_STREAM frame with stream ID 0'')
      else if length payload \<noteq> 4
      then Inl (InvalidFormat (''RST_STREAM must be 4 bytes, got '' @ show_nat (length payload)))
      else Inr (RstStream \<lparr>rf_stream_id = fh_stream_id header,
             rf_error_code = u32_of_be (payload ! 0) (payload ! 1) (payload ! 2) (payload ! 3)\<rparr>))"

text \<open>
  The loop of \<^verbatim>\<open>decode_settings\<close> reads six bytes per round from \<open>offset\<close> on. It runs only when
  the length is a multiple of six, so every round has its six bytes.
\<close>

fun settings_loop :: "bytes \<Rightarrow> SettingsParameter list" where
  "settings_loop (a # b # c # d # e # f # rest) =
     \<lparr>sp_id = u16_of_be a b, sp_value = u32_of_be c d e f\<rparr> # settings_loop rest"
| "settings_loop _ = []"

definition decode_settings :: "H2FrameHeader \<Rightarrow> bytes \<Rightarrow> CodecError + H2Frame" where
  "decode_settings header payload =
     (if fh_stream_id header \<noteq> 0
      then Inl (InvalidFormat ''SETTINGS frame must have stream ID 0'')
      else let ack = flags_is_ack (fh_flags header) in
        if ack \<and> payload \<noteq> []
        then Inl (InvalidFormat ''SETTINGS ACK must have empty payload'')
        else if length payload mod 6 \<noteq> 0
        then Inl (InvalidFormat ''SETTINGS payload must be multiple of 6 bytes'')
        else Inr (Settings \<lparr>sf_ack = ack, sf_settings = settings_loop payload\<rparr>))"

definition decode_push_promise :: "H2FrameHeader \<Rightarrow> bytes \<Rightarrow> CodecError + H2Frame" where
  "decode_push_promise header payload =
     (if fh_stream_id header = 0
      then Inl (InvalidFormat ''PUSH_PROMISE frame with stream ID 0'')
      else if flags_is_padded (fh_flags header) \<and> payload = []
      then Inl (InvalidFormat ''missing pad length'')
      else
        let padding = (if flags_is_padded (fh_flags header) then Some (payload ! 0) else None);
            offset = (if flags_is_padded (fh_flags header) then 1 else 0)
        in if length payload < offset + 4
           then Inl (InvalidFormat ''PUSH_PROMISE: missing promised stream ID'')
           else
             let promised = u32_of_be (payload ! offset) (payload ! (offset + 1))
                              (payload ! (offset + 2)) (payload ! (offset + 3)) AND 0x7FFFFFFF;
                 offset' = offset + 4;
                 pad_len = (case padding of None \<Rightarrow> 0 | Some p \<Rightarrow> unat p)
             in if offset' + pad_len > length payload
                then Inl (InvalidFormat ''invalid padding'')
                else Inr (PushPromise
                  \<lparr>ppf_stream_id = fh_stream_id header, ppf_promised_stream_id = promised,
                   ppf_header_block = drop offset' (take (length payload - pad_len) payload),
                   ppf_end_headers = flags_is_end_headers (fh_flags header),
                   ppf_padding = padding\<rparr>))"

definition decode_ping :: "H2FrameHeader \<Rightarrow> bytes \<Rightarrow> CodecError + H2Frame" where
  "decode_ping header payload =
     (if fh_stream_id header \<noteq> 0 then Inl (InvalidFormat ''PING frame must have stream ID 0'')
      else if length payload \<noteq> 8
      then Inl (InvalidFormat (''PING must be 8 bytes, got '' @ show_nat (length payload)))
      else Inr (Ping \<lparr>pgf_ack = flags_is_ack (fh_flags header), pgf_data = take 8 payload\<rparr>))"

definition decode_goaway :: "H2FrameHeader \<Rightarrow> bytes \<Rightarrow> CodecError + H2Frame" where
  "decode_goaway header payload =
     (if fh_stream_id header \<noteq> 0 then Inl (InvalidFormat ''GOAWAY frame must have stream ID 0'')
      else if length payload < 8
      then Inl (InvalidFormat (''GOAWAY must be at least 8 bytes, got '' @ show_nat (length payload)))
      else Inr (GoAway
        \<lparr>gf_last_stream_id =
           u32_of_be (payload ! 0) (payload ! 1) (payload ! 2) (payload ! 3) AND 0x7FFFFFFF,
         gf_error_code = u32_of_be (payload ! 4) (payload ! 5) (payload ! 6) (payload ! 7),
         gf_debug_data = (if length payload > 8 then drop 8 payload else [])\<rparr>))"

definition decode_window_update :: "H2FrameHeader \<Rightarrow> bytes \<Rightarrow> CodecError + H2Frame" where
  "decode_window_update header payload =
     (if length payload \<noteq> 4
      then Inl (InvalidFormat (''WINDOW_UPDATE must be 4 bytes, got '' @ show_nat (length payload)))
      else Inr (WindowUpdate
        \<lparr>wf_stream_id = fh_stream_id header,
         wf_increment =
           u32_of_be (payload ! 0) (payload ! 1) (payload ! 2) (payload ! 3) AND 0x7FFFFFFF\<rparr>))"

definition decode_continuation :: "H2FrameHeader \<Rightarrow> bytes \<Rightarrow> CodecError + H2Frame" where
  "decode_continuation header payload =
     (if fh_stream_id header = 0
      then Inl (InvalidFormat ''CONTINUATION frame with stream ID 0'')
      else Inr (Continuation
        \<lparr>cf_stream_id = fh_stream_id header, cf_header_block = payload,
         cf_end_headers = flags_is_end_headers (fh_flags header)\<rparr>))"

text \<open>The dispatch on the frame type in the middle of \<^verbatim>\<open>H2Codec::decode\<close>.\<close>

definition decode_payload :: "H2FrameHeader \<Rightarrow> bytes \<Rightarrow> CodecError + H2Frame" where
  "decode_payload header payload =
     (case fh_frame_type header of
        FT_Data \<Rightarrow> decode_data header payload
      | FT_Headers \<Rightarrow> decode_headers header payload
      | FT_Priority \<Rightarrow> decode_priority header payload
      | FT_RstStream \<Rightarrow> decode_rst_stream header payload
      | FT_Settings \<Rightarrow> decode_settings header payload
      | FT_PushPromise \<Rightarrow> decode_push_promise header payload
      | FT_Ping \<Rightarrow> decode_ping header payload
      | FT_GoAway \<Rightarrow> decode_goaway header payload
      | FT_WindowUpdate \<Rightarrow> decode_window_update header payload
      | FT_Continuation \<Rightarrow> decode_continuation header payload)"

definition decode :: "H2Codec \<Rightarrow> bytes \<Rightarrow> DecodeResult \<times> bytes" where
  "decode c buf =
     (if length buf < FRAME_HEADER_SIZE
      then (NeedMoreData (FRAME_HEADER_SIZE - length buf), buf)
      else
        let raw_length = u24_of_be (buf ! 0) (buf ! 1) (buf ! 2);
            raw_type = buf ! 3;
            raw_flags = buf ! 4;
            raw_stream_id = u32_of_be (buf ! 5) (buf ! 6) (buf ! 7) (buf ! 8) AND 0x7FFFFFFF
        in case frame_header_parse (take 9 buf) of
             None \<Rightarrow>
               (let total_skip = FRAME_HEADER_SIZE + unat raw_length in
                if length buf < total_skip then (NeedMoreData (total_skip - length buf), buf)
                else (Frame (Unknown \<lparr>uf_frame_type = raw_type, uf_stream_id = raw_stream_id,
                                      uf_flags = raw_flags, uf_payload = []\<rparr>),
                      drop total_skip buf))
           | Some header \<Rightarrow>
               if fh_length header > codec_max_frame_size c
               then (DecodeFail (TooLarge (unat (fh_length header)) (unat (codec_max_frame_size c))),
                     buf)
               else
                 (let total_size = frame_header_total_size header in
                  if length buf < total_size then (NeedMoreData (total_size - length buf), buf)
                  else
                    let buf1 = drop FRAME_HEADER_SIZE buf;
                        payload = take (unat (fh_length header)) buf1;
                        buf2 = drop (unat (fh_length header)) buf1
                    in (case decode_payload header payload of
                          Inr f \<Rightarrow> (Frame f, buf2)
                        | Inl e \<Rightarrow> (DecodeFail e, buf2))))"

subsection \<open>Encoding\<close>

text \<open>\<^verbatim>\<open>buf.resize(buf.len() + n, 0)\<close> after an optional padding.\<close>

definition pad_prefix :: "u8 option \<Rightarrow> bytes" where
  "pad_prefix padding = (case padding of None \<Rightarrow> [] | Some p \<Rightarrow> [p])"

definition pad_suffix :: "u8 option \<Rightarrow> bytes" where
  "pad_suffix padding = (case padding of None \<Rightarrow> [] | Some p \<Rightarrow> replicate (unat p) 0)"

definition encode_data :: "DataFrame \<Rightarrow> bytes \<Rightarrow> bytes" where
  "encode_data f buf =
     (let flags0 = (if df_end_stream f then flags_set FLAG_END_STREAM FLAGS_NONE else FLAGS_NONE);
          flags = (case df_padding f of None \<Rightarrow> flags0 | Some _ \<Rightarrow> flags_set FLAG_PADDED flags0);
          payload_len = (case df_padding f of
             None \<Rightarrow> length (df_data f)
           | Some p \<Rightarrow> 1 + length (df_data f) + unat p);
          header = frame_header_new FT_Data flags (df_stream_id f) (word_of_nat payload_len)
      in buf @ frame_header_encode header @ pad_prefix (df_padding f) @ df_data f
           @ pad_suffix (df_padding f))"

definition priority_bytes :: "PrioritySpec \<Rightarrow> bytes" where
  "priority_bytes p =
     u32_to_be (if ps_exclusive p then ps_stream_dependency p OR 0x80000000
                else ps_stream_dependency p) @ [ps_weight p]"

definition encode_headers_frame :: "HeadersFrame \<Rightarrow> bytes \<Rightarrow> bytes" where
  "encode_headers_frame f buf =
     (let flags0 = (if hf_end_stream f then flags_set FLAG_END_STREAM FLAGS_NONE else FLAGS_NONE);
          flags1 = (if hf_end_headers f then flags_set FLAG_END_HEADERS flags0 else flags0);
          flags2 = (if hf_priority f \<noteq> None then flags_set FLAG_PRIORITY flags1 else flags1);
          priority_len = (if hf_priority f \<noteq> None then 5 else 0);
          flags = (case hf_padding f of None \<Rightarrow> flags2 | Some _ \<Rightarrow> flags_set FLAG_PADDED flags2);
          payload_len = (case hf_padding f of
             None \<Rightarrow> priority_len + length (hf_header_block f)
           | Some p \<Rightarrow> 1 + priority_len + length (hf_header_block f) + unat p);
          header = frame_header_new FT_Headers flags (hf_stream_id f) (word_of_nat payload_len)
      in buf @ frame_header_encode header @ pad_prefix (hf_padding f)
           @ (case hf_priority f of None \<Rightarrow> [] | Some p \<Rightarrow> priority_bytes p)
           @ hf_header_block f @ pad_suffix (hf_padding f))"

definition encode_priority :: "PriorityFrame \<Rightarrow> bytes \<Rightarrow> bytes" where
  "encode_priority f buf =
     buf @ frame_header_encode (frame_header_new FT_Priority FLAGS_NONE (pf_stream_id f) 5)
       @ priority_bytes (pf_priority f)"

definition encode_rst_stream :: "RstStreamFrame \<Rightarrow> bytes \<Rightarrow> bytes" where
  "encode_rst_stream f buf =
     buf @ frame_header_encode (frame_header_new FT_RstStream FLAGS_NONE (rf_stream_id f) 4)
       @ u32_to_be (rf_error_code f)"

definition setting_bytes :: "SettingsParameter \<Rightarrow> bytes" where
  "setting_bytes s = u16_to_be (sp_id s) @ u32_to_be (sp_value s)"

definition encode_settings :: "SettingsFrame \<Rightarrow> bytes \<Rightarrow> bytes" where
  "encode_settings f buf =
     (let flags = (if sf_ack f then FLAG_ACK else FLAGS_NONE);
          payload_len = (if sf_ack f then 0 else length (sf_settings f) * 6);
          header = frame_header_new FT_Settings flags 0 (word_of_nat payload_len)
      in buf @ frame_header_encode header
           @ (if sf_ack f then [] else concat (map setting_bytes (sf_settings f))))"

definition encode_ping :: "PingFrame \<Rightarrow> bytes \<Rightarrow> bytes" where
  "encode_ping f buf =
     buf @ frame_header_encode
             (frame_header_new FT_Ping (if pgf_ack f then FLAG_ACK else FLAGS_NONE) 0 8)
       @ pgf_data f"

definition encode_goaway :: "GoAwayFrame \<Rightarrow> bytes \<Rightarrow> bytes" where
  "encode_goaway f buf =
     buf @ frame_header_encode
             (frame_header_new FT_GoAway FLAGS_NONE 0 (word_of_nat (8 + length (gf_debug_data f))))
       @ u32_to_be (gf_last_stream_id f) @ u32_to_be (gf_error_code f) @ gf_debug_data f"

definition encode_window_update :: "WindowUpdateFrame \<Rightarrow> bytes \<Rightarrow> bytes" where
  "encode_window_update f buf =
     buf @ frame_header_encode (frame_header_new FT_WindowUpdate FLAGS_NONE (wf_stream_id f) 4)
       @ u32_to_be (wf_increment f)"

definition encode_continuation :: "ContinuationFrame \<Rightarrow> bytes \<Rightarrow> bytes" where
  "encode_continuation f buf =
     (let flags = (if cf_end_headers f then flags_set FLAG_END_HEADERS FLAGS_NONE else FLAGS_NONE)
      in buf @ frame_header_encode
             (frame_header_new FT_Continuation flags (cf_stream_id f) (len_u32 (cf_header_block f)))
           @ cf_header_block f)"

definition encode_push_promise :: "PushPromiseFrame \<Rightarrow> bytes \<Rightarrow> bytes" where
  "encode_push_promise f buf =
     (let flags0 = (if ppf_end_headers f then flags_set FLAG_END_HEADERS FLAGS_NONE
                    else FLAGS_NONE);
          flags = (case ppf_padding f of None \<Rightarrow> flags0 | Some _ \<Rightarrow> flags_set FLAG_PADDED flags0);
          payload_len = (case ppf_padding f of
             None \<Rightarrow> 4 + length (ppf_header_block f)
           | Some p \<Rightarrow> 1 + 4 + length (ppf_header_block f) + unat p);
          header = frame_header_new FT_PushPromise flags (ppf_stream_id f) (word_of_nat payload_len)
      in buf @ frame_header_encode header @ pad_prefix (ppf_padding f)
           @ u32_to_be (ppf_promised_stream_id f) @ ppf_header_block f
           @ pad_suffix (ppf_padding f))"

text \<open>An unknown frame builds its header literally, without the 31-bit mask of the constructor.\<close>

definition encode_unknown :: "UnknownFrame \<Rightarrow> bytes \<Rightarrow> bytes" where
  "encode_unknown f buf =
     buf @ frame_header_encode
       \<lparr>fh_length = len_u32 (uf_payload f),
        fh_frame_type =
          (case frame_type_from_u8 (uf_frame_type f) of None \<Rightarrow> FT_Data | Some t \<Rightarrow> t),
        fh_flags = uf_flags f, fh_stream_id = uf_stream_id f\<rparr>
       @ uf_payload f"

fun encode :: "H2Frame \<Rightarrow> bytes \<Rightarrow> bytes" where
  "encode (Data f) buf = encode_data f buf"
| "encode (Headers f) buf = encode_headers_frame f buf"
| "encode (Priority f) buf = encode_priority f buf"
| "encode (RstStream f) buf = encode_rst_stream f buf"
| "encode (Settings f) buf = encode_settings f buf"
| "encode (PushPromise f) buf = encode_push_promise f buf"
| "encode (Ping f) buf = encode_ping f buf"
| "encode (GoAway f) buf = encode_goaway f buf"
| "encode (WindowUpdate f) buf = encode_window_update f buf"
| "encode (Continuation f) buf = encode_continuation f buf"
| "encode (Unknown f) buf = encode_unknown f buf"


subsection \<open>Well-formed frames\<close>

text \<open>
  A codec that was built by \<open>codec_new\<close> and \<open>set_max_frame_size\<close>, and the frames that have a wire
  form: identifiers and increments fit 31 bits, identifiers are zero or not as the frame kind
  demands, a SETTINGS acknowledgement carries no parameters, a ping carries eight bytes.
\<close>

definition codec_ok :: "H2Codec \<Rightarrow> bool" where
  "codec_ok c \<longleftrightarrow> 16384 \<le> unat (codec_max_frame_size c) \<and> unat (codec_max_frame_size c) \<le> 16777215"

definition id31 :: "u32 \<Rightarrow> bool" where
  "id31 w \<longleftrightarrow> unat w < 2 ^ 31"

fun wf_frame :: "H2Frame \<Rightarrow> bool" where
  "wf_frame (Data f) = (df_stream_id f \<noteq> 0 \<and> id31 (df_stream_id f))"
| "wf_frame (Headers f) = (hf_stream_id f \<noteq> 0 \<and> id31 (hf_stream_id f) \<and>
     (case hf_priority f of None \<Rightarrow> True | Some p \<Rightarrow> id31 (ps_stream_dependency p)))"
| "wf_frame (Priority f) = (pf_stream_id f \<noteq> 0 \<and> id31 (pf_stream_id f) \<and>
     id31 (ps_stream_dependency (pf_priority f)))"
| "wf_frame (RstStream f) = (rf_stream_id f \<noteq> 0 \<and> id31 (rf_stream_id f))"
| "wf_frame (Settings f) = (sf_ack f \<longrightarrow> sf_settings f = [])"
| "wf_frame (PushPromise f) = (ppf_stream_id f \<noteq> 0 \<and> id31 (ppf_stream_id f) \<and>
     id31 (ppf_promised_stream_id f))"
| "wf_frame (Ping f) = (length (pgf_data f) = 8)"
| "wf_frame (GoAway f) = id31 (gf_last_stream_id f)"
| "wf_frame (WindowUpdate f) = (id31 (wf_stream_id f) \<and> id31 (wf_increment f))"
| "wf_frame (Continuation f) = (cf_stream_id f \<noteq> 0 \<and> id31 (cf_stream_id f))"
| "wf_frame (Unknown f) = False"

definition pad_size :: "u8 option \<Rightarrow> nat" where
  "pad_size padding = (case padding of None \<Rightarrow> 0 | Some p \<Rightarrow> 1 + unat p)"

text \<open>The payload length that the encoder writes into the header, before the cast to \<^verbatim>\<open>u32\<close>.\<close>

fun payload_size :: "H2Frame \<Rightarrow> nat" where
  "payload_size (Data f) = pad_size (df_padding f) + length (df_data f)"
| "payload_size (Headers f) =
     pad_size (hf_padding f) + (if hf_priority f = None then 0 else 5) + length (hf_header_block f)"
| "payload_size (Priority f) = 5"
| "payload_size (RstStream f) = 4"
| "payload_size (Settings f) = (if sf_ack f then 0 else 6 * length (sf_settings f))"
| "payload_size (PushPromise f) = pad_size (ppf_padding f) + 4 + length (ppf_header_block f)"
| "payload_size (Ping f) = 8"
| "payload_size (GoAway f) = 8 + length (gf_debug_data f)"
| "payload_size (WindowUpdate f) = 4"
| "payload_size (Continuation f) = length (cf_header_block f)"
| "payload_size (Unknown f) = length (uf_payload f)"

lemma codec_ok_new [simp]: "codec_ok codec_new"
  by (simp add: codec_ok_def codec_new_def DEFAULT_MAX_FRAME_SIZE_def)

lemma codec_ok_set [simp]: "codec_ok (set_max_frame_size sz c)"
  by (auto simp: codec_ok_def set_max_frame_size_def DEFAULT_MAX_FRAME_SIZE_def
      MAX_FRAME_SIZE_LIMIT_def max_def min_def word_le_nat_alt not_le)

subsection \<open>What one call of the decoder does\<close>

lemma length_9_take_drop:
  "length hb = 9 \<Longrightarrow> take 9 (hb @ rest) = hb" "length hb = 9 \<Longrightarrow> drop 9 (hb @ rest) = rest"
  by simp_all

lemma drop_9_add: "drop (9 + n) (a # b # c # d # e # f # g # h # i # rest) = drop n rest"
  by (simp add: eval_nat_numeral)

lemma decode_short: "length buf < 9 \<Longrightarrow> decode c buf = (NeedMoreData (9 - length buf), buf)"
  by (simp add: decode_def FRAME_HEADER_SIZE_def)

lemma decode_known:
  assumes "length hb = 9" and "frame_header_parse hb = Some h"
  shows "decode c (hb @ rest) =
    (if fh_length h > codec_max_frame_size c
     then (DecodeFail (TooLarge (unat (fh_length h)) (unat (codec_max_frame_size c))), hb @ rest)
     else if length rest < unat (fh_length h)
     then (NeedMoreData (unat (fh_length h) - length rest), hb @ rest)
     else (case decode_payload h (take (unat (fh_length h)) rest) of
             Inr f \<Rightarrow> Frame f | Inl e \<Rightarrow> DecodeFail e, drop (unat (fh_length h)) rest))"
  using assms
  by (auto simp: decode_def FRAME_HEADER_SIZE_def frame_header_total_size_def Let_def
      split: sum.splits)

lemma decode_unknown:
  assumes "hb = [a, b, c0, d, e, f, g, h, i]" and "frame_type_from_u8 d = None"
  shows "decode c (hb @ rest) =
    (let n = unat (u24_of_be a b c0) in
     if length rest < n then (NeedMoreData (n - length rest), hb @ rest)
     else (Frame (Unknown \<lparr>uf_frame_type = d, uf_stream_id = u32_of_be f g h i AND 0x7FFFFFFF,
                           uf_flags = e, uf_payload = []\<rparr>), drop n rest))"
  using assms by (simp add: decode_def FRAME_HEADER_SIZE_def Let_def drop_9_add)

text \<open>Case analysis for the decoder: short buffer, known type, unknown type.\<close>

lemma decode_cases [consumes 0, case_names short known unknown]:
  obtains "length buf < 9"
  | hb rest h where "buf = hb @ rest" "length hb = 9" "frame_header_parse hb = Some h"
  | a b c0 d e f g h i rest where "buf = [a, b, c0, d, e, f, g, h, i] @ rest"
      "frame_type_from_u8 d = None"
proof (cases "length buf < 9")
  case True
  then show ?thesis by (rule that(1))
next
  case False
  then obtain a b c d e f g h i rest where buf: "buf = [a, b, c, d, e, f, g, h, i] @ rest"
    by (meson length_9_conv not_le)
  show ?thesis
  proof (cases "frame_type_from_u8 d")
    case None
    with buf show ?thesis by (rule that(3))
  next
    case (Some t)
    then have "\<exists>hd. frame_header_parse [a, b, c, d, e, f, g, h, i] = Some hd" by simp
    then show ?thesis using that(2) [OF buf] by auto
  qed
qed

subsection \<open>Round trip\<close>

lemma unat_word_of_nat_u32: "n \<le> 16777215 \<Longrightarrow> unat (word_of_nat n :: u32) = n"
  by (simp add: unat_of_nat)

lemma decode_encoded:
  fixes payload :: bytes
  assumes h: "h = frame_header_new t fl sid (word_of_nat (length payload))"
    and sid: "unat sid < 2 ^ 31" and c: "codec_ok c"
    and len: "length payload \<le> unat (codec_max_frame_size c)"
    and payload: "decode_payload h payload = Inr f"
  shows "decode c (frame_header_encode h @ payload @ rest) = (Frame f, rest)"
proof -
  have n: "length payload \<le> 16777215" using c len by (simp add: codec_ok_def)
  then have fl: "unat (fh_length h) = length payload"
    by (simp add: h frame_header_new_def unat_word_of_nat_u32)
  have "frame_header_parse (frame_header_encode h) = Some h"
    by (rule frame_header_parse_encode)
      (use n in \<open>simp add: fl\<close>, simp add: h frame_header_new_def mask31_less [simplified])
  moreover have "\<not> fh_length h > codec_max_frame_size c"
    using len fl by (simp add: word_less_nat_alt)
  ultimately show ?thesis
    using payload fl by (simp add: decode_known)
qed

lemma settings_loop_concat: "settings_loop (concat (map setting_bytes ss)) = ss"
  by (induction ss) (simp_all add: setting_bytes_def u16_to_be_def u32_to_be_def be_simps)

lemma length_concat_settings: "length (concat (map setting_bytes ss)) = 6 * length ss"
  by (induction ss) (simp_all add: setting_bytes_def)

lemma exclusive_bit_set: "(w OR 0x80000000 :: u32) AND 0x80000000 \<noteq> 0"
proof
  assume "(w OR 0x80000000 :: u32) AND 0x80000000 = 0"
  then have "bit ((w OR 0x80000000 :: u32) AND 0x80000000) 31 = bit (0 :: u32) 31" by simp
  then show False by (simp add: bit_simps)
qed

lemma dep_bits:
  assumes "id31 w"
  shows "w AND 0x80000000 = 0" and "(w OR 0x80000000) AND 0x7FFFFFFF = w"
proof -
  have w: "w AND 0x7FFFFFFF = w" using assms by (simp only: id31_def mask31_id)
  have "w AND 0x80000000 = (w AND 0x7FFFFFFF) AND 0x80000000" by (simp only: w)
  also have "\<dots> = w AND (0x7FFFFFFF AND 0x80000000)" by (simp only: and.assoc)
  finally show "w AND 0x80000000 = 0" by simp
  have "(w OR 0x80000000) AND 0x7FFFFFFF = (w AND 0x7FFFFFFF) OR (0x80000000 AND 0x7FFFFFFF)"
    by (simp only: bit.conj_disj_distrib2)
  then show "(w OR 0x80000000) AND 0x7FFFFFFF = w" by (simp add: w)
qed

lemma priority_at_bytes:
  assumes "id31 (ps_stream_dependency p)" and "length pre = n"
  shows "priority_at (pre @ priority_bytes p @ post) n = p"
proof -
  have nth: "(pre @ ys) ! n = ys ! 0" "(pre @ ys) ! (n + k) = ys ! k" for ys k
    using assms(2) by (simp_all add: nth_append)
  show ?thesis
    unfolding priority_at_def nth
    using assms(1) exclusive_bit_set
    by (cases p) (simp add: priority_bytes_def u32_to_be_def u32_of_to_be dep_bits mask31_id [folded id31_def]
        nth nth_append)
qed


lemma decode_encode_data:
  assumes "wf_frame (Data f)" and "codec_ok c"
    and "payload_size (Data f) \<le> unat (codec_max_frame_size c)"
  shows "decode c (encode_data f [] @ rest) = (Frame (Data f), rest)"
proof (cases "df_padding f")
  case None
  let ?h = "frame_header_new FT_Data
    (if df_end_stream f then flags_set FLAG_END_STREAM FLAGS_NONE else FLAGS_NONE)
    (df_stream_id f) (word_of_nat (length (df_data f)))"
  have "decode_payload ?h (df_data f) = Inr (Data f)"
    using assms None
    by (cases f) (auto simp: decode_payload_def decode_data_def frame_header_new_def flag_defs
        mask31_id [folded id31_def])
  then show ?thesis
    using decode_encoded [of ?h FT_Data _ "df_stream_id f" "df_data f" c "Data f" rest] assms None
    by (simp add: encode_data_def pad_prefix_def pad_suffix_def pad_size_def id31_def)
next
  case (Some p)
  let ?pl = "p # df_data f @ replicate (unat p) 0"
  let ?h = "frame_header_new FT_Data
    (flags_set FLAG_PADDED
      (if df_end_stream f then flags_set FLAG_END_STREAM FLAGS_NONE else FLAGS_NONE))
    (df_stream_id f) (word_of_nat (length ?pl))"
  have "decode_payload ?h ?pl = Inr (Data f)"
    using assms Some
    by (cases f) (auto simp: decode_payload_def decode_data_def frame_header_new_def flag_defs
        mask31_id [folded id31_def])
  then show ?thesis
    using decode_encoded [of ?h FT_Data _ "df_stream_id f" ?pl c "Data f" rest] assms Some
    by (simp add: encode_data_def pad_prefix_def pad_suffix_def pad_size_def id31_def add_ac)
qed


definition headers_flags :: "HeadersFrame \<Rightarrow> H2FrameFlags" where
  "headers_flags f =
     (if hf_end_stream f then 0x1 else 0) OR (if hf_end_headers f then 0x4 else 0)
       OR (if hf_priority f \<noteq> None then 0x20 else 0) OR (if hf_padding f \<noteq> None then 0x8 else 0)"

definition headers_payload :: "HeadersFrame \<Rightarrow> bytes" where
  "headers_payload f = pad_prefix (hf_padding f)
     @ (case hf_priority f of None \<Rightarrow> [] | Some p \<Rightarrow> priority_bytes p)
     @ hf_header_block f @ pad_suffix (hf_padding f)"

lemma length_priority_bytes [simp]: "length (priority_bytes p) = 5"
  by (simp add: priority_bytes_def)

lemma length_pads: "length (pad_prefix pd) + length (pad_suffix pd) = pad_size pd"
  by (simp add: pad_prefix_def pad_suffix_def pad_size_def split: option.split)

lemma encode_headers_frame_eq:
  "encode_headers_frame f buf =
     buf @ frame_header_encode (frame_header_new FT_Headers (headers_flags f) (hf_stream_id f)
       (word_of_nat (length (headers_payload f)))) @ headers_payload f"
  by (auto simp: encode_headers_frame_def headers_flags_def headers_payload_def flag_defs
      pad_prefix_def pad_suffix_def add.assoc split: option.split)

lemma headers_flags_bits:
  "flags_is_end_stream (headers_flags f) = hf_end_stream f"
  "flags_is_end_headers (headers_flags f) = hf_end_headers f"
  "flags_is_priority (headers_flags f) = (hf_priority f \<noteq> None)"
  "flags_is_padded (headers_flags f) = (hf_padding f \<noteq> None)"
  by (simp_all add: headers_flags_def flag_defs)

lemma drop_6_priority: "drop 6 (take (6 + n) (a # priority_bytes p @ xs)) = take n xs"
proof -
  have "drop 6 (take (6 + n) (a # priority_bytes p @ xs)) = take n (drop 6 ((a # priority_bytes p) @ xs))"
    by (simp only: drop_take append_Cons) simp
  then show ?thesis by (simp add: drop_append)
qed

lemma decode_headers_payload:
  assumes "wf_frame (Headers f)" and "fh_stream_id h = hf_stream_id f"
    and "fh_flags h = headers_flags f"
  shows "decode_headers h (headers_payload f) = Inr (Headers f)"
proof -
  have "priority_at (priority_bytes q @ post) 0 = q" if "hf_priority f = Some q" for q post
    using priority_at_bytes [of q "[]" 0 post] assms(1) that by simp
  moreover have "priority_at (p # priority_bytes q @ post) (Suc 0) = q"
    if "hf_priority f = Some q" for p q post
    using priority_at_bytes [of q "[p]" 1 post] assms(1) that by simp
  ultimately show ?thesis
    using assms
    by (cases f; cases "hf_padding f"; cases "hf_priority f")
      (auto simp: decode_headers_def headers_flags_bits headers_payload_def pad_prefix_def
        pad_suffix_def drop_6_priority Let_def)
qed

lemma decode_encode_headers:
  assumes "wf_frame (Headers f)" and "codec_ok c"
    and "payload_size (Headers f) \<le> unat (codec_max_frame_size c)"
  shows "decode c (encode_headers_frame f [] @ rest) = (Frame (Headers f), rest)"
proof -
  let ?h = "frame_header_new FT_Headers (headers_flags f) (hf_stream_id f)
    (word_of_nat (length (headers_payload f)))"
  have "decode_payload ?h (headers_payload f) = Inr (Headers f)"
    using assms(1) decode_headers_payload [of f ?h]
    by (simp add: decode_payload_def frame_header_new_def mask31_id [folded id31_def])
  moreover have "length (headers_payload f) = payload_size (Headers f)"
    by (simp add: headers_payload_def length_pads [symmetric] split: option.split)
  ultimately show ?thesis
    using decode_encoded [of ?h FT_Headers _ "hf_stream_id f" "headers_payload f" c "Headers f" rest] assms
    by (simp add: encode_headers_frame_eq id31_def)
qed

lemma drop_5_add: "drop 5 (take (5 + n) (a # b # c # d # e # xs)) = take n xs"
  by (simp add: eval_nat_numeral)

lemma decode_encode_push_promise:
  assumes "wf_frame (PushPromise f)" and "codec_ok c"
    and "payload_size (PushPromise f) \<le> unat (codec_max_frame_size c)"
  shows "decode c (encode_push_promise f [] @ rest) = (Frame (PushPromise f), rest)"
proof -
  let ?pl = "pad_prefix (ppf_padding f) @ u32_to_be (ppf_promised_stream_id f)
    @ ppf_header_block f @ pad_suffix (ppf_padding f)"
  let ?fl = "(if ppf_end_headers f then 0x4 else 0) OR (if ppf_padding f \<noteq> None then 0x8 else 0)"
  let ?h = "frame_header_new FT_PushPromise ?fl (ppf_stream_id f) (word_of_nat (length ?pl))"
  have enc: "encode_push_promise f [] = frame_header_encode ?h @ ?pl"
    by (auto simp: encode_push_promise_def flag_defs pad_prefix_def pad_suffix_def
        add.assoc split: option.split)
  have "decode_payload ?h ?pl = Inr (PushPromise f)"
    using assms(1)
    by (cases f; cases "ppf_padding f")
      (auto simp: decode_payload_def decode_push_promise_def frame_header_new_def flag_defs
        pad_prefix_def pad_suffix_def u32_to_be_def u32_of_to_be drop_5_add Let_def
        mask31_id [folded id31_def])
  moreover have "length ?pl = payload_size (PushPromise f)"
    by (simp add: length_pads [symmetric])
  ultimately show ?thesis
    using decode_encoded [of ?h FT_PushPromise ?fl "ppf_stream_id f" ?pl c "PushPromise f" rest] assms
    by (simp add: enc id31_def)
qed

lemma decode_encode_settings:
  assumes "wf_frame (Settings f)" and "codec_ok c"
    and "payload_size (Settings f) \<le> unat (codec_max_frame_size c)"
  shows "decode c (encode_settings f [] @ rest) = (Frame (Settings f), rest)"
proof -
  let ?pl = "if sf_ack f then [] else concat (map setting_bytes (sf_settings f))"
  let ?h = "frame_header_new FT_Settings (if sf_ack f then 0x1 else 0) 0 (word_of_nat (length ?pl))"
  have enc: "encode_settings f [] = frame_header_encode ?h @ ?pl"
    by (auto simp: encode_settings_def flag_defs length_concat_settings mult.commute)
  have len: "length ?pl = payload_size (Settings f)"
    by (simp add: length_concat_settings)
  have "decode_payload ?h ?pl = Inr (Settings f)"
    using assms(1)
    by (cases f; cases "sf_ack f")
      (auto simp: decode_payload_def decode_settings_def frame_header_new_def flag_defs Let_def
        settings_loop_concat length_concat_settings)
  then show ?thesis
    using decode_encoded [of ?h FT_Settings _ 0 ?pl c "Settings f" rest] assms len
    by (simp add: enc)
qed

lemma list_8_conv: "length xs = 8 \<Longrightarrow> take 8 xs = xs"
  by simp

lemma decode_encode_fixed:
  assumes "codec_ok c"
  shows "wf_frame (Priority pf) \<Longrightarrow> decode c (encode_priority pf [] @ rest) = (Frame (Priority pf), rest)"
    and "wf_frame (RstStream rf) \<Longrightarrow> decode c (encode_rst_stream rf [] @ rest) = (Frame (RstStream rf), rest)"
    and "wf_frame (Ping pg) \<Longrightarrow> decode c (encode_ping pg [] @ rest) = (Frame (Ping pg), rest)"
    and "wf_frame (WindowUpdate wu) \<Longrightarrow>
      decode c (encode_window_update wu [] @ rest) = (Frame (WindowUpdate wu), rest)"
proof -
  assume wf: "wf_frame (Priority pf)"
  let ?h = "frame_header_new FT_Priority 0 (pf_stream_id pf) (word_of_nat 5)"
  have "decode_payload ?h (priority_bytes (pf_priority pf)) = Inr (Priority pf)"
    using wf priority_at_bytes [of "pf_priority pf" "[]" 0 "[]"]
    by (cases pf) (simp add: decode_payload_def decode_priority_def frame_header_new_def
        mask31_id [folded id31_def])
  then show "decode c (encode_priority pf [] @ rest) = (Frame (Priority pf), rest)"
    using decode_encoded [of ?h FT_Priority 0 "pf_stream_id pf" "priority_bytes (pf_priority pf)" c
        "Priority pf" rest] wf assms
    by (simp add: encode_priority_def FLAGS_NONE_def id31_def codec_ok_def)
next
  assume wf: "wf_frame (RstStream rf)"
  let ?pl = "u32_to_be (rf_error_code rf)"
  let ?h = "frame_header_new FT_RstStream 0 (rf_stream_id rf) (word_of_nat 4)"
  have "decode_payload ?h ?pl = Inr (RstStream rf)"
    using wf by (cases rf) (simp add: decode_payload_def decode_rst_stream_def frame_header_new_def
        mask31_id [folded id31_def] u32_to_be_def u32_of_to_be)
  then show "decode c (encode_rst_stream rf [] @ rest) = (Frame (RstStream rf), rest)"
    using decode_encoded [of ?h FT_RstStream 0 "rf_stream_id rf" ?pl c "RstStream rf" rest] wf assms
    by (simp add: encode_rst_stream_def FLAGS_NONE_def id31_def codec_ok_def)
next
  assume wf: "wf_frame (Ping pg)"
  let ?h = "frame_header_new FT_Ping (if pgf_ack pg then 0x1 else 0) 0 (word_of_nat 8)"
  have "decode_payload ?h (pgf_data pg) = Inr (Ping pg)"
    using wf by (cases pg) (simp add: decode_payload_def decode_ping_def frame_header_new_def flag_defs)
  then show "decode c (encode_ping pg [] @ rest) = (Frame (Ping pg), rest)"
    using decode_encoded [of ?h FT_Ping "if pgf_ack pg then 0x1 else 0" 0 "pgf_data pg" c "Ping pg" rest]
      wf assms
    by (cases "pgf_ack pg") (simp_all add: encode_ping_def FLAGS_NONE_def FLAG_ACK_def codec_ok_def)
next
  assume wf: "wf_frame (WindowUpdate wu)"
  let ?pl = "u32_to_be (wf_increment wu)"
  let ?h = "frame_header_new FT_WindowUpdate 0 (wf_stream_id wu) (word_of_nat 4)"
  have "decode_payload ?h ?pl = Inr (WindowUpdate wu)"
    using wf by (cases wu) (simp add: decode_payload_def decode_window_update_def frame_header_new_def
        mask31_id [folded id31_def] u32_to_be_def u32_of_to_be)
  then show "decode c (encode_window_update wu [] @ rest) = (Frame (WindowUpdate wu), rest)"
    using decode_encoded [of ?h FT_WindowUpdate 0 "wf_stream_id wu" ?pl c "WindowUpdate wu" rest] wf assms
    by (simp add: encode_window_update_def FLAGS_NONE_def id31_def codec_ok_def)
qed

lemma decode_encode_goaway:
  assumes "wf_frame (GoAway f)" and "codec_ok c"
    and "payload_size (GoAway f) \<le> unat (codec_max_frame_size c)"
  shows "decode c (encode_goaway f [] @ rest) = (Frame (GoAway f), rest)"
proof -
  let ?pl = "u32_to_be (gf_last_stream_id f) @ u32_to_be (gf_error_code f) @ gf_debug_data f"
  let ?h = "frame_header_new FT_GoAway 0 0 (word_of_nat (length ?pl))"
  have "decode_payload ?h ?pl = Inr (GoAway f)"
    using assms(1)
    by (cases f) (simp add: decode_payload_def decode_goaway_def frame_header_new_def
        mask31_id [folded id31_def] u32_to_be_def u32_of_to_be)
  then show ?thesis
    using decode_encoded [of ?h FT_GoAway 0 0 ?pl c "GoAway f" rest] assms
    by (simp add: encode_goaway_def FLAGS_NONE_def)
qed

lemma decode_encode_continuation:
  assumes "wf_frame (Continuation f)" and "codec_ok c"
    and "payload_size (Continuation f) \<le> unat (codec_max_frame_size c)"
  shows "decode c (encode_continuation f [] @ rest) = (Frame (Continuation f), rest)"
proof -
  let ?fl = "if cf_end_headers f then 0x4 else 0 :: u8"
  let ?h = "frame_header_new FT_Continuation ?fl (cf_stream_id f)
    (word_of_nat (length (cf_header_block f)))"
  have "decode_payload ?h (cf_header_block f) = Inr (Continuation f)"
    using assms(1)
    by (cases f) (simp add: decode_payload_def decode_continuation_def frame_header_new_def flag_defs
        mask31_id [folded id31_def])
  moreover have "encode_continuation f [] = frame_header_encode ?h @ cf_header_block f"
    by (simp add: encode_continuation_def flag_defs len_u32_def)
  ultimately show ?thesis
    using decode_encoded [of ?h FT_Continuation ?fl "cf_stream_id f" "cf_header_block f" c
        "Continuation f" rest] assms
    by (simp add: id31_def)
qed

lemmas decode_encode_kinds =
  decode_encode_data decode_encode_headers decode_encode_fixed decode_encode_settings
  decode_encode_push_promise decode_encode_goaway decode_encode_continuation

lemma decode_encode_append:
  assumes "wf_frame f" and "codec_ok c" and "payload_size f \<le> unat (codec_max_frame_size c)"
  shows "decode c (encode f [] @ rest) = (Frame f, rest)"
  using assms
  by (cases f; simp only: encode.simps decode_encode_kinds wf_frame.simps(11))


lemma encode_buf: "encode f buf = buf @ encode f []"
  by (cases f)
    (simp_all add: encode_data_def encode_headers_frame_def encode_priority_def encode_rst_stream_def
      encode_settings_def encode_push_promise_def encode_ping_def encode_goaway_def
      encode_window_update_def encode_continuation_def encode_unknown_def Let_def)

subsection \<open>Consumption and independence of later input\<close>

lemma decode_frame_consumes:
  assumes "decode c buf = (Frame f, rest)"
  shows "\<exists>pre. buf = pre @ rest \<and> 9 \<le> length pre"
proof (cases buf rule: decode_cases)
  case short
  with assms show ?thesis by (simp add: decode_short)
next
  case (known hb tl h)
  then have "buf = (hb @ take (unat (fh_length h)) tl) @ rest"
    using assms by (auto simp: decode_known split: if_splits sum.splits)
  then show ?thesis using known(2) by (intro exI conjI) auto
next
  case (unknown a b c0 d e f' g h i tl)
  then have "buf = ([a, b, c0, d, e, f', g, h, i] @ take (unat (u24_of_be a b c0)) tl) @ rest"
    using assms decode_unknown [OF refl unknown(2), of c a b c0 e f' g h i tl]
    by (auto simp: Let_def split: if_splits)
  then show ?thesis by (intro exI conjI) auto
qed

lemma decode_frame_shorter: "decode c buf = (Frame f, rest) \<Longrightarrow> length rest < length buf"
  using decode_frame_consumes by fastforce

text \<open>Bytes behind the frame never change the result; they stay in the buffer.\<close>

lemma decode_append:
  assumes "decode c buf = (r, rest)" and "\<nexists>n. r = NeedMoreData n"
  shows "decode c (buf @ extra) = (r, rest @ extra)"
proof (cases buf rule: decode_cases)
  case short
  with assms show ?thesis by (auto simp: decode_short)
next
  case (known hb tl h)
  with assms show ?thesis
    by (auto simp: decode_known split: if_splits)
next
  case (unknown a b c0 d e f g h i tl)
  with assms decode_unknown [OF refl unknown(2), of c a b c0 e f g h i tl]
    decode_unknown [OF refl unknown(2), of c a b c0 e f g h i "tl @ extra"]
  show ?thesis by (auto simp: Let_def split: if_splits)
qed

text \<open>\<^verbatim>\<open>min_bytes\<close> is a true lower bound, and a buffer that needs more is left as it was.\<close>

lemma decode_need_more:
  assumes "decode c buf = (NeedMoreData n, rest)"
  shows "rest = buf" and "0 < n"
    and "length extra < n \<Longrightarrow> decode c (buf @ extra) = (NeedMoreData (n - length extra), buf @ extra)"
proof -
  have "rest = buf \<and> 0 < n \<and>
    (length extra < n \<longrightarrow> decode c (buf @ extra) = (NeedMoreData (n - length extra), buf @ extra))"
  proof (cases buf rule: decode_cases)
    case short
    with assms show ?thesis by (auto simp: decode_short)
  next
    case (known hb tl h)
    with assms show ?thesis by (auto simp: decode_known split: if_splits sum.splits)
  next
    case (unknown a b c0 d e f g h i tl)
    with assms decode_unknown [OF refl unknown(2), of c a b c0 e f g h i tl]
      decode_unknown [OF refl unknown(2), of c a b c0 e f g h i "tl @ extra"]
    show ?thesis by (auto simp: Let_def split: if_splits)
  qed
  then show "rest = buf" and "0 < n"
    and "length extra < n \<Longrightarrow> decode c (buf @ extra) = (NeedMoreData (n - length extra), buf @ extra)"
    by blast+
qed


subsection \<open>What the decoder accepts\<close>

lemma length_settings_loop: "length (settings_loop xs) = length xs div 6"
  by (induction xs rule: settings_loop.induct) auto

text \<open>The type byte of a frame, with the numbers of RFC 9113 section 6.\<close>

fun frame_kind :: "H2Frame \<Rightarrow> u8" where
  "frame_kind (Data _) = 0"
| "frame_kind (Headers _) = 1"
| "frame_kind (Priority _) = 2"
| "frame_kind (RstStream _) = 3"
| "frame_kind (Settings _) = 4"
| "frame_kind (PushPromise _) = 5"
| "frame_kind (Ping _) = 6"
| "frame_kind (GoAway _) = 7"
| "frame_kind (WindowUpdate _) = 8"
| "frame_kind (Continuation _) = 9"
| "frame_kind (Unknown u) = uf_frame_type u"

lemma decode_payload_identity:
  assumes "decode_payload h payload = Inr f"
  shows "frame_kind f = frame_type_as_u8 (fh_frame_type h) \<and> frame_stream_id f = fh_stream_id h"
  using assms
  by (cases "fh_frame_type h")
    (auto simp: decode_payload_def decode_data_def decode_headers_def decode_priority_def decode_rst_stream_def
      decode_settings_def decode_push_promise_def decode_ping_def decode_goaway_def decode_window_update_def
      decode_continuation_def Let_def split: if_splits)

lemma decode_payload_sound:
  assumes "decode_payload h payload = Inr f" and "unat (fh_stream_id h) < 2 ^ 31"
  shows "wf_frame f \<and> payload_size f = length payload"
proof (cases "fh_frame_type h")
  case FT_Settings
  then have f: "f = Settings \<lparr>sf_ack = flags_is_ack (fh_flags h), sf_settings = settings_loop payload\<rparr>"
    and len: "length payload mod 6 = 0" and ack: "flags_is_ack (fh_flags h) \<Longrightarrow> payload = []"
    using assms by (auto simp: decode_payload_def decode_settings_def Let_def split: if_splits)
  have "length payload = 6 * length (settings_loop payload)"
    using len length_settings_loop [of payload] by (simp add: mod_0_imp_dvd)
  with f ack show ?thesis by auto
next
  case FT_Data
  with assms show ?thesis
    by (auto simp: decode_payload_def decode_data_def id31_def pad_size_def Let_def split: if_splits)
next
  case FT_Headers
  with assms show ?thesis
    by (auto simp: decode_payload_def decode_headers_def id31_def pad_size_def priority_at_def
        mask31_less [simplified] Let_def split: if_splits)
next
  case FT_PushPromise
  with assms show ?thesis
    by (auto simp: decode_payload_def decode_push_promise_def id31_def pad_size_def
        mask31_less [simplified] Let_def split: if_splits)
next
  case FT_GoAway
  with assms show ?thesis
    by (auto simp: decode_payload_def decode_goaway_def id31_def
        mask31_less [simplified] split: if_splits)
qed (use assms in \<open>auto simp: decode_payload_def decode_priority_def decode_rst_stream_def
  decode_ping_def decode_window_update_def decode_continuation_def id31_def priority_at_def
  mask31_less [simplified] Let_def split: if_splits\<close>)

text \<open>How the nine header bytes and the payload determine what an accepted frame may be.\<close>

definition accepted_as :: "H2Codec \<Rightarrow> bytes \<Rightarrow> bytes \<Rightarrow> H2Frame \<Rightarrow> bool" where
  "accepted_as c hb payload f \<longleftrightarrow>
     length payload = unat (u24_of_be (hb ! 0) (hb ! 1) (hb ! 2)) \<and>
     frame_kind f = hb ! 3 \<and>
     frame_stream_id f = u32_of_be (hb ! 5) (hb ! 6) (hb ! 7) (hb ! 8) AND 0x7FFFFFFF \<and>
     (if hb ! 3 \<le> 9
      then wf_frame f \<and> payload_size f = length payload \<and> length payload \<le> unat (codec_max_frame_size c)
      else f = Unknown \<lparr>uf_frame_type = hb ! 3, uf_stream_id = frame_stream_id f, uf_flags = hb ! 4, uf_payload = []\<rparr>)"

lemma known_type: "d \<le> 9 \<Longrightarrow> frame_type_from_u8 d \<noteq> None"
proof -
  have "k < 10 \<Longrightarrow> (word_of_nat k :: u8) \<in> {0, 1, 2, 3, 4, 5, 6, 7, 8, 9}" for k
    by (auto simp: numeral_eq_Suc less_Suc_eq)
  from this [of "unat d"] show "d \<le> 9 \<Longrightarrow> frame_type_from_u8 d \<noteq> None"
    by (auto simp: frame_type_from_u8_def word_le_nat_alt)
qed

lemma decode_sound:
  assumes "decode c buf = (Frame f, rest)"
  shows "\<exists>hb payload. length hb = 9 \<and> buf = hb @ payload @ rest \<and> accepted_as c hb payload f"
proof (cases buf rule: decode_cases)
  case short
  with assms show ?thesis by (simp add: decode_short)
next
  case (known hb tl h)
  let ?payload = "take (unat (fh_length h)) tl"
  have d: "decode_payload h ?payload = Inr f" "\<not> codec_max_frame_size c < fh_length h"
    "\<not> length tl < unat (fh_length h)" "rest = drop (unat (fh_length h)) tl"
    using assms known by (auto simp: decode_known split: if_splits sum.splits)
  have "wf_frame f \<and> payload_size f = length ?payload"
    using d(1) frame_header_parse_bounds(2) [OF known(3)] by (rule decode_payload_sound)
  moreover have "fh_length h = u24_of_be (hb ! 0) (hb ! 1) (hb ! 2)"
    "fh_stream_id h = u32_of_be (hb ! 5) (hb ! 6) (hb ! 7) (hb ! 8) AND 0x7FFFFFFF"
    "frame_type_as_u8 (fh_frame_type h) = hb ! 3" "hb ! 3 \<le> 9"
    using known(2,3) by (cases hb rule: frame_header_parse.cases;
        auto simp: frame_type_from_u8_def split: option.splits if_splits)+
  ultimately show ?thesis
    using known(1,2) d decode_payload_identity [OF d(1)]
    by (intro exI [of _ hb] exI [of _ ?payload]) (auto simp: accepted_as_def word_less_nat_alt)
next
  case (unknown a b c0 d e f' g h i tl)
  have "\<not> d \<le> 9" using unknown(2) known_type by blast
  then show ?thesis
    using unknown(1) assms decode_unknown [OF refl unknown(2), of c a b c0 e f' g h i tl]
    by (intro exI [of _ "[a, b, c0, d, e, f', g, h, i]"] exI [of _ "take (unat (u24_of_be a b c0)) tl"])
      (auto simp: accepted_as_def Let_def split: if_splits)
qed


subsection \<open>Properties\<close>

text \<open>
  C1. Frame round trip: whatever follows in the buffer, decoding the encoding of a well-formed
  frame that fits the receiver's frame-size limit gives that very frame (padding, priority and
  flags included) and leaves exactly the bytes behind it.
\<close>

theorem codec_round_trip:
  assumes "wf_frame f" and "codec_ok c" and "payload_size f \<le> unat (codec_max_frame_size c)"
  shows "decode c (encode f [] @ rest) = (Frame f, rest)"
  using assms by (rule decode_encode_append)

definition sample_headers :: HeadersFrame where
  "sample_headers =
     \<lparr>hf_stream_id = 5, hf_header_block = [0x82, 0x87], hf_end_stream = True,
      hf_end_headers = True,
      hf_priority = Some \<lparr>ps_exclusive = True, ps_stream_dependency = 3, ps_weight = 219\<rparr>,
      hf_padding = Some 2\<rparr>"

theorem codec_round_trip_witness:
  "wf_frame (Headers sample_headers) \<and> codec_ok codec_new \<and>
   payload_size (Headers sample_headers) \<le> unat (codec_max_frame_size codec_new) \<and>
   decode codec_new (encode (Headers sample_headers) [] @ [7, 8]) =
     (Frame (Headers sample_headers), [7, 8])"
proof -
  have h: "wf_frame (Headers sample_headers)"
      "payload_size (Headers sample_headers) \<le> unat (codec_max_frame_size codec_new)"
    by (simp_all add: sample_headers_def id31_def pad_size_def codec_new_def
        DEFAULT_MAX_FRAME_SIZE_def)
  show ?thesis using h codec_round_trip [OF h(1) codec_ok_new h(2), of "[7, 8]"] by simp
qed

text \<open>
  C14. What the decoder accepts: a frame it returns comes from a nine-byte header and exactly as many payload bytes as the
  header's length field says, and these bytes are all that was consumed. The frame has the header's type and its stream
  identifier without the reserved bit. For the ten types of RFC 9113 it satisfies every identifier, length and range rule
  of its kind, its fields and padding take up exactly the payload, and the payload respects the size limit. A frame of any
  other type is reported with its type, flags and identifier and with no payload, whatever its length: the size limit
  does not apply to it.
\<close>

theorem decode_accepts_only_wf:
  assumes "decode c buf = (Frame f, rest)"
  shows "\<exists>hb payload. length hb = 9 \<and> buf = hb @ payload @ rest \<and>
    length payload = unat (u24_of_be (hb ! 0) (hb ! 1) (hb ! 2)) \<and>
    frame_kind f = hb ! 3 \<and>
    frame_stream_id f = u32_of_be (hb ! 5) (hb ! 6) (hb ! 7) (hb ! 8) AND 0x7FFFFFFF \<and>
    (if hb ! 3 \<le> 9
     then wf_frame f \<and> payload_size f = length payload \<and> length payload \<le> unat (codec_max_frame_size c)
     else f = Unknown \<lparr>uf_frame_type = hb ! 3, uf_stream_id = frame_stream_id f, uf_flags = hb ! 4, uf_payload = []\<rparr>)"
  using decode_sound [OF assms] unfolding accepted_as_def .

theorem decode_accepts_only_wf_witness:
  "decode codec_new [0, 0, 4, 8, 0, 0x80, 0, 0, 3, 0, 0, 1, 0, 99] =
     (Frame (WindowUpdate \<lparr>wf_stream_id = 3, wf_increment = 256\<rparr>), [99])
   \<and> (\<exists>hb payload. length hb = 9 \<and> [0, 0, 4, 8, 0, 0x80, 0, 0, 3, 0, 0, 1, 0, 99] = hb @ payload @ [99] \<and>
        frame_kind (WindowUpdate \<lparr>wf_stream_id = 3, wf_increment = 256\<rparr>) = hb ! 3)"
proof -
  have d: "decode codec_new [0, 0, 4, 8, 0, 0x80, 0, 0, 3, 0, 0, 1, 0, 99] =
     (Frame (WindowUpdate \<lparr>wf_stream_id = 3, wf_increment = 256\<rparr>), [99])"
    by code_simp
  show ?thesis using d decode_accepts_only_wf [OF d] by blast
qed

text \<open>
  C13. Incremental decoding: when the decoder asks for more data it leaves the buffer alone and
  every extension shorter than the announced minimum still needs the difference; in every other
  case (frame or error) the answer does not depend on any byte that arrives later, and
  those bytes are kept.
\<close>

theorem decode_incremental:
  assumes "decode c buf = (r, rest)"
  shows "case r of
      NeedMoreData n \<Rightarrow> rest = buf \<and> 0 < n \<and>
        (\<forall>extra. length extra < n \<longrightarrow>
           decode c (buf @ extra) = (NeedMoreData (n - length extra), buf @ extra))
    | _ \<Rightarrow> (\<forall>extra. decode c (buf @ extra) = (r, rest @ extra))"
  using assms decode_need_more [of c buf _ rest] decode_append [of c buf r rest]
  by (auto split: DecodeResult.split)

theorem decode_incremental_witness:
  "decode codec_new [0, 0, 4, 8] = (NeedMoreData 5, [0, 0, 4, 8]) \<and>
   decode codec_new ([0, 0, 4, 8] @ [0, 0]) = (NeedMoreData 3, [0, 0, 4, 8, 0, 0])"
proof -
  have d: "decode codec_new [0, 0, 4, 8] = (NeedMoreData 5, [0, 0, 4, 8])"
    by code_simp
  show ?thesis using d decode_incremental [OF d] by (auto dest!: spec [of _ "[0, 0]"])
qed

end
