(* ===== verification/H2_Profile.thy ===== *)
theory H2_Profile
  imports H2_Policy Rust_Str H2_Codec
begin

text \<open>
  The fingerprint profiles of \<^verbatim>\<open>lkh2/src/profile.rs\<close>: SETTINGS, WINDOW_UPDATE, pseudo-header order and
  priority of a browser, the RFC 9218 request priority with its header syntax, the built-in
  presets, and the conversion of a profile to the frames of the connection preface. The
  base64 encoding of the \<^verbatim>\<open>HTTP2-Settings\<close> header is a third-party package and a parameter.
\<close>

subsection \<open>Settings and pseudo-headers\<close>

datatype H2SettingId =
    SI_HeaderTableSize | SI_EnablePush | SI_MaxConcurrentStreams | SI_InitialWindowSize
  | SI_MaxFrameSize | SI_MaxHeaderListSize | SI_EnableConnectProtocol | SI_NoRfc7540Priorities
  | SI_Unknown u16

fun setting_id_as_u16 :: "H2SettingId \<Rightarrow> u16" where
  "setting_id_as_u16 SI_HeaderTableSize = 0x01"
| "setting_id_as_u16 SI_EnablePush = 0x02"
| "setting_id_as_u16 SI_MaxConcurrentStreams = 0x03"
| "setting_id_as_u16 SI_InitialWindowSize = 0x04"
| "setting_id_as_u16 SI_MaxFrameSize = 0x05"
| "setting_id_as_u16 SI_MaxHeaderListSize = 0x06"
| "setting_id_as_u16 SI_EnableConnectProtocol = 0x08"
| "setting_id_as_u16 SI_NoRfc7540Priorities = 0x09"
| "setting_id_as_u16 (SI_Unknown raw) = raw"

record H2Setting =
  se_id :: H2SettingId
  se_value :: u32

definition setting :: "H2SettingId \<Rightarrow> u32 \<Rightarrow> H2Setting" where
  "setting i v = \<lparr>se_id = i, se_value = v\<rparr>"

datatype PseudoHeaderId = PH_Method | PH_Authority | PH_Scheme | PH_Path

record HeadersPriority =
  hp_stream_dependency :: u32
  hp_weight :: u8
  hp_exclusive :: bool

record ProfilePriorityFrame =
  ppr_stream_id :: u32
  ppr_dependency :: u32
  ppr_weight :: u8
  ppr_exclusive :: bool

subsection \<open>Request priority\<close>

record RequestPriority =
  rp_urgency :: u8
  rp_incremental :: bool

definition priority_navigation :: RequestPriority where
  "priority_navigation = \<lparr>rp_urgency = 0, rp_incremental = True\<rparr>"

definition priority_fetch :: RequestPriority where
  "priority_fetch = \<lparr>rp_urgency = 1, rp_incremental = True\<rparr>"

definition priority_css :: RequestPriority where
  "priority_css = \<lparr>rp_urgency = 0, rp_incremental = False\<rparr>"

definition priority_script :: RequestPriority where
  "priority_script = \<lparr>rp_urgency = 1, rp_incremental = False\<rparr>"

definition priority_image :: RequestPriority where
  "priority_image = \<lparr>rp_urgency = 2, rp_incremental = True\<rparr>"

definition priority_background :: RequestPriority where
  "priority_background = \<lparr>rp_urgency = 3, rp_incremental = False\<rparr>"

definition priority_custom :: "u8 \<Rightarrow> bool \<Rightarrow> RequestPriority" where
  "priority_custom urgency incremental = \<lparr>rp_urgency = min urgency 7, rp_incremental = incremental\<rparr>"

definition priority_default :: RequestPriority where
  "priority_default = \<lparr>rp_urgency = 3, rp_incremental = False\<rparr>"

definition from_sec_fetch_dest :: "bytes \<Rightarrow> RequestPriority option" where
  "from_sec_fetch_dest dest =
     (if dest = ascii ''document'' \<or> dest = ascii ''iframe'' \<or> dest = ascii ''frame''
      then Some priority_navigation
      else if dest = ascii ''style'' then Some priority_css
      else if dest = ascii ''script'' then Some priority_script
      else if dest = ascii ''image'' then Some priority_image
      else if dest = ascii ''empty'' then Some priority_fetch
      else None)"

definition to_header_value :: "RequestPriority \<Rightarrow> bytes" where
  "to_header_value p =
     (if rp_incremental p
      then ascii ''u='' @ ascii (show_nat (unat (rp_urgency p))) @ ascii '', i''
      else ascii ''u='' @ ascii (show_nat (unat (rp_urgency p))))"

text \<open>One turn of the loop over the comma-separated parts, on \<^verbatim>\<open>(urgency, incremental)\<close>.\<close>

definition priority_part :: "bytes \<Rightarrow> u8 option \<times> bool \<Rightarrow> u8 option \<times> bool" where
  "priority_part raw st =
     (let part = trim raw; (urgency, incremental) = st in
      case strip_prefix (ascii ''u='') part of
        Some rest \<Rightarrow>
          (map_option (\<lambda>v. min (word_of_nat v) 7) (parse_unsigned 255 (trim rest)), incremental)
      | None \<Rightarrow>
          if part = ascii ''i'' then (urgency, True)
          else (case strip_prefix (ascii ''i='') part of
                  Some rest \<Rightarrow>
                    (urgency, trim rest = ascii ''?1'' \<or> trim rest = ascii ''1'')
                | None \<Rightarrow> (urgency, incremental)))"

definition from_header_value :: "bytes \<Rightarrow> RequestPriority option" where
  "from_header_value val =
     (let (urgency, incremental) = fold priority_part (split_on 44 val) (None, False) in
      map_option (\<lambda>u. \<lparr>rp_urgency = u, rp_incremental = incremental\<rparr>) urgency)"

subsection \<open>Priority strategies\<close>

datatype StreamDepPolicy = Flat | Chain

text \<open>The weight table is \<^verbatim>\<open>[u8; 8]\<close>: a list of length eight.\<close>

record PriorityConfig =
  pc_urgency_weights :: "u8 list option"
  pc_exclusive :: bool
  pc_stream_dep_policy :: StreamDepPolicy
  pc_auto_priority_header :: bool
  pc_default_urgency :: u8
  pc_default_incremental :: bool

definition priority_config_default :: PriorityConfig where
  "priority_config_default =
     \<lparr>pc_urgency_weights = None, pc_exclusive = False, pc_stream_dep_policy = Flat,
      pc_auto_priority_header = False, pc_default_urgency = 3, pc_default_incremental = False\<rparr>"

definition priority_config_chrome :: PriorityConfig where
  "priority_config_chrome =
     \<lparr>pc_urgency_weights = Some [255, 219, 146, 110, 73, 36, 0, 0], pc_exclusive = True,
      pc_stream_dep_policy = Chain, pc_auto_priority_header = True, pc_default_urgency = 1,
      pc_default_incremental = True\<rparr>"

definition priority_config_firefox :: PriorityConfig where
  "priority_config_firefox =
     \<lparr>pc_urgency_weights = None, pc_exclusive = False, pc_stream_dep_policy = Flat,
      pc_auto_priority_header = True, pc_default_urgency = 3, pc_default_incremental = False\<rparr>"

definition priority_config_safari18 :: PriorityConfig where
  "priority_config_safari18 =
     \<lparr>pc_urgency_weights = None, pc_exclusive = True, pc_stream_dep_policy = Flat,
      pc_auto_priority_header = False, pc_default_urgency = 3, pc_default_incremental = False\<rparr>"

definition priority_config_safari26 :: PriorityConfig where
  "priority_config_safari26 =
     \<lparr>pc_urgency_weights = None, pc_exclusive = False, pc_stream_dep_policy = Flat,
      pc_auto_priority_header = True, pc_default_urgency = 3, pc_default_incremental = False\<rparr>"

definition effective_priority :: "PriorityConfig \<Rightarrow> RequestPriority option \<Rightarrow> RequestPriority" where
  "effective_priority c explicit =
     (case explicit of
        Some p \<Rightarrow> p
      | None \<Rightarrow> \<lparr>rp_urgency = pc_default_urgency c, rp_incremental = pc_default_incremental c\<rparr>)"

definition weight_for_urgency :: "PriorityConfig \<Rightarrow> u8 \<Rightarrow> u8 option" where
  "weight_for_urgency c urgency =
     map_option (\<lambda>w. w ! unat (min urgency 7)) (pc_urgency_weights c)"

subsection \<open>Profiles and presets\<close>

record H2Profile =
  pr_settings :: "H2Setting list"
  pr_window_update :: u32
  pr_pseudo_header_order :: "PseudoHeaderId list"
  pr_headers_priority :: "HeadersPriority option"
  pr_priority_frames :: "ProfilePriorityFrame list"
  pr_priority_config :: PriorityConfig
  pr_behavior :: "FlowControl H2Behavior option"

definition chrome_144_h2 :: H2Profile where
  "chrome_144_h2 =
     \<lparr>pr_settings =
          [setting SI_HeaderTableSize 65536, setting SI_EnablePush 0,
           setting SI_InitialWindowSize 6291456,
           setting SI_MaxHeaderListSize 262144],
      pr_window_update = 15663105,
      pr_pseudo_header_order = [PH_Method, PH_Authority, PH_Scheme, PH_Path],
      pr_headers_priority = Some \<lparr>hp_stream_dependency = 0, hp_weight = 255, hp_exclusive = True\<rparr>,
      pr_priority_frames = [],
      pr_priority_config = priority_config_chrome,
      pr_behavior = Some behavior_chrome\<rparr>"

definition chrome_145_h2 :: H2Profile where
  "chrome_145_h2 =
     \<lparr>pr_settings =
          [setting SI_HeaderTableSize 65536, setting SI_EnablePush 0,
           setting SI_InitialWindowSize 6291456,
           setting SI_MaxHeaderListSize 262144],
      pr_window_update = 15663105,
      pr_pseudo_header_order = [PH_Method, PH_Authority, PH_Scheme, PH_Path],
      pr_headers_priority = Some \<lparr>hp_stream_dependency = 0, hp_weight = 255, hp_exclusive = True\<rparr>,
      pr_priority_frames = [],
      pr_priority_config = priority_config_chrome,
      pr_behavior = Some behavior_chrome\<rparr>"

definition chrome_146_h2 :: H2Profile where
  "chrome_146_h2 = chrome_144_h2"

definition chrome_147_h2 :: H2Profile where
  "chrome_147_h2 = chrome_144_h2"

definition chrome_148_h2 :: H2Profile where
  "chrome_148_h2 = chrome_144_h2"

definition chrome_149_h2 :: H2Profile where
  "chrome_149_h2 = chrome_144_h2"

definition chrome_150_h2 :: H2Profile where
  "chrome_150_h2 = chrome_144_h2"

definition chrome_151_h2 :: H2Profile where
  "chrome_151_h2 = chrome_150_h2"

definition chrome_131_h2 :: H2Profile where
  "chrome_131_h2 = chrome_144_h2"

definition firefox_133_h2 :: H2Profile where
  "firefox_133_h2 =
     \<lparr>pr_settings =
          [setting SI_HeaderTableSize 65536, setting SI_InitialWindowSize 131072,
           setting SI_MaxFrameSize 16384],
      pr_window_update = 12517377,
      pr_pseudo_header_order = [PH_Method, PH_Path, PH_Authority, PH_Scheme],
      pr_headers_priority = Some \<lparr>hp_stream_dependency = 0, hp_weight = 42, hp_exclusive = False\<rparr>,
      pr_priority_frames = [],
      pr_priority_config = priority_config_firefox,
      pr_behavior = Some behavior_firefox\<rparr>"

definition firefox_147_h2 :: H2Profile where
  "firefox_147_h2 =
     \<lparr>pr_settings =
          [setting SI_HeaderTableSize 65536, setting SI_EnablePush 0,
           setting SI_InitialWindowSize 131072, setting SI_MaxFrameSize 16384],
      pr_window_update = 12517377,
      pr_pseudo_header_order = [PH_Method, PH_Path, PH_Authority, PH_Scheme],
      pr_headers_priority = Some \<lparr>hp_stream_dependency = 0, hp_weight = 42, hp_exclusive = False\<rparr>,
      pr_priority_frames = [],
      pr_priority_config = priority_config_firefox,
      pr_behavior = Some behavior_firefox\<rparr>"

definition safari_18_h2 :: H2Profile where
  "safari_18_h2 =
     \<lparr>pr_settings =
          [setting SI_InitialWindowSize 4194304, setting SI_MaxConcurrentStreams 100],
      pr_window_update = 10485760,
      pr_pseudo_header_order = [PH_Method, PH_Scheme, PH_Path, PH_Authority],
      pr_headers_priority = Some \<lparr>hp_stream_dependency = 0, hp_weight = 255, hp_exclusive = True\<rparr>,
      pr_priority_frames = [],
      pr_priority_config = priority_config_safari18,
      pr_behavior = Some behavior_safari\<rparr>"

definition safari_26_h2 :: H2Profile where
  "safari_26_h2 =
     \<lparr>pr_settings =
          [setting SI_EnablePush 0, setting SI_MaxConcurrentStreams 100,
           setting SI_InitialWindowSize 2097152,
           setting SI_NoRfc7540Priorities 1],
      pr_window_update = 10420225,
      pr_pseudo_header_order = [PH_Method, PH_Scheme, PH_Authority, PH_Path],
      pr_headers_priority = None,
      pr_priority_frames = [],
      pr_priority_config = priority_config_safari26,
      pr_behavior = Some behavior_safari\<rparr>"

subsection \<open>Conversion to frames\<close>

definition with_behavior :: "FlowControl H2Behavior \<Rightarrow> H2Profile \<Rightarrow> H2Profile" where
  "with_behavior b p = p\<lparr>pr_behavior := Some b\<rparr>"

definition profile_behavior :: "H2Profile \<Rightarrow> FlowControl H2Behavior" where
  "profile_behavior p = (case pr_behavior p of Some b \<Rightarrow> b | None \<Rightarrow> default_behavior)"

definition setting_parameter :: "H2Setting \<Rightarrow> SettingsParameter" where
  "setting_parameter s = \<lparr>sp_id = setting_id_as_u16 (se_id s), sp_value = se_value s\<rparr>"

definition to_settings_frame :: "H2Profile \<Rightarrow> SettingsFrame" where
  "to_settings_frame p = \<lparr>sf_ack = False, sf_settings = map setting_parameter (pr_settings p)\<rparr>"

definition to_window_update_frame :: "H2Profile \<Rightarrow> WindowUpdateFrame option" where
  "to_window_update_frame p =
     (if pr_window_update p = 0 then None
      else Some \<lparr>wf_stream_id = 0, wf_increment = pr_window_update p\<rparr>)"

definition to_headers_priority_spec :: "H2Profile \<Rightarrow> PrioritySpec option" where
  "to_headers_priority_spec p =
     map_option (\<lambda>hp. \<lparr>ps_exclusive = hp_exclusive hp, ps_stream_dependency = hp_stream_dependency hp,
                        ps_weight = hp_weight hp\<rparr>) (pr_headers_priority p)"

definition to_native_priority_frames :: "H2Profile \<Rightarrow> PriorityFrame list" where
  "to_native_priority_frames p =
     map (\<lambda>pf. \<lparr>pf_stream_id = ppr_stream_id pf,
                pf_priority = \<lparr>ps_exclusive = ppr_exclusive pf,
                               ps_stream_dependency = ppr_dependency pf, ps_weight = ppr_weight pf\<rparr>\<rparr>)
       (pr_priority_frames p)"

definition to_preface_frames :: "H2Profile \<Rightarrow> H2Frame list" where
  "to_preface_frames p =
     Settings (to_settings_frame p) #
     (case to_window_update_frame p of Some wu \<Rightarrow> [WindowUpdate wu] | None \<Rightarrow> []) @
     map Priority (to_native_priority_frames p)"

fun alps_loop :: "H2Setting list \<Rightarrow> bytes \<Rightarrow> bytes" where
  "alps_loop [] buf = buf"
| "alps_loop (s # ss) buf =
     alps_loop ss ((buf @ u16_to_be (setting_id_as_u16 (se_id s))) @ u32_to_be (se_value s))"

definition encode_alps_h2_settings :: "H2Profile \<Rightarrow> bytes" where
  "encode_alps_h2_settings p = alps_loop (pr_settings p) []"

text \<open>\<open>b64\<close> is \<^verbatim>\<open>URL_SAFE_NO_PAD.encode\<close> of the base64 package.\<close>

definition encode_h2_settings_base64url :: "(bytes \<Rightarrow> bytes) \<Rightarrow> H2Profile \<Rightarrow> bytes" where
  "encode_h2_settings_base64url b64 p = b64 (encode_alps_h2_settings p)"

subsection \<open>Header orders\<close>

definition chrome_144_header_order :: "bytes list" where
  "chrome_144_header_order =
     map ascii
       [''sec-ch-ua'', ''sec-ch-ua-mobile'', ''sec-ch-ua-platform'',
        ''upgrade-insecure-requests'', ''user-agent'', ''accept'', ''sec-fetch-site'',
        ''sec-fetch-mode'', ''sec-fetch-user'', ''sec-fetch-dest'', ''accept-encoding'',
        ''accept-language'', ''priority'', ''cookie'']"

definition chrome_full_header_order :: "bytes list" where
  "chrome_full_header_order =
     map ascii
       [''content-length'', ''sec-ch-ua'', ''sec-ch-ua-mobile'', ''sec-ch-ua-platform'',
        ''upgrade-insecure-requests'', ''user-agent'', ''accept'', ''content-type'',
        ''origin'', ''sec-fetch-site'', ''sec-fetch-mode'', ''sec-fetch-user'',
        ''sec-fetch-dest'', ''sec-fetch-storage-access'', ''referer'',
        ''accept-encoding'', ''accept-language'', ''priority'', ''cookie'']"

definition chrome_145_header_order :: "bytes list" where
  "chrome_145_header_order = chrome_144_header_order"

definition chrome_146_header_order :: "bytes list" where
  "chrome_146_header_order = chrome_144_header_order"

definition chrome_147_header_order :: "bytes list" where
  "chrome_147_header_order = chrome_144_header_order"

definition chrome_148_header_order :: "bytes list" where
  "chrome_148_header_order = chrome_144_header_order"

definition chrome_149_header_order :: "bytes list" where
  "chrome_149_header_order = chrome_144_header_order"

definition chrome_150_header_order :: "bytes list" where
  "chrome_150_header_order = chrome_144_header_order"

definition chrome_151_header_order :: "bytes list" where
  "chrome_151_header_order = chrome_150_header_order"

definition chrome_131_header_order :: "bytes list" where
  "chrome_131_header_order = chrome_144_header_order"

definition firefox_147_header_order :: "bytes list" where
  "firefox_147_header_order =
     map ascii
       [''user-agent'', ''accept'', ''accept-language'', ''accept-encoding'',
        ''upgrade-insecure-requests'', ''sec-fetch-dest'', ''sec-fetch-mode'',
        ''sec-fetch-site'', ''sec-fetch-user'', ''priority'', ''te'', ''cookie'']"

definition firefox_133_header_order :: "bytes list" where
  "firefox_133_header_order = firefox_147_header_order"

definition safari_26_header_order :: "bytes list" where
  "safari_26_header_order =
     map ascii
       [''sec-fetch-dest'', ''user-agent'', ''accept'', ''sec-fetch-site'', ''sec-fetch-mode'',
        ''accept-language'', ''priority'', ''accept-encoding'', ''cookie'']"

definition safari_18_header_order :: "bytes list" where
  "safari_18_header_order = safari_26_header_order"

subsection \<open>The priority header\<close>

lemma comma_free_show: "44 \<notin> set (ascii (show_nat n))"
  using show_nat_digits [of 44 n] by auto

lemma trim_show: "trim (ascii (show_nat n)) = ascii (show_nat n)"
proof -
  let ?s = "ascii (show_nat n)"
  have "hd ?s \<in> set ?s" "last ?s \<in> set ?s" by simp_all
  then have "48 \<le> unat (hd ?s)" "unat (hd ?s) \<le> 57" "48 \<le> unat (last ?s)" "unat (last ?s) \<le> 57"
    using show_nat_digits [of "hd ?s" n] show_nat_digits [of "last ?s" n] by auto
  then show ?thesis by (intro trim_id) (simp_all add: word_less_nat_alt)
qed

lemma trim_u_show: "trim (117 # 61 # ascii (show_nat n)) = 117 # 61 # ascii (show_nat n)"
proof -
  let ?s = "ascii (show_nat n)"
  have "last ?s \<in> set ?s" by simp
  then have "48 \<le> unat (last ?s)" "unat (last ?s) \<le> 57"
    using show_nat_digits [of "last ?s" n] by auto
  then show ?thesis by (intro trim_id) (simp_all add: word_less_nat_alt)
qed

lemma trim_i: "trim [32, 105] = [105]"
  by (simp add: trim_def trim_start_space trim_start_id trim_end_id)

lemma ascii_literals:
  "ascii ''u='' = [117, 61]" "ascii '', i'' = [44, 32, 105]" "ascii ''i'' = [105]" "ascii ''i='' = [105, 61]"
  by (simp_all add: ascii_def of_char_def)

lemma priority_part_u:
  "n \<le> 255 \<Longrightarrow> priority_part (117 # 61 # ascii (show_nat n)) (u, i) = (Some (min (word_of_nat n) 7), i)"
  by (simp add: priority_part_def trim_u_show ascii_literals strip_prefix_def trim_show parse_unsigned_show)

lemma priority_part_i: "priority_part [32, 105] (u, i) = (u, True)"
  by (simp add: priority_part_def trim_i ascii_literals strip_prefix_def)

text \<open>
  C38. The priority header value: printing a request priority and parsing it back gives the
  same priority with the urgency capped at seven, for all 256 urgency values and both flags; in
  particular every priority that RFC 9218 allows survives the round trip.
\<close>

theorem priority_header_round_trip:
  "from_header_value (to_header_value p) = Some (p\<lparr>rp_urgency := min (rp_urgency p) 7\<rparr>)"
proof -
  let ?u = "117 # 61 # ascii (show_nat (unat (rp_urgency p)))"
  have n: "unat (rp_urgency p) \<le> 255" by (rule unat_u8_le)
  have free: "44 \<notin> set ?u" using comma_free_show by simp
  show ?thesis
  proof (cases "rp_incremental p")
    case True
    have v: "to_header_value p = ?u @ 44 # [32, 105]"
      using True by (simp add: to_header_value_def ascii_literals)
    have "split_on 44 (to_header_value p) = [?u, [32, 105]]"
      unfolding v split_on_append [OF free] by simp
    then show ?thesis using True n by (simp add: from_header_value_def priority_part_u priority_part_i)
  next
    case False
    then have "split_on 44 (to_header_value p) = [?u]"
      using split_on_free [OF free] by (simp add: to_header_value_def ascii_literals)
    then show ?thesis using False n by (simp add: from_header_value_def priority_part_u)
  qed
qed

subsection \<open>The SETTINGS payload\<close>

lemma alps_loop_concat: "alps_loop ss buf = buf @ concat (map (setting_bytes \<circ> setting_parameter) ss)"
  by (induction ss arbitrary: buf) (simp_all add: setting_bytes_def setting_parameter_def)

text \<open>
  C39. The stand-alone settings payload (the \<^verbatim>\<open>HTTP2-Settings\<close> header before base64) is byte for byte
  the payload of the SETTINGS frame that the connection preface sends for the same profile.
\<close>

theorem alps_settings_is_frame_payload:
  "hd (to_preface_frames p) = Settings (to_settings_frame p) \<and>
   encode (Settings (to_settings_frame p)) [] =
     frame_header_encode (frame_header_new FT_Settings FLAGS_NONE 0
       (word_of_nat (length (encode_alps_h2_settings p)))) @ encode_alps_h2_settings p"
proof -
  have "length (concat (map (setting_bytes \<circ> setting_parameter) ss)) = length ss * 6" for ss
    by (induction ss) (simp_all add: setting_bytes_def u16_to_be_def u32_to_be_def)
  then show ?thesis
    by (simp add: to_preface_frames_def encode_settings_def to_settings_frame_def encode_alps_h2_settings_def
        alps_loop_concat Let_def)
qed

end
