(* ===== verification/H2_Conn.thy ===== *)
theory H2_Conn
  imports H2_Stream Hpack H2_Profile
begin

text \<open>
  The connection state of \<^verbatim>\<open>lkh2/src/conn_state.rs\<close>: settings of both sides, the stream map, the HPACK
  contexts, the connection windows and GOAWAY. The stream map is an association list; its order stands
  for the unspecified iteration order of the \<^verbatim>\<open>HashMap\<close>. The state of the third-party HPACK decoder is the
  type parameter \<open>'d\<close>.
\<close>

subsection \<open>Settings\<close>

definition DEFAULT_INITIAL_WINDOW_SIZE :: u32 where
  "DEFAULT_INITIAL_WINDOW_SIZE = 65535"

definition DEFAULT_HEADER_TABLE_SIZE :: u32 where
  "DEFAULT_HEADER_TABLE_SIZE = 4096"

record H2Settings =
  hs_header_table_size :: u32
  hs_enable_push :: bool
  hs_max_concurrent_streams :: "u32 option"
  hs_initial_window_size :: u32
  hs_max_frame_size :: u32
  hs_max_header_list_size :: "u32 option"

definition settings_default :: H2Settings where
  "settings_default =
     \<lparr>hs_header_table_size = DEFAULT_HEADER_TABLE_SIZE, hs_enable_push = True,
      hs_max_concurrent_streams = None, hs_initial_window_size = DEFAULT_INITIAL_WINDOW_SIZE,
      hs_max_frame_size = 16384, hs_max_header_list_size = None\<rparr>"

definition settings_client :: H2Settings where
  "settings_client = settings_default\<lparr>hs_enable_push := False\<rparr>"

record SettingsError =
  ser_id :: u16
  ser_value :: u32
  ser_reason :: string

definition settings_error_display :: "SettingsError \<Rightarrow> string" where
  "settings_error_display e =
     ''invalid setting 0x'' @ show_hex4 (unat (ser_id e)) @ ''='' @ show_nat (unat (ser_value e)) @
     '': '' @ ser_reason e"

definition settings_error :: "SettingsParameter \<Rightarrow> string \<Rightarrow> SettingsError" where
  "settings_error param reason = \<lparr>ser_id = sp_id param, ser_value = sp_value param, ser_reason = reason\<rparr>"

definition settings_apply :: "SettingsParameter \<Rightarrow> H2Settings \<Rightarrow> SettingsError + H2Settings" where
  "settings_apply param s =
     (let v = sp_value param in
      case settings_id_from_u16 (sp_id param) of
        Some HeaderTableSize \<Rightarrow> Inr (s\<lparr>hs_header_table_size := v\<rparr>)
      | Some EnablePush \<Rightarrow>
          if v > 1 then Inl (settings_error param ''ENABLE_PUSH must be 0 or 1'')
          else Inr (s\<lparr>hs_enable_push := v = 1\<rparr>)
      | Some MaxConcurrentStreams \<Rightarrow> Inr (s\<lparr>hs_max_concurrent_streams := Some v\<rparr>)
      | Some InitialWindowSize \<Rightarrow>
          if v > 0x7FFFFFFF
          then Inl (settings_error param ''INITIAL_WINDOW_SIZE must not exceed 2^31-1'')
          else Inr (s\<lparr>hs_initial_window_size := v\<rparr>)
      | Some MaxFrameSize \<Rightarrow>
          if \<not> (16384 \<le> v \<and> v \<le> 16777215)
          then Inl (settings_error param ''MAX_FRAME_SIZE must be between 16384 and 16777215'')
          else Inr (s\<lparr>hs_max_frame_size := v\<rparr>)
      | Some MaxHeaderListSize \<Rightarrow> Inr (s\<lparr>hs_max_header_list_size := Some v\<rparr>)
      | _ \<Rightarrow> Inr s)"

subsection \<open>Error codes\<close>

datatype H2ErrorCode =
    EC_NoError | EC_ProtocolError | EC_InternalError | EC_FlowControlError | EC_SettingsTimeout
  | EC_StreamClosed | EC_FrameSizeError | EC_RefusedStream | EC_Cancel | EC_CompressionError
  | EC_ConnectError | EC_EnhanceYourCalm | EC_InadequateSecurity | EC_Http11Required

definition error_code_from_u32 :: "u32 \<Rightarrow> H2ErrorCode" where
  "error_code_from_u32 v =
     (if v = 0x0 then EC_NoError
      else if v = 0x1 then EC_ProtocolError
      else if v = 0x2 then EC_InternalError
      else if v = 0x3 then EC_FlowControlError
      else if v = 0x4 then EC_SettingsTimeout
      else if v = 0x5 then EC_StreamClosed
      else if v = 0x6 then EC_FrameSizeError
      else if v = 0x7 then EC_RefusedStream
      else if v = 0x8 then EC_Cancel
      else if v = 0x9 then EC_CompressionError
      else if v = 0xa then EC_ConnectError
      else if v = 0xb then EC_EnhanceYourCalm
      else if v = 0xc then EC_InadequateSecurity
      else if v = 0xd then EC_Http11Required
      else EC_InternalError)"

fun error_code_as_u32 :: "H2ErrorCode \<Rightarrow> u32" where
  "error_code_as_u32 EC_NoError = 0x0"
| "error_code_as_u32 EC_ProtocolError = 0x1"
| "error_code_as_u32 EC_InternalError = 0x2"
| "error_code_as_u32 EC_FlowControlError = 0x3"
| "error_code_as_u32 EC_SettingsTimeout = 0x4"
| "error_code_as_u32 EC_StreamClosed = 0x5"
| "error_code_as_u32 EC_FrameSizeError = 0x6"
| "error_code_as_u32 EC_RefusedStream = 0x7"
| "error_code_as_u32 EC_Cancel = 0x8"
| "error_code_as_u32 EC_CompressionError = 0x9"
| "error_code_as_u32 EC_ConnectError = 0xa"
| "error_code_as_u32 EC_EnhanceYourCalm = 0xb"
| "error_code_as_u32 EC_InadequateSecurity = 0xc"
| "error_code_as_u32 EC_Http11Required = 0xd"

fun error_code_display :: "H2ErrorCode \<Rightarrow> string" where
  "error_code_display EC_NoError = ''NO_ERROR''"
| "error_code_display EC_ProtocolError = ''PROTOCOL_ERROR''"
| "error_code_display EC_InternalError = ''INTERNAL_ERROR''"
| "error_code_display EC_FlowControlError = ''FLOW_CONTROL_ERROR''"
| "error_code_display EC_SettingsTimeout = ''SETTINGS_TIMEOUT''"
| "error_code_display EC_StreamClosed = ''STREAM_CLOSED''"
| "error_code_display EC_FrameSizeError = ''FRAME_SIZE_ERROR''"
| "error_code_display EC_RefusedStream = ''REFUSED_STREAM''"
| "error_code_display EC_Cancel = ''CANCEL''"
| "error_code_display EC_CompressionError = ''COMPRESSION_ERROR''"
| "error_code_display EC_ConnectError = ''CONNECT_ERROR''"
| "error_code_display EC_EnhanceYourCalm = ''ENHANCE_YOUR_CALM''"
| "error_code_display EC_InadequateSecurity = ''INADEQUATE_SECURITY''"
| "error_code_display EC_Http11Required = ''HTTP_1_1_REQUIRED''"

datatype ConnectionError =
    CE_SettingsError string | CE_HpackError HpackError | CE_FlowControlError string
  | CE_StreamError StreamError | CE_ProtocolError string

fun connection_error_display :: "ConnectionError \<Rightarrow> string" where
  "connection_error_display (CE_SettingsError msg) = ''settings error: '' @ msg"
| "connection_error_display (CE_HpackError e) = ''HPACK error: '' @ hpack_error_display e"
| "connection_error_display (CE_FlowControlError msg) = ''flow control error: '' @ msg"
| "connection_error_display (CE_StreamError e) = ''stream error: '' @ stream_error_display e"
| "connection_error_display (CE_ProtocolError msg) = ''protocol error: '' @ msg"

subsection \<open>The connection\<close>

record 'd ConnState =
  cs_is_client :: bool
  cs_local_settings :: H2Settings
  cs_remote_settings :: H2Settings
  cs_streams :: "(u32 \<times> H2Stream) list"
  cs_next_stream_id :: u32
  cs_hpack_decoder :: 'd
  cs_hpack_encoder :: Encoder
  cs_send_window :: i32
  cs_recv_window :: i32
  cs_preface_received :: bool
  cs_settings_acked :: bool
  cs_pending_settings :: "H2Settings list"
  cs_error :: "H2ErrorCode option"
  cs_goaway_received :: bool
  cs_goaway_last_stream_id :: "u32 option"

definition conn_new :: "'d hpack_ops \<Rightarrow> bool \<Rightarrow> 'd ConnState" where
  "conn_new ops is_client =
     (let local_settings = (if is_client then settings_client else settings_default) in
      \<lparr>cs_is_client = is_client,
       cs_local_settings = local_settings,
       cs_remote_settings = settings_default,
       cs_streams = [],
       cs_next_stream_id = (if is_client then 1 else 2),
       cs_hpack_decoder = header_decoder_new ops (unat (hs_header_table_size local_settings)),
       cs_hpack_encoder = header_encoder_new (unat (hs_header_table_size local_settings)),
       cs_send_window = as_i32 (uint DEFAULT_INITIAL_WINDOW_SIZE),
       cs_recv_window = as_i32 (uint DEFAULT_INITIAL_WINDOW_SIZE),
       cs_preface_received = False,
       cs_settings_acked = False,
       cs_pending_settings = [],
       cs_error = None,
       cs_goaway_received = False,
       cs_goaway_last_stream_id = None\<rparr>)"

definition conn_client :: "'d hpack_ops \<Rightarrow> 'd ConnState" where
  "conn_client ops = conn_new ops True"

definition conn_server :: "'d hpack_ops \<Rightarrow> 'd ConnState" where
  "conn_server ops = conn_new ops False"

definition conn_send_window_available :: "'d ConnState \<Rightarrow> u32" where
  "conn_send_window_available c = as_u32 (max (cs_send_window c) 0)"

definition has_error :: "'d ConnState \<Rightarrow> bool" where
  "has_error c \<longleftrightarrow> cs_error c \<noteq> None"

definition mark_preface_received :: "'d ConnState \<Rightarrow> 'd ConnState" where
  "mark_preface_received c = c\<lparr>cs_preface_received := True\<rparr>"

definition effective_local_initial_window_size :: "'d ConnState \<Rightarrow> u32" where
  "effective_local_initial_window_size c =
     (if cs_pending_settings c \<noteq> [] then hs_initial_window_size (last (cs_pending_settings c))
      else hs_initial_window_size (cs_local_settings c))"

definition get_stream :: "'d ConnState \<Rightarrow> u32 \<Rightarrow> H2Stream option" where
  "get_stream c stream_id = map_of (cs_streams c) stream_id"

text \<open>Writing through the reference of \<^verbatim>\<open>get_stream_mut\<close>: the entry exists.\<close>

definition put_stream :: "u32 \<Rightarrow> H2Stream \<Rightarrow> 'd ConnState \<Rightarrow> 'd ConnState" where
  "put_stream stream_id s c = c\<lparr>cs_streams := AList.update stream_id s (cs_streams c)\<rparr>"

definition get_or_create_stream :: "u32 \<Rightarrow> 'd ConnState \<Rightarrow> 'd ConnState" where
  "get_or_create_stream stream_id c =
     (case get_stream c stream_id of
        Some _ \<Rightarrow> c
      | None \<Rightarrow>
          put_stream stream_id
            (new_with_windows stream_id (hs_initial_window_size (cs_remote_settings c))
              (effective_local_initial_window_size c)) c)"

definition active_stream_count :: "'d ConnState \<Rightarrow> nat" where
  "active_stream_count c = length (filter (\<lambda>(k, s). is_active (st_state s)) (cs_streams c))"

definition can_open_stream :: "'d ConnState \<Rightarrow> bool" where
  "can_open_stream c =
     (case hs_max_concurrent_streams (cs_remote_settings c) of
        Some m \<Rightarrow> active_stream_count c < unat m
      | None \<Rightarrow> True)"

definition open_stream :: "'d ConnState \<Rightarrow> u32 \<times> 'd ConnState" where
  "open_stream c =
     (let stream_id = cs_next_stream_id c;
          stream = new_with_windows stream_id (hs_initial_window_size (cs_remote_settings c))
                     (effective_local_initial_window_size c)
      in (stream_id,
          put_stream stream_id (keep stream (stream_open stream))
            (c\<lparr>cs_next_stream_id := cs_next_stream_id c + 2\<rparr>)))"

text \<open>The loop of \<^verbatim>\<open>apply_profile_settings\<close> ignores the result of \<^verbatim>\<open>apply\<close>: an error leaves the settings as they are.\<close>

definition apply_profile_settings :: "H2Setting list \<Rightarrow> 'd ConnState \<Rightarrow> 'd ConnState" where
  "apply_profile_settings settings c =
     (let pending = fold (\<lambda>s p. keep p (settings_apply \<lparr>sp_id = setting_id_as_u16 (se_id s), sp_value = se_value s\<rparr> p))
                      settings (cs_local_settings c)
      in c\<lparr>cs_pending_settings := cs_pending_settings c @ [pending]\<rparr>)"

text \<open>The parameter loop: the settings as they are when the loop ends or returns early, and the error.\<close>

fun remote_settings_loop :: "SettingsParameter list \<Rightarrow> H2Settings \<Rightarrow> ConnectionError option \<times> H2Settings" where
  "remote_settings_loop [] s = (None, s)"
| "remote_settings_loop (p # ps) s =
     (case settings_apply p s of
        Inl e \<Rightarrow> (Some (CE_SettingsError (settings_error_display e)), s)
      | Inr s' \<Rightarrow> remote_settings_loop ps s')"

text \<open>The stream loop, in iteration order; a stream that overflows stops it.\<close>

fun initial_window_loop ::
  "u32 \<Rightarrow> (u32 \<times> H2Stream) list \<Rightarrow> ConnectionError option \<times> (u32 \<times> H2Stream) list" where
  "initial_window_loop w [] = (None, [])"
| "initial_window_loop w ((k, s) # ss) =
     (case apply_initial_window_size w s of
        Inl e \<Rightarrow> (Some (CE_FlowControlError (stream_error_display e)), (k, s) # ss)
      | Inr s' \<Rightarrow> (let (r, ss') = initial_window_loop w ss in (r, (k, s') # ss')))"

definition apply_remote_settings ::
  "'d hpack_ops \<Rightarrow> SettingsFrame \<Rightarrow> 'd ConnState \<Rightarrow> (ConnectionError + unit) \<times> 'd ConnState" where
  "apply_remote_settings ops f c =
     (if sf_ack f then
        (case cs_pending_settings c of
           [] \<Rightarrow> (Inr (), c)
         | pending # rest \<Rightarrow>
             let c1 = c\<lparr>cs_pending_settings := rest\<rparr>;
                 c2 = (if hs_header_table_size pending \<noteq> hs_header_table_size (cs_local_settings c)
                       then c1\<lparr>cs_hpack_decoder :=
                              header_decoder_set_max_table_size ops (unat (hs_header_table_size pending))
                                (cs_hpack_decoder c1)\<rparr>
                       else c1)
             in (Inr (), c2\<lparr>cs_local_settings := pending, cs_settings_acked := True\<rparr>))
      else
        (let (r, remote) = remote_settings_loop (sf_settings f) (cs_remote_settings c);
             c1 = c\<lparr>cs_remote_settings := remote\<rparr>
         in case r of
              Some e \<Rightarrow> (Inl e, c1)
            | None \<Rightarrow>
                let (r2, streams) = initial_window_loop (hs_initial_window_size remote) (cs_streams c1);
                    c2 = c1\<lparr>cs_streams := streams\<rparr>
                in case r2 of Some e \<Rightarrow> (Inl e, c2) | None \<Rightarrow> (Inr (), c2)))"

definition header_list_size :: "(bytes \<times> bytes) list \<Rightarrow> nat" where
  "header_list_size headers = sum_list (map (\<lambda>(n, v). length n + length v + 32) headers)"

definition decode_header_block ::
  "'d hpack_ops \<Rightarrow> bytes \<Rightarrow> 'd ConnState \<Rightarrow> (ConnectionError + (bytes \<times> bytes) list) \<times> 'd ConnState" where
  "decode_header_block ops block c =
     (let (r, d) = header_decode ops block (cs_hpack_decoder c);
          c1 = c\<lparr>cs_hpack_decoder := d\<rparr>
      in case r of
           Inl e \<Rightarrow> (Inl (CE_HpackError e), c1)
         | Inr headers \<Rightarrow>
             let max_size = (case hs_max_header_list_size (cs_local_settings c1) of
                               Some n \<Rightarrow> unat n | None \<Rightarrow> 256 * 1024);
                 tot = header_list_size headers
             in if tot > max_size
                then (Inl (CE_HpackError (DecodingError
                       (''header list size '' @ show_nat tot @ '' exceeds limit '' @ show_nat max_size))), c1)
                else (Inr headers, c1))"

definition set_encoder_table_size :: "nat \<Rightarrow> 'd ConnState \<Rightarrow> 'd ConnState" where
  "set_encoder_table_size n c =
     c\<lparr>cs_hpack_encoder := header_encoder_set_max_table_size n (cs_hpack_encoder c)\<rparr>"

definition conn_encode_headers :: "(bytes \<times> bytes) list \<Rightarrow> 'd ConnState \<Rightarrow> bytes \<times> 'd ConnState" where
  "conn_encode_headers headers c =
     (let (e, out) = header_encode_owned headers (cs_hpack_encoder c)
      in (out, c\<lparr>cs_hpack_encoder := e\<rparr>))"

definition encode_headers_with_policy ::
  "(bytes \<times> bytes) list \<Rightarrow> hpack_policy \<Rightarrow> 'd ConnState \<Rightarrow> bytes \<times> 'd ConnState" where
  "encode_headers_with_policy headers policy c =
     (let (e, out) = header_encode_with_policy headers policy (cs_hpack_encoder c)
      in (out, c\<lparr>cs_hpack_encoder := e\<rparr>))"

definition conn_consume_send_window :: "u32 \<Rightarrow> 'd ConnState \<Rightarrow> u32 \<times> 'd ConnState" where
  "conn_consume_send_window amount c =
     (let available = as_u32 (max (cs_send_window c) 0);
          consumed = min amount available
      in (consumed, c\<lparr>cs_send_window := as_i32 (cs_send_window c - as_i32 (uint consumed))\<rparr>))"

definition conn_consume_recv_window :: "u32 \<Rightarrow> 'd ConnState \<Rightarrow> ConnectionError + 'd ConnState" where
  "conn_consume_recv_window amount c =
     (if cs_recv_window c < 0 \<or> as_u32 (cs_recv_window c) < amount
      then Inl (CE_FlowControlError
             (''connection receive window exhausted: window='' @ show_int (cs_recv_window c) @
              '', requested='' @ show_nat (unat amount)))
      else Inr (c\<lparr>cs_recv_window := as_i32 (cs_recv_window c - as_i32 (uint amount))\<rparr>))"

definition conn_update_send_window :: "u32 \<Rightarrow> 'd ConnState \<Rightarrow> ConnectionError + 'd ConnState" where
  "conn_update_send_window increment c =
     (let new_window = cs_send_window c + uint increment in
      if new_window > i32_max then Inl (CE_FlowControlError ''connection send window overflow'')
      else Inr (c\<lparr>cs_send_window := as_i32 new_window\<rparr>))"

definition conn_update_recv_window :: "u32 \<Rightarrow> 'd ConnState \<Rightarrow> ConnectionError + 'd ConnState" where
  "conn_update_recv_window increment c =
     (let new_window = cs_recv_window c + uint increment in
      if new_window > i32_max then Inl (CE_FlowControlError ''connection receive window overflow'')
      else Inr (c\<lparr>cs_recv_window := as_i32 new_window\<rparr>))"

definition conn_handle_goaway :: "u32 \<Rightarrow> u32 \<Rightarrow> 'd ConnState \<Rightarrow> 'd ConnState" where
  "conn_handle_goaway last_stream_id error_code c =
     (let c1 = c\<lparr>cs_goaway_received := True, cs_goaway_last_stream_id := Some last_stream_id\<rparr>
      in if error_code \<noteq> 0 then c1\<lparr>cs_error := Some (error_code_from_u32 error_code)\<rparr> else c1)"

definition cleanup_closed_streams :: "'d ConnState \<Rightarrow> 'd ConnState" where
  "cleanup_closed_streams c =
     c\<lparr>cs_streams := filter (\<lambda>(k, s). \<not> is_closed (st_state s)) (cs_streams c)\<rparr>"

subsection \<open>The connection invariant\<close>

text \<open>
  Settings stay within the limits of RFC 7540, every window within \<^verbatim>\<open>i32\<close> and the connection windows never
  below zero, stream keys are unique and name their stream, and the encoder's table is sound.
\<close>

definition settings_ok :: "H2Settings \<Rightarrow> bool" where
  "settings_ok s \<longleftrightarrow>
     uint (hs_initial_window_size s) \<le> i32_max \<and>
     16384 \<le> hs_max_frame_size s \<and> hs_max_frame_size s \<le> 16777215"

definition streams_ok :: "(u32 \<times> H2Stream) list \<Rightarrow> bool" where
  "streams_ok ss \<longleftrightarrow> distinct (map fst ss) \<and> (\<forall>(k, s) \<in> set ss. stream_inv s \<and> st_id s = k)"

definition conn_inv :: "'d ConnState \<Rightarrow> bool" where
  "conn_inv c \<longleftrightarrow>
     streams_ok (cs_streams c) \<and>
     settings_ok (cs_local_settings c) \<and> settings_ok (cs_remote_settings c) \<and>
     list_all settings_ok (cs_pending_settings c) \<and>
     0 \<le> cs_send_window c \<and> cs_send_window c \<le> i32_max \<and>
     0 \<le> cs_recv_window c \<and> cs_recv_window c \<le> i32_max \<and>
     table_inv (enc_dynamic (cs_hpack_encoder c)) \<and>
     (odd (unat (cs_next_stream_id c)) \<longleftrightarrow> cs_is_client c)"

lemma settings_ok_default [simp]: "settings_ok settings_default" "settings_ok settings_client"
  by (simp_all add: settings_ok_def settings_default_def settings_client_def i32_max_def
      DEFAULT_INITIAL_WINDOW_SIZE_def)

lemma settings_apply_ok:
  assumes "settings_ok s" "settings_apply p s = Inr s'"
  shows "settings_ok s'"
proof -
  have "uint v \<le> i32_max" if "v \<le> 0x7FFFFFFF" for v :: u32
    using that by (simp add: i32_max_def word_le_def)
  then show ?thesis
    using assms
    by (auto simp: settings_apply_def settings_ok_def Let_def not_less split: option.splits SettingsId.splits if_splits)
qed

lemma remote_settings_loop_ok:
  "settings_ok s \<Longrightarrow> remote_settings_loop ps s = (r, s') \<Longrightarrow> settings_ok s'"
  by (induction ps arbitrary: s) (auto split: sum.splits dest: settings_apply_ok)

lemma keep_settings_ok: "settings_ok s \<Longrightarrow> settings_ok (keep s (settings_apply p s))"
  by (auto simp: keep_def split: sum.split dest: settings_apply_ok)

lemma profile_settings_ok:
  "settings_ok s \<Longrightarrow> settings_ok (fold (\<lambda>x p. keep p (settings_apply (f x) p)) xs s)"
  by (induction xs arbitrary: s) (simp_all add: keep_settings_ok)

lemma streams_ok_lookup: "streams_ok ss \<Longrightarrow> map_of ss k = Some s \<Longrightarrow> stream_inv s \<and> st_id s = k"
  by (auto simp: streams_ok_def dest!: map_of_SomeD)

lemma streams_ok_update:
  assumes "streams_ok ss" "stream_inv s" "st_id s = k"
  shows "streams_ok (AList.update k s ss)"
proof -
  have "distinct (map fst (AList.update k s ss))"
    using assms(1) by (simp add: streams_ok_def distinct_update)
  moreover have "set (AList.update k s ss) \<subseteq> insert (k, s) (set ss)"
    by (induction ss) auto
  ultimately show ?thesis using assms by (auto simp: streams_ok_def)
qed

lemma streams_ok_filter: "streams_ok ss \<Longrightarrow> streams_ok (filter P ss)"
  by (auto simp: streams_ok_def distinct_map_filter)

lemma apply_initial_inv:
  assumes "stream_inv s" "uint w \<le> i32_max" "apply_initial_window_size w s = Inr s'"
  shows "stream_inv s'" "st_id s' = st_id s"
  using stream_step_inv [OF assms(1), of "OpInitial w"] assms
  by (auto simp: apply_initial_window_size_def Let_def split: if_splits)

lemma initial_window_loop_keys: "initial_window_loop w ss = (r, ss') \<Longrightarrow> map fst ss' = map fst ss"
  by (induction w ss arbitrary: r ss' rule: initial_window_loop.induct)
    (auto split: sum.splits prod.splits)

lemma initial_window_loop_inv:
  assumes "uint w \<le> i32_max"
  shows "(\<forall>(k, s) \<in> set ss. stream_inv s \<and> st_id s = k) \<Longrightarrow> initial_window_loop w ss = (r, ss') \<Longrightarrow>
    \<forall>(k, s) \<in> set ss'. stream_inv s \<and> st_id s = k"
proof (induction ss arbitrary: r ss')
  case (Cons x ss)
  obtain k s where x: "x = (k, s)" by fastforce
  show ?case
  proof (cases "apply_initial_window_size w s")
    case (Inl e)
    then show ?thesis using Cons.prems x by auto
  next
    case (Inr s')
    obtain r2 ss2 where l: "initial_window_loop w ss = (r2, ss2)" by fastforce
    then have "\<forall>(k, s) \<in> set ss2. stream_inv s \<and> st_id s = k" using Cons.IH Cons.prems(1) by auto
    then show ?thesis
      using Cons.prems x Inr l apply_initial_inv [OF _ assms Inr] by auto
  qed
qed simp

lemma initial_window_loop_ok:
  assumes "streams_ok ss" "uint w \<le> i32_max" "initial_window_loop w ss = (r, ss')"
  shows "streams_ok ss'"
  using assms initial_window_loop_inv [OF assms(2) _ assms(3)] initial_window_loop_keys [OF assms(3)]
  by (simp add: streams_ok_def)

lemma effective_window_ok: "conn_inv c \<Longrightarrow> uint (effective_local_initial_window_size c) \<le> i32_max"
  by (auto simp: effective_local_initial_window_size_def conn_inv_def settings_ok_def list_all_iff)

lemma new_stream_ok:
  "conn_inv c \<Longrightarrow>
   stream_inv (new_with_windows k (hs_initial_window_size (cs_remote_settings c)) (effective_local_initial_window_size c))"
  using effective_window_ok [of c] by (intro stream_inv_new) (auto simp: conn_inv_def settings_ok_def)

subsection \<open>Every operation preserves it\<close>

lemma conn_inv_new [simp]: "conn_inv (conn_new ops b)"
  by (simp add: conn_inv_def conn_new_def streams_ok_def header_encoder_new_def encoder_new_def Let_def
      DEFAULT_INITIAL_WINDOW_SIZE_def i32_max_def as_i32_lit)

lemma conn_inv_put:
  "conn_inv c \<Longrightarrow> stream_inv s \<Longrightarrow> st_id s = k \<Longrightarrow> conn_inv (put_stream k s c)"
  by (simp add: conn_inv_def put_stream_def streams_ok_update)

lemma conn_inv_get_or_create: "conn_inv c \<Longrightarrow> conn_inv (get_or_create_stream k c)"
  using new_stream_ok [of c k] conn_inv_put [of c _ k]
  by (auto simp: get_or_create_stream_def new_with_windows_def split: option.split)

lemma odd_plus_2: "odd (unat (w + 2 :: u32)) = odd (unat w)"
proof -
  have "unat (w + 2) = (unat w + 2) mod 2 ^ 32" by (simp add: unat_word_ariths)
  then show ?thesis by (simp add: dvd_mod_iff)
qed

lemma conn_inv_open: "conn_inv c \<Longrightarrow> conn_inv (snd (open_stream c))"
proof -
  assume inv: "conn_inv c"
  let ?s = "new_with_windows (cs_next_stream_id c) (hs_initial_window_size (cs_remote_settings c))
              (effective_local_initial_window_size c)"
  have "stream_inv (keep ?s (stream_open ?s))"
    using stream_step_inv [OF new_stream_ok [OF inv], of OpOpen] by simp
  moreover have "st_id (keep ?s (stream_open ?s)) = cs_next_stream_id c"
    by (simp add: stream_open_def new_with_windows_def)
  moreover have "conn_inv (c\<lparr>cs_next_stream_id := cs_next_stream_id c + 2\<rparr>)"
    using inv by (simp add: conn_inv_def odd_plus_2)
  ultimately show ?thesis by (simp add: open_stream_def Let_def conn_inv_put)
qed

lemma conn_inv_profile: "conn_inv c \<Longrightarrow> conn_inv (apply_profile_settings ss c)"
  using profile_settings_ok [of "cs_local_settings c"]
  by (simp add: conn_inv_def apply_profile_settings_def Let_def)

lemma conn_inv_remote:
  assumes "conn_inv c" "apply_remote_settings ops f c = (r, c')"
  shows "conn_inv c'"
proof (cases "sf_ack f")
  case True
  then show ?thesis
    using assms by (auto simp: apply_remote_settings_def conn_inv_def Let_def split: list.splits if_splits)
next
  case False
  obtain e remote where l: "remote_settings_loop (sf_settings f) (cs_remote_settings c) = (e, remote)" by fastforce
  obtain e2 ss where l2: "initial_window_loop (hs_initial_window_size remote) (cs_streams c) = (e2, ss)" by fastforce
  have "settings_ok remote" using remote_settings_loop_ok [OF _ l] assms(1) by (simp add: conn_inv_def)
  moreover have "streams_ok ss"
    using initial_window_loop_ok [OF _ _ l2] assms(1) calculation by (simp add: conn_inv_def settings_ok_def)
  ultimately show ?thesis
    using assms False l l2 by (auto simp: apply_remote_settings_def conn_inv_def Let_def split: option.splits)
qed

lemma conn_inv_decode: "conn_inv c \<Longrightarrow> decode_header_block ops block c = (r, c') \<Longrightarrow> conn_inv c'"
  by (auto simp: decode_header_block_def conn_inv_def Let_def split: prod.splits sum.splits if_splits)

lemma conn_inv_encoder:
  "conn_inv c \<Longrightarrow> table_inv (enc_dynamic e) \<Longrightarrow> conn_inv (c\<lparr>cs_hpack_encoder := e\<rparr>)"
  by (simp add: conn_inv_def)

lemma fold_encode_inv:
  "table_inv (enc_dynamic e) \<Longrightarrow>
   table_inv (enc_dynamic (fst (fold (\<lambda>(n, v). encode_header n v (p n v)) hs (e, buf))))"
proof (induction hs arbitrary: e buf)
  case (Cons hv hs)
  obtain n v where hv: "hv = (n, v)" by fastforce
  obtain e' buf' where e': "encode_header n v (p n v) (e, buf) = (e', buf')" by fastforce
  have "table_inv (enc_dynamic e')" using encode_header_inv [OF Cons.prems] e' by (metis fst_conv)
  then show ?case using Cons.IH e' hv by simp
qed simp

lemma encode_with_policy_inv:
  assumes "table_inv (enc_dynamic e)" "encode_with_policy hs p e = (e', out)"
  shows "table_inv (enc_dynamic e')"
proof -
  obtain e1 buf where e1: "emit_pending_table_size_update e [] = (e1, buf)" "enc_dynamic e1 = enc_dynamic e"
    by (cases "enc_pending e") (auto simp: emit_pending_table_size_update_def)
  then show ?thesis
    using fold_encode_inv [of e1 p hs buf] assms by (simp add: encode_with_policy_def)
qed

lemma conn_inv_encode:
  "conn_inv c \<Longrightarrow> conn_encode_headers hs c = (out, c') \<Longrightarrow> conn_inv c'"
  "conn_inv c \<Longrightarrow> encode_headers_with_policy hs p c = (out, c') \<Longrightarrow> conn_inv c'"
  by (auto simp: conn_encode_headers_def encode_headers_with_policy_def header_encode_owned_def
      header_encode_with_policy_def encode_owned_policy conn_inv_encoder conn_inv_def
      split: prod.splits dest: encode_with_policy_inv)

lemma conn_inv_table_size: "conn_inv c \<Longrightarrow> conn_inv (set_encoder_table_size n c)"
  by (simp add: conn_inv_def set_encoder_table_size_def header_encoder_set_max_table_size_def
      encoder_set_max_table_size_def)

text \<open>The exact effect of the connection window operations.\<close>

lemma conn_consume_send_window_exact:
  assumes "conn_inv c"
  shows "conn_consume_send_window n c =
    (as_u32 (min (uint n) (cs_send_window c)),
     c\<lparr>cs_send_window := cs_send_window c - min (uint n) (cs_send_window c)\<rparr>)"
proof -
  obtain k where k: "uint n = k" "0 \<le> k" by simp
  have w: "0 \<le> cs_send_window c" "cs_send_window c \<le> i32_max" using assms by (auto simp: conn_inv_def)
  then have u: "uint (as_u32 (cs_send_window c)) = cs_send_window c"
    by (intro uint_as_u32) (auto simp: i32_max_def)
  have c: "uint (min n (as_u32 (cs_send_window c))) = min k (cs_send_window c)"
    by (simp add: uint_min u k(1))
  then have "min n (as_u32 (cs_send_window c)) = as_u32 (min k (cs_send_window c))"
    by (metis as_u32_def word_of_int_uint)
  moreover have "as_i32 (min k (cs_send_window c)) = min k (cs_send_window c)"
    "as_i32 (cs_send_window c - min k (cs_send_window c)) = cs_send_window c - min k (cs_send_window c)"
    using w k(2) by (auto intro!: as_i32_lit simp: i32_max_def)
  ultimately show ?thesis using w c by (simp add: conn_consume_send_window_def Let_def k(1) max_def)
qed

lemma conn_consume_recv_window_exact:
  assumes "conn_inv c" "conn_consume_recv_window n c = Inr c'"
  shows "uint n \<le> cs_recv_window c" "c' = c\<lparr>cs_recv_window := cs_recv_window c - uint n\<rparr>"
proof -
  obtain k where k: "uint n = k" "0 \<le> k" by simp
  have w: "0 \<le> cs_recv_window c" "cs_recv_window c \<le> i32_max" using assms by (auto simp: conn_inv_def)
  then have u: "uint (as_u32 (cs_recv_window c)) = cs_recv_window c"
    by (intro uint_as_u32) (auto simp: i32_max_def)
  have le: "k \<le> cs_recv_window c"
    using assms(2) w u k(1) by (auto simp: conn_consume_recv_window_def word_less_def split: if_splits)
  then have "as_i32 k = k" "as_i32 (cs_recv_window c - k) = cs_recv_window c - k"
    using w k(2) by (auto intro!: as_i32_lit simp: i32_max_def)
  then show "uint n \<le> cs_recv_window c" "c' = c\<lparr>cs_recv_window := cs_recv_window c - uint n\<rparr>"
    using assms(2) le by (auto simp: conn_consume_recv_window_def k(1) split: if_splits)
qed

lemma conn_update_window_exact:
  assumes "conn_inv c"
  shows "conn_update_send_window n c = Inr c' \<Longrightarrow>
      cs_send_window c + uint n \<le> i32_max \<and> c' = c\<lparr>cs_send_window := cs_send_window c + uint n\<rparr>"
    and "conn_update_recv_window n c = Inr c' \<Longrightarrow>
      cs_recv_window c + uint n \<le> i32_max \<and> c' = c\<lparr>cs_recv_window := cs_recv_window c + uint n\<rparr>"
proof -
  obtain k where k: "uint n = k" "0 \<le> k" by simp
  have w: "0 \<le> cs_send_window c" "0 \<le> cs_recv_window c" using assms by (auto simp: conn_inv_def)
  then have "cs_send_window c + k \<le> i32_max \<Longrightarrow> as_i32 (cs_send_window c + k) = cs_send_window c + k"
    "cs_recv_window c + k \<le> i32_max \<Longrightarrow> as_i32 (cs_recv_window c + k) = cs_recv_window c + k"
    using k(2) by (auto intro!: as_i32_lit simp: i32_max_def)
  then show "conn_update_send_window n c = Inr c' \<Longrightarrow>
      cs_send_window c + uint n \<le> i32_max \<and> c' = c\<lparr>cs_send_window := cs_send_window c + uint n\<rparr>"
    and "conn_update_recv_window n c = Inr c' \<Longrightarrow>
      cs_recv_window c + uint n \<le> i32_max \<and> c' = c\<lparr>cs_recv_window := cs_recv_window c + uint n\<rparr>"
    by (auto simp: conn_update_send_window_def conn_update_recv_window_def Let_def k(1) split: if_splits)
qed

lemma conn_inv_windows:
  assumes "conn_inv c"
  shows "conn_inv (snd (conn_consume_send_window n c))"
    and "conn_consume_recv_window n c = Inr c' \<Longrightarrow> conn_inv c'"
    and "conn_update_send_window n c = Inr c' \<Longrightarrow> conn_inv c'"
    and "conn_update_recv_window n c = Inr c' \<Longrightarrow> conn_inv c'"
proof -
  obtain k where k: "uint n = k" "0 \<le> k" by simp
  have "min k (cs_send_window c) \<le> cs_send_window c" "cs_send_window c - min k (cs_send_window c) \<le> i32_max"
    using assms k(2) by (auto simp: conn_inv_def min_def)
  then show "conn_inv (snd (conn_consume_send_window n c))"
    using assms by (simp add: conn_consume_send_window_exact k(1)) (simp add: conn_inv_def)
  show "conn_consume_recv_window n c = Inr c' \<Longrightarrow> conn_inv c'"
    using conn_consume_recv_window_exact [OF assms, of n c'] assms k by (auto simp: conn_inv_def)
  show "conn_update_send_window n c = Inr c' \<Longrightarrow> conn_inv c'"
    using conn_update_window_exact(1) [OF assms, of n c'] assms k by (auto simp: conn_inv_def)
  show "conn_update_recv_window n c = Inr c' \<Longrightarrow> conn_inv c'"
    using conn_update_window_exact(2) [OF assms, of n c'] assms k by (auto simp: conn_inv_def)
qed

lemma conn_inv_misc:
  "conn_inv c \<Longrightarrow> conn_inv (conn_handle_goaway k e c)"
  "conn_inv c \<Longrightarrow> conn_inv (cleanup_closed_streams c)"
  "conn_inv c \<Longrightarrow> conn_inv (mark_preface_received c)"
  by (simp_all add: conn_inv_def conn_handle_goaway_def cleanup_closed_streams_def mark_preface_received_def
      Let_def streams_ok_filter)

lemma conn_inv_stream_step:
  assumes "conn_inv c" "get_stream c k = Some s" "op_ok op"
  shows "conn_inv (put_stream k (stream_step s op) c)"
proof -
  have "stream_inv s" "st_id s = k"
    using assms streams_ok_lookup [of "cs_streams c" k s] by (auto simp: conn_inv_def get_stream_def)
  moreover have "st_id (stream_step s op) = st_id s"
    by (cases op) (auto simp: stream_defs keep_def Let_def split: StreamState.split sum.split)
  ultimately show ?thesis using conn_inv_put [OF assms(1) stream_step_inv] assms(3) by simp
qed

subsection \<open>Runs\<close>

datatype conn_op =
    COpenStream | CGetOrCreate u32 | CProfileSettings "H2Setting list" | CRemoteSettings SettingsFrame
  | CDecodeBlock bytes | CTableSize nat | CEncode "(bytes \<times> bytes) list"
  | CEncodePolicy "(bytes \<times> bytes) list" hpack_policy
  | CConsumeSend u32 | CConsumeRecv u32 | CUpdateSend u32 | CUpdateRecv u32
  | CGoAway u32 u32 | CCleanup | CMarkPreface | CStream u32 stream_op

fun conn_step :: "'d hpack_ops \<Rightarrow> 'd ConnState \<Rightarrow> conn_op \<Rightarrow> 'd ConnState" where
  "conn_step ops c COpenStream = snd (open_stream c)"
| "conn_step ops c (CGetOrCreate k) = get_or_create_stream k c"
| "conn_step ops c (CProfileSettings ss) = apply_profile_settings ss c"
| "conn_step ops c (CRemoteSettings f) = snd (apply_remote_settings ops f c)"
| "conn_step ops c (CDecodeBlock b) = snd (decode_header_block ops b c)"
| "conn_step ops c (CTableSize n) = set_encoder_table_size n c"
| "conn_step ops c (CEncode hs) = snd (conn_encode_headers hs c)"
| "conn_step ops c (CEncodePolicy hs p) = snd (encode_headers_with_policy hs p c)"
| "conn_step ops c (CConsumeSend n) = snd (conn_consume_send_window n c)"
| "conn_step ops c (CConsumeRecv n) = keep c (conn_consume_recv_window n c)"
| "conn_step ops c (CUpdateSend n) = keep c (conn_update_send_window n c)"
| "conn_step ops c (CUpdateRecv n) = keep c (conn_update_recv_window n c)"
| "conn_step ops c (CGoAway k e) = conn_handle_goaway k e c"
| "conn_step ops c CCleanup = cleanup_closed_streams c"
| "conn_step ops c CMarkPreface = mark_preface_received c"
| "conn_step ops c (CStream k op) =
     (case get_stream c k of Some s \<Rightarrow> put_stream k (stream_step s op) c | None \<Rightarrow> c)"

text \<open>
  The initial window of a stream changes only inside \<^verbatim>\<open>apply_remote_settings\<close>, with a value that was
  validated; it is not among the stream operations that other modules call.
\<close>

fun conn_op_ok :: "conn_op \<Rightarrow> bool" where
  "conn_op_ok (CStream k op) = op_ok op"
| "conn_op_ok _ = True"

lemma keep_inv: "P s \<Longrightarrow> (\<And>s'. r = Inr s' \<Longrightarrow> P s') \<Longrightarrow> P (keep s r)"
  by (cases r) auto

lemma conn_step_inv:
  assumes inv: "conn_inv c" and ok: "conn_op_ok op"
  shows "conn_inv (conn_step ops c op)"
proof (cases op)
  case (CRemoteSettings f)
  then show ?thesis using conn_inv_remote [OF inv] by (metis conn_step.simps(4) prod.collapse)
next
  case (CDecodeBlock b)
  then show ?thesis using conn_inv_decode [OF inv] by (metis conn_step.simps(5) prod.collapse)
next
  case (CEncode hs)
  then show ?thesis using conn_inv_encode(1) [OF inv] by (metis conn_step.simps(7) prod.collapse)
next
  case (CEncodePolicy hs p)
  then show ?thesis using conn_inv_encode(2) [OF inv] by (metis conn_step.simps(8) prod.collapse)
next
  case (CStream k sop)
  then show ?thesis using conn_inv_stream_step [OF inv] ok inv by (auto split: option.split)
next
  case (CConsumeRecv n)
  then show ?thesis using keep_inv [of conn_inv, OF inv conn_inv_windows(2) [OF inv]] by simp
next
  case (CUpdateSend n)
  then show ?thesis using keep_inv [of conn_inv, OF inv conn_inv_windows(3) [OF inv]] by simp
next
  case (CUpdateRecv n)
  then show ?thesis using keep_inv [of conn_inv, OF inv conn_inv_windows(4) [OF inv]] by simp
qed (use inv in \<open>simp_all add: conn_inv_open conn_inv_get_or_create conn_inv_profile conn_inv_table_size
       conn_inv_windows(1) conn_inv_misc\<close>)

lemma conn_run_inv:
  "conn_inv c \<Longrightarrow> list_all conn_op_ok cops \<Longrightarrow> conn_inv (foldl (conn_step ops) c cops)"
  by (induction cops arbitrary: c) (simp_all add: conn_step_inv)

subsection \<open>Settings move the send windows\<close>

lemma settings_shift:
  assumes "\<forall>(k, s) \<in> set ss. stream_inv s" and "initial_window_loop w ss = (None, ss')"
  shows "map (\<lambda>(k, s). (k, st_send_window s - uint (st_initial_window_size s))) ss' =
           map (\<lambda>(k, s). (k, st_send_window s - uint (st_initial_window_size s))) ss \<and>
         list_all (\<lambda>(k, s). st_initial_window_size s = w) ss'"
  using assms
proof (induction w ss arbitrary: ss' rule: initial_window_loop.induct)
  case (2 w k s ss)
  obtain s' where s': "apply_initial_window_size w s = Inr s'"
    using "2.prems" by (auto split: sum.splits prod.splits)
  obtain r2 ss2 where l: "initial_window_loop w ss = (r2, ss2)" by fastforce
  have eqs: "r2 = None" "ss' = (k, s') # ss2" using "2.prems"(2) s' l by auto
  have "stream_inv s" using "2.prems"(1) by simp
  then have "st_send_window s' - uint (st_initial_window_size s') = st_send_window s - uint (st_initial_window_size s)"
    "st_initial_window_size s' = w"
    using s' by (auto simp: apply_initial_window_size_exact Let_def split: if_splits)
  then show ?case using "2.IH" [OF s', of ss2] "2.prems"(1) l eqs by simp
qed simp

subsection \<open>Properties\<close>

text \<open>
  C15. Connection invariant: from a new connection, any sequence of operations (streams opened and
  created, SETTINGS of both sides, header blocks, window traffic, GOAWAY, cleanup, and any operation on
  any stream) keeps all settings within the limits of RFC 7540, the connection windows between
  0 and \<open>2 ^ 31 - 1\<close>, every stream within the stream invariant, stream keys unique, and the parity
  of the next stream id.
\<close>

theorem connection_invariant:
  assumes "list_all conn_op_ok cops"
  shows "conn_inv (foldl (conn_step ops) (conn_new ops is_client) cops)"
  using assms by (simp add: conn_run_inv)

definition unit_hpack :: "unit hpack_ops" where
  "unit_hpack = \<lparr>ho_new = (), ho_decode = (\<lambda>d b. (Inr [], d)), ho_set_max_table_size = (\<lambda>n d. d)\<rparr>"

theorem connection_invariant_witness:
  "let cops = [CProfileSettings (pr_settings chrome_144_h2), COpenStream, CStream 1 (OpConsumeSend 70000),
               CRemoteSettings \<lparr>sf_ack = False, sf_settings = [\<lparr>sp_id = 4, sp_value = 100\<rparr>]\<rparr>,
               CConsumeSend 70000, CUpdateSend 5]
   in list_all conn_op_ok cops \<and> conn_inv (foldl (conn_step unit_hpack) (conn_new unit_hpack True) cops)"
  unfolding Let_def
  by (intro conjI connection_invariant) simp_all

text \<open>
  C20. A SETTINGS frame that is accepted moves the send window of every stream by exactly the difference
  between the new and the old initial window, and leaves every stream at the initial window that
  the remote settings now have; streams are neither added nor removed.
\<close>

theorem settings_shift_send_windows:
  assumes "conn_inv c" and "\<not> sf_ack f" and "apply_remote_settings ops f c = (Inr (), c')"
  shows "map (\<lambda>(k, s). (k, st_send_window s - uint (st_initial_window_size s))) (cs_streams c') =
           map (\<lambda>(k, s). (k, st_send_window s - uint (st_initial_window_size s))) (cs_streams c) \<and>
         list_all (\<lambda>(k, s). st_initial_window_size s = hs_initial_window_size (cs_remote_settings c')) (cs_streams c')"
proof -
  obtain e remote where l: "remote_settings_loop (sf_settings f) (cs_remote_settings c) = (e, remote)" by fastforce
  obtain e2 ss where l2: "initial_window_loop (hs_initial_window_size remote) (cs_streams c) = (e2, ss)" by fastforce
  have "e2 = None" "c' = c\<lparr>cs_remote_settings := remote, cs_streams := ss\<rparr>"
    using assms(2,3) l l2 by (auto simp: apply_remote_settings_def Let_def split: option.splits)
  moreover have "\<forall>(k, s) \<in> set (cs_streams c). stream_inv s"
    using assms(1) by (auto simp: conn_inv_def streams_ok_def)
  ultimately show ?thesis using settings_shift [of "cs_streams c"] l2 by simp
qed

theorem settings_shift_send_windows_witness:
  "let c = snd (open_stream (conn_new unit_hpack True));
       f = \<lparr>sf_ack = False, sf_settings = [\<lparr>sp_id = 4, sp_value = 100\<rparr>]\<rparr>;
       c' = snd (apply_remote_settings unit_hpack f c)
   in map (\<lambda>(k, s). (k, st_send_window s)) (cs_streams c') = [(1, 100)] \<and>
      list_all (\<lambda>(k, s). st_initial_window_size s = hs_initial_window_size (cs_remote_settings c')) (cs_streams c')"
proof -
  let ?c = "snd (open_stream (conn_new unit_hpack True))"
  let ?f = "\<lparr>sf_ack = False, sf_settings = [\<lparr>sp_id = 4, sp_value = 100\<rparr>]\<rparr>"
  have inv: "conn_inv ?c" by (rule conn_inv_open [OF conn_inv_new])
  obtain r c' where ar: "apply_remote_settings unit_hpack ?f ?c = (r, c')" by fastforce
  note eval = apply_remote_settings_def open_stream_def conn_new_def settings_apply_def settings_id_from_u16_def
    settings_default_def settings_client_def put_stream_def stream_open_def new_with_windows_def
    effective_local_initial_window_size_def apply_initial_window_size_def DEFAULT_INITIAL_WINDOW_SIZE_def
    i32_max_def as_i32_lit Let_def
  have "r = Inr ()" "map (\<lambda>(k, s). (k, st_send_window s)) (cs_streams c') = [(1, 100)]"
    using ar by (auto simp: eval)
  moreover have "list_all (\<lambda>(k, s). st_initial_window_size s = hs_initial_window_size (cs_remote_settings c')) (cs_streams c')"
    using settings_shift_send_windows [OF inv, of ?f unit_hpack c'] ar calculation(1) by simp
  ultimately show ?thesis using ar by (simp add: Let_def)
qed

text \<open>
  A profile that the settings code accepts whole, and whose initial WINDOW_UPDATE does not overflow the connection window.
\<close>

definition profile_ok :: "H2Profile \<Rightarrow> bool" where
  "profile_ok p \<longleftrightarrow>
     fst (remote_settings_loop (map setting_parameter (pr_settings p)) settings_client) = None \<and>
     settings_ok (snd (remote_settings_loop (map setting_parameter (pr_settings p)) settings_client)) \<and>
     pr_window_update p \<noteq> 0 \<and>
     uint (pr_window_update p) + 65535 \<le> i32_max \<and>
     distinct (pr_pseudo_header_order p) \<and> length (pr_pseudo_header_order p) = 4"

definition builtin_profiles :: "H2Profile list" where
  "builtin_profiles =
     [chrome_131_h2, chrome_144_h2, chrome_145_h2, chrome_146_h2, chrome_147_h2, chrome_148_h2,
      chrome_149_h2, chrome_150_h2, chrome_151_h2, firefox_133_h2, firefox_147_h2, safari_18_h2, safari_26_h2]"

lemmas profile_ok_eval =
  profile_ok_def setting_def setting_parameter_def settings_apply_def settings_id_from_u16_def settings_ok_def
  settings_client_def settings_default_def i32_max_def DEFAULT_INITIAL_WINDOW_SIZE_def

lemma chrome_profiles_ok: "profile_ok chrome_144_h2" "profile_ok chrome_145_h2"
  by (simp_all add: profile_ok_eval chrome_144_h2_def chrome_145_h2_def)

lemma firefox_profiles_ok: "profile_ok firefox_133_h2" "profile_ok firefox_147_h2"
  by (simp_all add: profile_ok_eval firefox_133_h2_def firefox_147_h2_def)

lemma safari_profiles_ok: "profile_ok safari_18_h2" "profile_ok safari_26_h2"
  by (simp_all add: profile_ok_eval safari_18_h2_def safari_26_h2_def)

text \<open>All built-in profiles are well-formed in this sense.\<close>

lemma builtin_profiles_accepted: "list_all profile_ok builtin_profiles"
  using chrome_profiles_ok firefox_profiles_ok safari_profiles_ok
  by (simp add: builtin_profiles_def chrome_131_h2_def chrome_146_h2_def chrome_147_h2_def chrome_148_h2_def
      chrome_149_h2_def chrome_150_h2_def chrome_151_h2_def)

end
