(* ===== verification/H2_Assembler.thy ===== *)
theory H2_Assembler
  imports Prelude
begin

text \<open>
  The reassembly of HEADERS and CONTINUATION frames, \<^verbatim>\<open>ContinuationAssembler\<close> of
  \<^verbatim>\<open>lkh2/src/engine.rs\<close>: the buffers by stream, their limits and the stream whose block is being
  assembled.
\<close>

subsection \<open>The assembler\<close>

definition DEFAULT_MAX_HEADER_BLOCK_SIZE :: nat where
  "DEFAULT_MAX_HEADER_BLOCK_SIZE = 256 * 1024"

definition MAX_CONTINUATION_FRAMES :: nat where
  "MAX_CONTINUATION_FRAMES = 64"

text \<open>A buffer is \<^verbatim>\<open>(buf, end_stream, continuation_count)\<close>.\<close>

record ContinuationAssembler =
  ca_bufs :: "(u32 \<times> bytes \<times> bool \<times> nat) list"
  ca_active_stream :: "u32 option"
  ca_max_header_block_size :: nat

datatype AssemblyResult = Incomplete | Complete u32 bytes bool | AssemblyError string

definition assembler_new :: ContinuationAssembler where
  "assembler_new =
     \<lparr>ca_bufs = [], ca_active_stream = None, ca_max_header_block_size = DEFAULT_MAX_HEADER_BLOCK_SIZE\<rparr>"

definition set_max_header_block_size :: "nat \<Rightarrow> ContinuationAssembler \<Rightarrow> ContinuationAssembler" where
  "set_max_header_block_size n a = a\<lparr>ca_max_header_block_size := n\<rparr>"

definition assembler_is_active :: "ContinuationAssembler \<Rightarrow> bool" where
  "assembler_is_active a \<longleftrightarrow> ca_active_stream a \<noteq> None"

definition push_headers ::
  "u32 \<Rightarrow> bytes \<Rightarrow> bool \<Rightarrow> bool \<Rightarrow> ContinuationAssembler \<Rightarrow> AssemblyResult \<times> ContinuationAssembler" where
  "push_headers stream_id header_block end_stream end_headers a =
     (if end_headers then (Complete stream_id header_block end_stream, a)
      else if length header_block > ca_max_header_block_size a
      then (AssemblyError (''header block size '' @ show_nat (length header_block) @ '' exceeds limit '' @
              show_nat (ca_max_header_block_size a)), a)
      else (Incomplete,
            a\<lparr>ca_bufs := AList.update stream_id (header_block, end_stream, 0) (ca_bufs a),
              ca_active_stream := Some stream_id\<rparr>))"

text \<open>The limit check before a fragment is appended.\<close>

definition continuation_overflow :: "u32 \<Rightarrow> bytes \<Rightarrow> ContinuationAssembler \<Rightarrow> string option" where
  "continuation_overflow stream_id header_block a =
     (case map_of (ca_bufs a) stream_id of
        Some (buf, _, count) \<Rightarrow>
          let new_count = count + 1; new_len = length buf + length header_block in
          if new_count > MAX_CONTINUATION_FRAMES
          then Some (''too many CONTINUATION frames ('' @ show_nat new_count @ '') for stream '' @
                 show_nat (unat stream_id))
          else if new_len > ca_max_header_block_size a
          then Some (''accumulated header block size '' @ show_nat new_len @ '' exceeds limit '' @
                 show_nat (ca_max_header_block_size a))
          else None
      | None \<Rightarrow> None)"

definition push_continuation ::
  "u32 \<Rightarrow> bytes \<Rightarrow> bool \<Rightarrow> ContinuationAssembler \<Rightarrow> AssemblyResult \<times> ContinuationAssembler" where
  "push_continuation stream_id header_block end_headers a =
     (case ca_active_stream a of
        None \<Rightarrow>
          (AssemblyError (''CONTINUATION received for stream '' @ show_nat (unat stream_id) @
             '' without preceding HEADERS''), a)
      | Some expected \<Rightarrow>
          if expected \<noteq> stream_id
          then (AssemblyError (''unexpected CONTINUATION for stream '' @ show_nat (unat stream_id) @
                  '', expected '' @ show_nat (unat expected)), a)
          else
            case continuation_overflow stream_id header_block a of
              Some msg \<Rightarrow>
                (AssemblyError msg,
                 a\<lparr>ca_bufs := AList.delete stream_id (ca_bufs a), ca_active_stream := None\<rparr>)
            | None \<Rightarrow>
                let a1 = (case map_of (ca_bufs a) stream_id of
                            Some (buf, end_stream, count) \<Rightarrow>
                              a\<lparr>ca_bufs := AList.update stream_id (buf @ header_block, end_stream, count + 1)
                                            (ca_bufs a)\<rparr>
                          | None \<Rightarrow> a)
                in if end_headers
                   then (case map_of (ca_bufs a1) stream_id of
                           Some (block, end_stream, _) \<Rightarrow>
                             (Complete stream_id block end_stream,
                              a1\<lparr>ca_bufs := AList.delete stream_id (ca_bufs a1), ca_active_stream := None\<rparr>)
                         | None \<Rightarrow> (Incomplete, a1))
                   else (Incomplete, a1))"

subsection \<open>Limits\<close>

text \<open>Every buffer within its limits, and a block in progress has its buffer.\<close>

definition assembler_inv :: "ContinuationAssembler \<Rightarrow> bool" where
  "assembler_inv a \<longleftrightarrow>
     (\<forall>k buf es n. map_of (ca_bufs a) k = Some (buf, es, n) \<longrightarrow>
        length buf \<le> ca_max_header_block_size a \<and> n \<le> MAX_CONTINUATION_FRAMES) \<and>
     (\<forall>k. ca_active_stream a = Some k \<longrightarrow> map_of (ca_bufs a) k \<noteq> None)"

lemma assembler_inv_new [simp]: "assembler_inv (set_max_header_block_size n assembler_new)" "assembler_inv assembler_new"
  by (simp_all add: assembler_inv_def assembler_new_def set_max_header_block_size_def)

lemma push_headers_inv:
  "assembler_inv a \<Longrightarrow> push_headers k b es eh a = (r, a') \<Longrightarrow>
   assembler_inv a' \<and> ca_max_header_block_size a' = ca_max_header_block_size a"
  by (auto simp: push_headers_def assembler_inv_def update_conv' split: if_splits)

lemma overflow_None:
  "continuation_overflow k b a = None \<Longrightarrow> map_of (ca_bufs a) k = Some (buf, es, n) \<Longrightarrow>
   length (buf @ b) \<le> ca_max_header_block_size a \<and> n + 1 \<le> MAX_CONTINUATION_FRAMES"
  by (auto simp: continuation_overflow_def Let_def split: if_splits)

lemma push_continuation_inv:
  assumes inv: "assembler_inv a" and p: "push_continuation k b eh a = (r, a')"
  shows "assembler_inv a' \<and> ca_max_header_block_size a' = ca_max_header_block_size a"
proof (cases "ca_active_stream a = Some k")
  case False
  then have "a' = a" using p by (auto simp: push_continuation_def split: option.splits if_splits)
  then show ?thesis using inv by simp
next
  case active: True
  then obtain buf es n where buf: "map_of (ca_bufs a) k = Some (buf, es, n)"
    using inv by (auto simp: assembler_inv_def)
  show ?thesis
  proof (cases "continuation_overflow k b a")
    case (Some msg)
    then show ?thesis
      using p active inv by (auto simp: push_continuation_def assembler_inv_def delete_conv' split: if_splits)
  next
    case None
    show ?thesis
      using p active inv None buf overflow_None [OF None buf]
      by (cases eh) (auto simp: push_continuation_def assembler_inv_def update_conv' delete_conv' Let_def split: if_splits)
  qed
qed

subsection \<open>Reassembly\<close>

text \<open>The exact effect of a fragment that fits.\<close>

lemma push_continuation_fits:
  assumes "ca_active_stream a = Some k" "map_of (ca_bufs a) k = Some (buf, es, n)"
    and "length buf + length b \<le> ca_max_header_block_size a" "n < MAX_CONTINUATION_FRAMES"
  shows "push_continuation k b eh a =
    (if eh then (Complete k (buf @ b) es,
        a\<lparr>ca_bufs := AList.delete k (AList.update k (buf @ b, es, n + 1) (ca_bufs a)), ca_active_stream := None\<rparr>)
     else (Incomplete, a\<lparr>ca_bufs := AList.update k (buf @ b, es, n + 1) (ca_bufs a)\<rparr>))"
  using assms by (auto simp: push_continuation_def continuation_overflow_def Let_def update_conv')

text \<open>Feed the fragments after the first, the last one with END_HEADERS.\<close>

fun push_fragments :: "u32 \<Rightarrow> bytes list \<Rightarrow> ContinuationAssembler \<Rightarrow> AssemblyResult \<times> ContinuationAssembler" where
  "push_fragments k [] a = (Incomplete, a)"
| "push_fragments k [b] a = push_continuation k b True a"
| "push_fragments k (b # bs) a =
     (case push_continuation k b False a of
        (Incomplete, a') \<Rightarrow> push_fragments k bs a'
      | (r, a') \<Rightarrow> (r, a'))"

lemma push_fragments_complete:
  assumes "bs \<noteq> []" "ca_active_stream a = Some k" "map_of (ca_bufs a) k = Some (buf, es, n)"
    and "length buf + length (concat bs) \<le> ca_max_header_block_size a" "n + length bs \<le> MAX_CONTINUATION_FRAMES"
  shows "fst (push_fragments k bs a) = Complete k (buf @ concat bs) es \<and>
         ca_active_stream (snd (push_fragments k bs a)) = None \<and>
         map_of (ca_bufs (snd (push_fragments k bs a))) = (map_of (ca_bufs a))(k := None)"
  using assms
proof (induction k bs a arbitrary: buf n rule: push_fragments.induct)
  case (2 k b a)
  then show ?case
    by (auto simp: push_continuation_fits delete_conv' update_conv')
next
  case (3 k b b' bs a)
  let ?a = "a\<lparr>ca_bufs := AList.update k (buf @ b, es, n + 1) (ca_bufs a)\<rparr>"
  have p: "push_continuation k b False a = (Incomplete, ?a)"
    using "3.prems" by (subst push_continuation_fits) auto
  have "fst (push_fragments k (b' # bs) ?a) = Complete k ((buf @ b) @ concat (b' # bs)) es \<and>
         ca_active_stream (snd (push_fragments k (b' # bs) ?a)) = None \<and>
         map_of (ca_bufs (snd (push_fragments k (b' # bs) ?a))) = (map_of (ca_bufs ?a))(k := None)"
    using "3.prems" by (intro "3.IH" [OF p [symmetric]]) (auto simp add: update_conv')
  then show ?case using p by (simp add: update_conv')
qed simp

subsection \<open>Properties\<close>

datatype frame_fragment = HeadersFragment u32 bytes bool bool | ContinuationFragment u32 bytes bool

fun assembler_step :: "ContinuationAssembler \<Rightarrow> frame_fragment \<Rightarrow> ContinuationAssembler" where
  "assembler_step a (HeadersFragment k b es eh) = snd (push_headers k b es eh a)"
| "assembler_step a (ContinuationFragment k b eh) = snd (push_continuation k b eh a)"

lemma assembler_step_inv:
  "assembler_inv a \<Longrightarrow>
   assembler_inv (assembler_step a f) \<and> ca_max_header_block_size (assembler_step a f) = ca_max_header_block_size a"
  using push_headers_inv [OF _ surjective_pairing] push_continuation_inv [OF _ surjective_pairing]
  by (cases f) simp_all

lemma assembler_run_inv:
  "assembler_inv a \<Longrightarrow>
   assembler_inv (foldl assembler_step a fs) \<and>
   ca_max_header_block_size (foldl assembler_step a fs) = ca_max_header_block_size a"
  by (induction fs arbitrary: a) (simp_all add: assembler_step_inv)

text \<open>
  C24. Whatever HEADERS and CONTINUATION frames the peer sends, each header block under assembly holds
  at most the configured number of bytes and at most 64 continuation fragments, and a
  block in progress always has its buffer.
\<close>

theorem assembler_limits:
  "let a = foldl assembler_step (set_max_header_block_size limit assembler_new) fs
   in (case map_of (ca_bufs a) k of None \<Rightarrow> True | Some (buf, es, n) \<Rightarrow> length buf \<le> limit \<and> n \<le> 64) \<and>
      (case ca_active_stream a of None \<Rightarrow> True | Some s \<Rightarrow> map_of (ca_bufs a) s \<noteq> None)"
  using assembler_run_inv [OF assembler_inv_new(1) [of limit], of fs]
  by (auto simp: assembler_inv_def Let_def set_max_header_block_size_def MAX_CONTINUATION_FRAMES_def
      split: option.split)

lemma headers_flood:
  assumes "distinct ks" "length b \<le> ca_max_header_block_size a"
  shows "map_of (ca_bufs (foldl assembler_step a (map (\<lambda>k. HeadersFragment k b False False) ks))) j =
    (if j \<in> set ks then Some (b, False, 0) else map_of (ca_bufs a) j)"
  using assms
  by (induction ks arbitrary: a) (auto simp: push_headers_def update_conv')

text \<open>
  The limits are per stream only: HEADERS frames without END_HEADERS on \<open>n\<close> different streams leave
  \<open>n\<close> buffers of full size behind, since a new HEADERS frame does not end or replace the block in
  progress on another stream. The memory that a peer can hold is not bounded by the block limit.
\<close>

theorem assembler_total_unbounded:
  assumes "distinct ks" "length b \<le> limit"
  shows "let a = foldl assembler_step (set_max_header_block_size limit assembler_new)
                   (map (\<lambda>k. HeadersFragment k b False False) ks)
         in \<forall>j. map_of (ca_bufs a) j = (if j \<in> set ks then Some (b, False, 0) else None)"
  using headers_flood [OF assms(1), of b "set_max_header_block_size limit assembler_new"] assms(2)
  by (simp add: set_max_header_block_size_def assembler_new_def)

theorem assembler_total_unbounded_witness:
  "let a = foldl assembler_step (set_max_header_block_size 3 assembler_new)
             (map (\<lambda>k. HeadersFragment k [1, 2, 3] False False) [1, 3, 5, 7])
   in map_of (ca_bufs a) 1 = Some ([1, 2, 3], False, 0) \<and> map_of (ca_bufs a) 7 = Some ([1, 2, 3], False, 0)"
  using assembler_total_unbounded [of "[1, 3, 5, 7]" "[1, 2, 3]" 3] by (simp only: Let_def) simp

end
