(* ===== verification/H2_Engine.thy ===== *)
theory H2_Engine
  imports H2_Conn H2_Codec H2_Assembler "HOL-Library.Monad_Syntax"
begin

text \<open>
  The connection engine of \<^verbatim>\<open>lkh2/src/engine.rs\<close>: bytes in, events and frames out, no I/O. A handler
  returns the engine together with the events and the frames that it pushes, in order; the loop of
  \<^verbatim>\<open>process\<close> appends them. A \<^verbatim>\<open>while\<close> loop of the code that a zero frame size would keep
  running is a \<open>partial_function\<close> into \<open>option\<close>, with \<open>None\<close> for not returning.

  Parameters: the HPACK decoder of \<^verbatim>\<open>fluke_hpack\<close> and the methods of the boxed flow control policy
  (\<open>engine_ops\<close>), and \<^verbatim>\<open>HeaderValue::to_str\<close> of the \<^verbatim>\<open>http\<close> crate. The two vectors kept for reuse of
  their capacity (\<^verbatim>\<open>event_buf\<close>, \<^verbatim>\<open>outbound_buf\<close>) are always empty and have no field.
\<close>

subsection \<open>Events and state\<close>

datatype H2Event =
    EvSettingsAcked
  | EvLocalSettingsAcked
  | EvResponseHeaders u32 "(bytes \<times> bytes) list" bool
  | EvResponseData u32 bytes bool
  | EvStreamReset u32 u32
  | EvPingAck
  | EvGoAway u32 u32 bytes
  | EvWindowUpdate u32 u32
  | EvError string

record PendingBodyData =
  pd_stream_id :: u32
  pd_data :: bytes
  pd_end_stream :: bool

record ('d, 'f) H2Engine =
  en_codec :: H2Codec
  en_state :: "'d ConnState"
  en_pseudo_header_order :: "PseudoHeaderId list"
  en_continuation :: ContinuationAssembler
  en_remote_settings_received :: bool
  en_headers_priority :: "PrioritySpec option"
  en_priority_config :: PriorityConfig
  en_last_client_stream_id :: "u32 option"
  en_flow_control :: 'f
  en_hpack_policy :: "hpack_policy option"
  en_last_peer_stream_id :: u32
  en_conn_initial_recv_window :: u32
  en_pending_data :: "PendingBodyData list"

record ('d, 'f) engine_ops =
  eo_hpack :: "'d hpack_ops"
  eo_on_data_received :: "'f \<Rightarrow> u32 \<Rightarrow> u32 \<Rightarrow> i32 \<Rightarrow> u32 \<Rightarrow> u32 option \<times> 'f"
  eo_on_stream_closed :: "'f \<Rightarrow> u32 \<Rightarrow> 'f"

type_synonym ('d, 'f) handled = "('d, 'f) H2Engine \<times> H2Event list \<times> H2Frame list"

text \<open>\<^verbatim>\<open>if let Some(stream) = self.state.get_stream_mut(id) { ... }\<close> with no other branch.\<close>

definition modify_stream :: "u32 \<Rightarrow> (H2Stream \<Rightarrow> H2Stream) \<Rightarrow> 'd ConnState \<Rightarrow> 'd ConnState" where
  "modify_stream stream_id f c =
     (case get_stream c stream_id of Some s \<Rightarrow> put_stream stream_id (f s) c | None \<Rightarrow> c)"

definition u32_saturating_add :: "u32 \<Rightarrow> u32 \<Rightarrow> u32" where
  "u32_saturating_add a b = (if uint a + uint b > 4294967295 then 4294967295 else a + b)"

subsection \<open>Construction\<close>

definition client_with_policies ::
  "('d, 'f) engine_ops \<Rightarrow> H2Profile \<Rightarrow> 'f \<Rightarrow> hpack_policy option \<Rightarrow> ('d, 'f) H2Engine \<times> H2Frame list" where
  "client_with_policies ops profile flow_control policy =
     (let preface_frames = to_preface_frames profile;
          headers_priority = to_headers_priority_spec profile;
          state1 = apply_profile_settings (pr_settings profile) (conn_client (eo_hpack ops));
          state2 = (if pr_window_update profile > 0
                    then keep state1 (conn_update_recv_window (pr_window_update profile) state1) else state1);
          continuation =
            (case find (\<lambda>s. se_id s = SI_MaxHeaderListSize) (pr_settings profile) of
               Some mhls \<Rightarrow> set_max_header_block_size (unat (se_value mhls)) assembler_new
             | None \<Rightarrow> assembler_new);
          codec =
            (case find (\<lambda>s. se_id s = SI_MaxFrameSize) (pr_settings profile) of
               Some mfs \<Rightarrow> set_max_frame_size (se_value mfs) codec_new
             | None \<Rightarrow> codec_new)
      in (\<lparr>en_codec = codec,
           en_state = state2,
           en_pseudo_header_order = pr_pseudo_header_order profile,
           en_continuation = continuation,
           en_remote_settings_received = False,
           en_headers_priority = headers_priority,
           en_priority_config = pr_priority_config profile,
           en_last_client_stream_id = None,
           en_flow_control = flow_control,
           en_hpack_policy = policy,
           en_last_peer_stream_id = 0,
           en_conn_initial_recv_window = u32_saturating_add 65535 (pr_window_update profile),
           en_pending_data = []\<rparr>,
          preface_frames))"

definition dyn_ops :: "'d hpack_ops \<Rightarrow> ('d, FlowControl) engine_ops" where
  "dyn_ops hpack = \<lparr>eo_hpack = hpack, eo_on_data_received = flow_on_data_received,
                    eo_on_stream_closed = flow_on_stream_closed\<rparr>"

definition engine_client :: "'d hpack_ops \<Rightarrow> H2Profile \<Rightarrow> ('d, FlowControl) H2Engine \<times> H2Frame list" where
  "engine_client hpack profile = client_with_policies (dyn_ops hpack) profile Immediate None"

subsection \<open>Frames that the engine makes\<close>

definition make_rst_stream :: "u32 \<Rightarrow> u32 \<Rightarrow> ('d, 'f) H2Engine \<Rightarrow> H2Frame \<times> ('d, 'f) H2Engine" where
  "make_rst_stream stream_id error_code e =
     (RstStream \<lparr>rf_stream_id = stream_id, rf_error_code = error_code\<rparr>,
      e\<lparr>en_state := modify_stream stream_id stream_reset (en_state e)\<rparr>)"

definition make_window_update :: "u32 \<Rightarrow> u32 \<Rightarrow> H2Frame" where
  "make_window_update stream_id increment =
     WindowUpdate \<lparr>wf_stream_id = stream_id, wf_increment = increment\<rparr>"

definition make_settings_ack :: H2Frame where
  "make_settings_ack = Settings \<lparr>sf_ack = True, sf_settings = []\<rparr>"

definition make_goaway :: "('d, 'f) H2Engine \<Rightarrow> H2ErrorCode \<Rightarrow> H2Frame" where
  "make_goaway e error_code =
     GoAway \<lparr>gf_last_stream_id = en_last_peer_stream_id e, gf_error_code = error_code_as_u32 error_code,
             gf_debug_data = []\<rparr>"

definition make_ping_ack :: "bytes \<Rightarrow> H2Frame" where
  "make_ping_ack data = Ping \<lparr>pgf_ack = True, pgf_data = data\<rparr>"

definition engine_can_open_stream :: "('d, 'f) H2Engine \<Rightarrow> bool" where
  "engine_can_open_stream e = can_open_stream (en_state e)"

definition engine_open_stream :: "('d, 'f) H2Engine \<Rightarrow> u32 \<times> ('d, 'f) H2Engine" where
  "engine_open_stream e = (let (k, c) = open_stream (en_state e) in (k, e\<lparr>en_state := c\<rparr>))"

definition is_goaway :: "('d, 'f) H2Engine \<Rightarrow> bool" where
  "is_goaway e = has_error (en_state e)"

definition engine_send_window :: "('d, 'f) H2Engine \<Rightarrow> i32" where
  "engine_send_window e = cs_send_window (en_state e)"

text \<open>Encoding into an output buffer, frame after frame.\<close>

definition encode_frames :: "H2Frame list \<Rightarrow> bytes \<Rightarrow> bytes" where
  "encode_frames frames output = fold encode frames output"

subsection \<open>Request headers\<close>

definition resolve_priority :: "('d, 'f) H2Engine \<Rightarrow> RequestPriority option \<Rightarrow> PrioritySpec option" where
  "resolve_priority e req_priority =
     (let cfg = en_priority_config e;
          rp = effective_priority cfg req_priority
      in case weight_for_urgency cfg (rp_urgency rp) of
           Some weight \<Rightarrow>
             (let dep = (case pc_stream_dep_policy cfg of
                           Flat \<Rightarrow> 0
                         | Chain \<Rightarrow> (case en_last_client_stream_id e of Some k \<Rightarrow> k | None \<Rightarrow> 0))
              in Some \<lparr>ps_exclusive = pc_exclusive cfg, ps_stream_dependency = dep, ps_weight = weight\<rparr>)
         | None \<Rightarrow> en_headers_priority e)"

text \<open>The CONTINUATION loop of \<^verbatim>\<open>build_headers\<close>.\<close>

partial_function (option) continuation_loop :: "u32 \<Rightarrow> nat \<Rightarrow> bytes \<Rightarrow> H2Frame list \<Rightarrow> H2Frame list option" where
  "continuation_loop stream_id max_frame_size remaining frames =
     (if remaining = [] then Some frames
      else
        let chunk_len = min (length remaining) max_frame_size;
            chunk = take chunk_len remaining;
            remaining' = drop chunk_len remaining
        in continuation_loop stream_id max_frame_size remaining'
             (frames @ [Continuation \<lparr>cf_stream_id = stream_id, cf_header_block = chunk,
                                      cf_end_headers = (remaining' = [])\<rparr>]))"

definition build_headers ::
  "u32 \<Rightarrow> (bytes \<times> bytes) list \<Rightarrow> bool \<Rightarrow> RequestPriority option \<Rightarrow> ('d, 'f) H2Engine \<Rightarrow>
   (H2Frame list \<times> ('d, 'f) H2Engine) option" where
  "build_headers stream_id headers end_stream req_priority e =
     (let priority = resolve_priority e req_priority;
          (header_block, state1) =
            (case en_hpack_policy e of
               Some policy \<Rightarrow> encode_headers_with_policy headers policy (en_state e)
             | None \<Rightarrow> conn_encode_headers headers (en_state e));
          max_frame_size = unat (hs_max_frame_size (cs_remote_settings state1));
          priority_overhead = (if priority \<noteq> None then 5 else 0);
          first_max = max_frame_size - priority_overhead
      in do {
        frames \<leftarrow>
          (if length header_block \<le> first_max
           then Some [Headers \<lparr>hf_stream_id = stream_id, hf_header_block = header_block,
                               hf_end_stream = end_stream, hf_end_headers = True,
                               hf_priority = priority, hf_padding = None\<rparr>]
           else continuation_loop stream_id max_frame_size (drop first_max header_block)
                  [Headers \<lparr>hf_stream_id = stream_id, hf_header_block = take first_max header_block,
                            hf_end_stream = end_stream, hf_end_headers = False,
                            hf_priority = priority, hf_padding = None\<rparr>]);
        let state2 = (if end_stream then modify_stream stream_id (\<lambda>s. keep s (send_end_stream s)) state1
                      else state1);
        Some (frames, e\<lparr>en_state := state2, en_last_client_stream_id := Some stream_id\<rparr>)
      })"

definition send_headers ::
  "u32 \<Rightarrow> (bytes \<times> bytes) list \<Rightarrow> bool \<Rightarrow> bytes \<Rightarrow> ('d, 'f) H2Engine \<Rightarrow> (bytes \<times> ('d, 'f) H2Engine) option" where
  "send_headers stream_id headers end_stream output e = do {
     (frames, e1) \<leftarrow> build_headers stream_id headers end_stream None e;
     Some (fold encode frames output, e1)
   }"

subsection \<open>Request body\<close>

definition data_frame :: "u32 \<Rightarrow> bytes \<Rightarrow> bool \<Rightarrow> H2Frame" where
  "data_frame stream_id data end_stream =
     Data \<lparr>df_stream_id = stream_id, df_data = data, df_end_stream = end_stream, df_padding = None\<rparr>"

text \<open>
  The loop of \<^verbatim>\<open>build_data\<close>. The first component tells a loop that ran to its end from the early return of
  a blocked one.
\<close>

partial_function (option) build_data_loop ::
  "u32 \<Rightarrow> bool \<Rightarrow> nat \<Rightarrow> bytes \<Rightarrow> H2Frame list \<Rightarrow> ('d, 'f) H2Engine \<Rightarrow>
   (bool \<times> H2Frame list \<times> ('d, 'f) H2Engine) option" where
  "build_data_loop stream_id end_stream max_frame_size remaining frames e =
     (if remaining = [] then Some (True, frames, e)
      else
        let conn_avail = unat (conn_send_window_available (en_state e));
            stream_avail = (case get_stream (en_state e) stream_id of
                              Some s \<Rightarrow> unat (send_window_available s) | None \<Rightarrow> 0);
            window = min conn_avail stream_avail
        in if window = 0
           then Some (False, frames,
                  e\<lparr>en_pending_data := en_pending_data e @
                      [\<lparr>pd_stream_id = stream_id, pd_data = remaining, pd_end_stream = end_stream\<rparr>]\<rparr>)
           else
             let chunk_size = min (min (length remaining) max_frame_size) window;
                 chunk = take chunk_size remaining;
                 remaining' = drop chunk_size remaining;
                 state1 = snd (conn_consume_send_window (word_of_nat chunk_size) (en_state e));
                 state2 = modify_stream stream_id (\<lambda>s. snd (stream_consume_send_window (word_of_nat chunk_size) s)) state1;
                 is_last = (remaining' = []);
                 frame_end_stream = (end_stream \<and> is_last);
                 state3 = (if frame_end_stream then modify_stream stream_id (\<lambda>s. keep s (send_end_stream s)) state2
                           else state2)
             in build_data_loop stream_id end_stream max_frame_size remaining'
                  (frames @ [data_frame stream_id chunk frame_end_stream]) (e\<lparr>en_state := state3\<rparr>))"

definition build_data ::
  "u32 \<Rightarrow> bytes \<Rightarrow> bool \<Rightarrow> ('d, 'f) H2Engine \<Rightarrow> (H2Frame list \<times> ('d, 'f) H2Engine) option" where
  "build_data stream_id data end_stream e =
     (let max_frame_size = unat (hs_max_frame_size (cs_remote_settings (en_state e))) in do {
        (finished, frames, e1) \<leftarrow> build_data_loop stream_id end_stream max_frame_size data [] e;
        Some (if finished \<and> frames = [] \<and> end_stream
              then ([data_frame stream_id [] True],
                    e1\<lparr>en_state := modify_stream stream_id (\<lambda>s. keep s (send_end_stream s)) (en_state e1)\<rparr>)
              else (frames, e1))
      })"

definition send_data ::
  "u32 \<Rightarrow> bytes \<Rightarrow> bool \<Rightarrow> bytes \<Rightarrow> ('d, 'f) H2Engine \<Rightarrow> (bytes \<times> ('d, 'f) H2Engine) option" where
  "send_data stream_id data end_stream output e = do {
     (frames, e1) \<leftarrow> build_data stream_id data end_stream e;
     Some (fold encode frames output, e1)
   }"

fun drain_loop ::
  "PendingBodyData list \<Rightarrow> H2Frame list \<Rightarrow> ('d, 'f) H2Engine \<Rightarrow> (H2Frame list \<times> ('d, 'f) H2Engine) option" where
  "drain_loop [] frames e = Some (frames, e)"
| "drain_loop (pending # ps) frames e = do {
     (new_frames, e1) \<leftarrow> build_data (pd_stream_id pending) (pd_data pending) (pd_end_stream pending) e;
     drain_loop ps (frames @ new_frames) e1
   }"

definition drain_pending_data :: "('d, 'f) H2Engine \<Rightarrow> (H2Frame list \<times> ('d, 'f) H2Engine) option" where
  "drain_pending_data e = drain_loop (en_pending_data e) [] (e\<lparr>en_pending_data := []\<rparr>)"

definition send_rst_stream :: "u32 \<Rightarrow> u32 \<Rightarrow> bytes \<Rightarrow> ('d, 'f) H2Engine \<Rightarrow> bytes \<times> ('d, 'f) H2Engine" where
  "send_rst_stream stream_id error_code output e =
     (let (frame, e1) = make_rst_stream stream_id error_code e in (encode frame output, e1))"

definition send_window_update :: "u32 \<Rightarrow> u32 \<Rightarrow> bytes \<Rightarrow> bytes" where
  "send_window_update stream_id increment output = encode (make_window_update stream_id increment) output"

subsection \<open>Inbound frames\<close>

definition handle_settings ::
  "('d, 'f) engine_ops \<Rightarrow> SettingsFrame \<Rightarrow> ('d, 'f) H2Engine \<Rightarrow> ('d, 'f) handled" where
  "handle_settings ops frame e =
     (if sf_ack frame then
        (let (r, c) = apply_remote_settings (eo_hpack ops) frame (en_state e)
         in (e\<lparr>en_state := c\<rparr>,
             EvLocalSettingsAcked # (case r of Inl er \<Rightarrow> [EvError (connection_error_display er)] | Inr _ \<Rightarrow> []),
             []))
      else
        (let old_header_table_size = hs_header_table_size (cs_remote_settings (en_state e));
             (r, c) = apply_remote_settings (eo_hpack ops) frame (en_state e)
         in case r of
              Inl er \<Rightarrow> (e\<lparr>en_state := c\<rparr>, [EvError (connection_error_display er)], [make_goaway e EC_ProtocolError])
            | Inr _ \<Rightarrow>
                let new_header_table_size = hs_header_table_size (cs_remote_settings c);
                    c1 = (if new_header_table_size \<noteq> old_header_table_size
                          then set_encoder_table_size (unat new_header_table_size) c else c)
                in (e\<lparr>en_state := c1, en_remote_settings_received := True\<rparr>,
                    [EvSettingsAcked], [make_settings_ack])))"

definition complete_headers ::
  "('d, 'f) engine_ops \<Rightarrow> u32 \<Rightarrow> bytes \<Rightarrow> bool \<Rightarrow> ('d, 'f) H2Engine \<Rightarrow> ('d, 'f) handled" where
  "complete_headers ops stream_id header_block end_stream e =
     (let (r, c) = decode_header_block (eo_hpack ops) header_block (en_state e);
          e1 = e\<lparr>en_state := c\<rparr>
      in case r of
           Inl er \<Rightarrow>
             (e1, [EvError (''HPACK decode error on stream '' @ show_nat (unat stream_id) @ '': '' @
                     connection_error_display er)], [make_goaway e1 EC_CompressionError])
         | Inr headers \<Rightarrow>
             case get_stream c stream_id of
               None \<Rightarrow>
                 (e1, [EvError (''received HEADERS for unknown stream '' @ show_nat (unat stream_id))], [])
             | Some s \<Rightarrow>
                 (if end_stream then e1\<lparr>en_state := put_stream stream_id (keep s (recv_end_stream s)) c\<rparr> else e1,
                  [EvResponseHeaders stream_id headers end_stream], []))"

definition assembled ::
  "('d, 'f) engine_ops \<Rightarrow> AssemblyResult \<Rightarrow> ('d, 'f) H2Engine \<Rightarrow> ('d, 'f) handled" where
  "assembled ops r e =
     (case r of
        Complete stream_id header_block end_stream \<Rightarrow> complete_headers ops stream_id header_block end_stream e
      | Incomplete \<Rightarrow> (e, [], [])
      | AssemblyError msg \<Rightarrow> (e, [EvError msg], [make_goaway e EC_ProtocolError]))"

definition handle_headers ::
  "('d, 'f) engine_ops \<Rightarrow> HeadersFrame \<Rightarrow> ('d, 'f) H2Engine \<Rightarrow> ('d, 'f) handled" where
  "handle_headers ops frame e =
     (let (r, a) = push_headers (hf_stream_id frame) (hf_header_block frame) (hf_end_stream frame)
                     (hf_end_headers frame) (en_continuation e)
      in assembled ops r (e\<lparr>en_continuation := a\<rparr>))"

definition handle_continuation ::
  "('d, 'f) engine_ops \<Rightarrow> ContinuationFrame \<Rightarrow> ('d, 'f) H2Engine \<Rightarrow> ('d, 'f) handled" where
  "handle_continuation ops frame e =
     (let (r, a) = push_continuation (cf_stream_id frame) (cf_header_block frame) (cf_end_headers frame)
                     (en_continuation e)
      in assembled ops r (e\<lparr>en_continuation := a\<rparr>))"

definition flow_len :: "DataFrame \<Rightarrow> u32" where
  "flow_len frame =
     (case df_padding frame of
        Some pad \<Rightarrow> 1 + len_u32 (df_data frame) + ucast pad
      | None \<Rightarrow> len_u32 (df_data frame))"

text \<open>
  The part of \<^verbatim>\<open>handle_data\<close> behind the window checks: flow control for the connection and the stream,
  the end of the stream and the event.
\<close>

definition replenish ::
  "('d, 'f) engine_ops \<Rightarrow> u32 \<Rightarrow> u32 \<Rightarrow> i32 \<Rightarrow> u32 \<Rightarrow> ('d, 'f) H2Engine \<Rightarrow> ('d, 'f) H2Engine \<times> H2Frame list" where
  "replenish ops stream_id len stream_recv_window stream_initial_window e =
     (let (r0, fc1) = eo_on_data_received ops (en_flow_control e) 0 len (cs_recv_window (en_state e))
                        (en_conn_initial_recv_window e);
          (c1, out1) = (case r0 of
             Some increment \<Rightarrow>
               (keep (en_state e) (conn_update_recv_window increment (en_state e)), [make_window_update 0 increment])
           | None \<Rightarrow> (en_state e, []));
          (r1, fc2) = eo_on_data_received ops fc1 stream_id len stream_recv_window stream_initial_window;
          (c2, out2) = (case r1 of
             Some increment \<Rightarrow>
               (modify_stream stream_id (\<lambda>s. keep s (stream_update_recv_window increment s)) c1,
                [make_window_update stream_id increment])
           | None \<Rightarrow> (c1, []))
      in (e\<lparr>en_state := c2, en_flow_control := fc2\<rparr>, out1 @ out2))"

definition deliver_data ::
  "('d, 'f) engine_ops \<Rightarrow> DataFrame \<Rightarrow> i32 \<Rightarrow> u32 \<Rightarrow> ('d, 'f) H2Engine \<Rightarrow> ('d, 'f) handled" where
  "deliver_data ops frame stream_recv_window stream_initial_window e =
     (let (e1, out) =
            (if flow_len frame > 0
             then replenish ops (df_stream_id frame) (flow_len frame) stream_recv_window stream_initial_window e
             else (e, []));
          e2 = (if df_end_stream frame
                then e1\<lparr>en_flow_control := eo_on_stream_closed ops (en_flow_control e1) (df_stream_id frame),
                        en_state := cleanup_closed_streams (en_state e1)\<rparr>
                else e1)
      in (e2, [EvResponseData (df_stream_id frame) (df_data frame) (df_end_stream frame)], out))"

definition handle_data ::
  "('d, 'f) engine_ops \<Rightarrow> DataFrame \<Rightarrow> ('d, 'f) H2Engine \<Rightarrow> ('d, 'f) handled" where
  "handle_data ops frame e =
     (let k = df_stream_id frame in
      case conn_consume_recv_window (flow_len frame) (en_state e) of
        Inl er \<Rightarrow> (e, [EvError (connection_error_display er)], [make_goaway e EC_FlowControlError])
      | Inr c \<Rightarrow>
          let e1 = e\<lparr>en_state := c\<rparr> in
          case get_stream c k of
            None \<Rightarrow> deliver_data ops frame 0 65535 e1
          | Some s \<Rightarrow>
              if \<not> can_receive (st_state s)
              then (let (f, e2) = make_rst_stream k (error_code_as_u32 EC_StreamClosed) e1 in (e2, [], [f]))
              else
                case stream_consume_recv_window (flow_len frame) s of
                  Inl _ \<Rightarrow>
                    (let (f, e2) = make_rst_stream k (error_code_as_u32 EC_FlowControlError) e1
                     in (e2, [EvStreamReset k (error_code_as_u32 EC_FlowControlError)], [f]))
                | Inr s1 \<Rightarrow>
                    let s2 = (if df_end_stream frame then keep s1 (recv_end_stream s1) else s1)
                    in deliver_data ops frame (st_recv_window s1) (st_initial_window_size s1)
                         (e1\<lparr>en_state := put_stream k s2 c\<rparr>))"

text \<open>The end of \<^verbatim>\<open>handle_window_update\<close>, reached when the increment was accepted.\<close>

definition window_opened ::
  "WindowUpdateFrame \<Rightarrow> ('d, 'f) H2Engine \<Rightarrow> ('d, 'f) handled option" where
  "window_opened frame e = do {
     (drained, e1) \<leftarrow> (if en_pending_data e \<noteq> [] then drain_pending_data e else Some ([], e));
     Some (e1, [EvWindowUpdate (wf_stream_id frame) (wf_increment frame)], drained)
   }"

definition handle_window_update ::
  "WindowUpdateFrame \<Rightarrow> ('d, 'f) H2Engine \<Rightarrow> ('d, 'f) handled option" where
  "handle_window_update frame e =
     (let k = wf_stream_id frame in
      if wf_increment frame = 0 then
        if k = 0
        then Some (e, [EvError ''WINDOW_UPDATE increment=0 on connection''], [make_goaway e EC_ProtocolError])
        else (let (f, e1) = make_rst_stream k (error_code_as_u32 EC_ProtocolError) e in Some (e1, [], [f]))
      else if k = 0 then
        (case conn_update_send_window (wf_increment frame) (en_state e) of
           Inl er \<Rightarrow> Some (e, [EvError (connection_error_display er)], [make_goaway e EC_FlowControlError])
         | Inr c \<Rightarrow> window_opened frame (e\<lparr>en_state := c\<rparr>))
      else
        case get_stream (en_state e) k of
          None \<Rightarrow> window_opened frame e
        | Some s \<Rightarrow>
            case stream_update_send_window (wf_increment frame) s of
              Inl er \<Rightarrow>
                (let (f, e1) = make_rst_stream k (error_code_as_u32 EC_FlowControlError) e
                 in Some (e1, [EvError (stream_error_display er)], [f]))
            | Inr s1 \<Rightarrow> window_opened frame (e\<lparr>en_state := put_stream k s1 (en_state e)\<rparr>))"

definition handle_ping :: "PingFrame \<Rightarrow> ('d, 'f) H2Engine \<Rightarrow> ('d, 'f) handled" where
  "handle_ping frame e =
     (if \<not> pgf_ack frame then (e, [EvPingAck], [make_ping_ack (pgf_data frame)]) else (e, [], []))"

definition engine_handle_goaway :: "GoAwayFrame \<Rightarrow> ('d, 'f) H2Engine \<Rightarrow> ('d, 'f) handled" where
  "engine_handle_goaway frame e =
     (e\<lparr>en_state := conn_handle_goaway (gf_last_stream_id frame) (gf_error_code frame) (en_state e)\<rparr>,
      [EvGoAway (gf_last_stream_id frame) (gf_error_code frame) (gf_debug_data frame)], [])"

definition handle_rst_stream :: "RstStreamFrame \<Rightarrow> ('d, 'f) H2Engine \<Rightarrow> ('d, 'f) handled" where
  "handle_rst_stream frame e =
     (e\<lparr>en_state := cleanup_closed_streams (modify_stream (rf_stream_id frame) stream_reset (en_state e))\<rparr>,
      [EvStreamReset (rf_stream_id frame) (rf_error_code frame)], [])"

definition handle_frame ::
  "('d, 'f) engine_ops \<Rightarrow> H2Frame \<Rightarrow> ('d, 'f) H2Engine \<Rightarrow> ('d, 'f) handled option" where
  "handle_frame ops frame e =
     (case frame of
        Settings f \<Rightarrow> Some (handle_settings ops f e)
      | Headers f \<Rightarrow> Some (handle_headers ops f e)
      | Data f \<Rightarrow> Some (handle_data ops f e)
      | WindowUpdate f \<Rightarrow> handle_window_update f e
      | Ping f \<Rightarrow> Some (handle_ping f e)
      | GoAway f \<Rightarrow> Some (engine_handle_goaway f e)
      | RstStream f \<Rightarrow> Some (handle_rst_stream f e)
      | Continuation f \<Rightarrow> Some (handle_continuation ops f e)
      | PushPromise _ \<Rightarrow> Some (e, [EvError ''server push not supported''], [make_goaway e EC_ProtocolError])
      | Priority _ \<Rightarrow> Some (e, [], [])
      | Unknown _ \<Rightarrow> Some (e, [], []))"

text \<open>The result also has the bytes that stay in the input buffer.\<close>

function process ::
  "('d, 'f) engine_ops \<Rightarrow> bytes \<Rightarrow> ('d, 'f) H2Engine \<Rightarrow>
   (bytes \<times> ('d, 'f) handled) option" where
  "process ops input e =
     (case decode (en_codec e) input of
        (Frame frame, rest) \<Rightarrow>
          (case handle_frame ops frame e of
             None \<Rightarrow> None
           | Some (e1, events, outbound) \<Rightarrow>
               (case process ops rest e1 of
                  None \<Rightarrow> None
                | Some (rest', e2, events', outbound') \<Rightarrow>
                    Some (rest', e2, events @ events', outbound @ outbound')))
      | (NeedMoreData _, rest) \<Rightarrow> Some (rest, e, [], [])
      | (DecodeFail er, rest) \<Rightarrow>
          Some (rest, e, [EvError (codec_error_display er)], [make_goaway e EC_ProtocolError]))"
  by pat_completeness auto
termination
  by (relation "measure (\<lambda>(ops, input, e). length input)") (auto dest: decode_frame_shorter [OF sym])

declare process.simps [simp del]

subsection \<open>Requests\<close>

text \<open>What the engine reads of \<^verbatim>\<open>http::Uri\<close> and \<^verbatim>\<open>http::Request\<close>; a header value is opaque bytes.\<close>

record http_uri =
  uri_authority :: "bytes option"
  uri_scheme :: "bytes option"
  uri_path_and_query :: "bytes option"

record http_request =
  rq_method :: bytes
  rq_uri :: http_uri
  rq_headers :: "(bytes \<times> bytes) list"
  rq_body :: "bytes option"
  rq_priority :: "RequestPriority option"

record NativeH2Request =
  nr_method :: bytes
  nr_uri :: http_uri
  nr_ordered_headers :: "(bytes \<times> bytes) list"
  nr_body :: "bytes option"
  nr_priority :: "RequestPriority option"

definition unwrap_or :: "'a \<Rightarrow> 'a option \<Rightarrow> 'a" where
  "unwrap_or d x = (case x of Some v \<Rightarrow> v | None \<Rightarrow> d)"

fun pseudo_header :: "bytes \<Rightarrow> bytes \<Rightarrow> bytes \<Rightarrow> bytes \<Rightarrow> PseudoHeaderId \<Rightarrow> bytes \<times> bytes" where
  "pseudo_header method scheme authority path PH_Method = (ascii '':method'', method)"
| "pseudo_header method scheme authority path PH_Authority = (ascii '':authority'', authority)"
| "pseudo_header method scheme authority path PH_Scheme = (ascii '':scheme'', scheme)"
| "pseudo_header method scheme authority path PH_Path = (ascii '':path'', path)"

definition order_headers_ref ::
  "(bytes \<Rightarrow> bytes option) \<Rightarrow> bytes \<Rightarrow> bytes \<Rightarrow> bytes \<Rightarrow> bytes \<Rightarrow> (bytes \<times> bytes) list \<Rightarrow>
   ('d, 'f) H2Engine \<Rightarrow> (bytes \<times> bytes) list" where
  "order_headers_ref to_str method scheme authority path header_map e =
     map (pseudo_header method scheme authority path) (en_pseudo_header_order e) @
     List.map_filter (\<lambda>(name, val). map_option (Pair name) (to_str val)) header_map"

definition order_headers ::
  "bytes \<Rightarrow> bytes \<Rightarrow> bytes \<Rightarrow> bytes \<Rightarrow> (bytes \<times> bytes) list \<Rightarrow> ('d, 'f) H2Engine \<Rightarrow> (bytes \<times> bytes) list" where
  "order_headers method scheme authority path extra_headers e =
     map (pseudo_header method scheme authority path) (en_pseudo_header_order e) @ extra_headers"

definition build_request ::
  "(bytes \<Rightarrow> bytes option) \<Rightarrow> u32 \<Rightarrow> http_request \<Rightarrow> ('d, 'f) H2Engine \<Rightarrow>
   (H2Frame list \<times> ('d, 'f) H2Engine) option" where
  "build_request to_str stream_id request e =
     (let authority = unwrap_or [] (uri_authority (rq_uri request));
          scheme = unwrap_or (ascii ''https'') (uri_scheme (rq_uri request));
          path_and_query = unwrap_or (ascii ''/'') (uri_path_and_query (rq_uri request));
          ordered = order_headers_ref to_str (rq_method request) scheme authority path_and_query
                      (rq_headers request) e;
          has_body = (case rq_body request of Some b \<Rightarrow> b \<noteq> [] | None \<Rightarrow> False)
      in do {
        (frames, e1) \<leftarrow> build_headers stream_id ordered (\<not> has_body) (rq_priority request) e;
        (case rq_body request of
           Some body_data \<Rightarrow>
             if body_data \<noteq> [] then do {
               (data_frames, e2) \<leftarrow> build_data stream_id body_data True e1;
               Some (frames @ data_frames, e2)
             } else Some (frames, e1)
         | None \<Rightarrow> Some (frames, e1))
      })"

definition build_native_request ::
  "u32 \<Rightarrow> NativeH2Request \<Rightarrow> ('d, 'f) H2Engine \<Rightarrow> (H2Frame list \<times> ('d, 'f) H2Engine) option" where
  "build_native_request stream_id request e =
     (let authority = unwrap_or [] (uri_authority (nr_uri request));
          scheme = unwrap_or (ascii ''https'') (uri_scheme (nr_uri request));
          path_and_query = unwrap_or (ascii ''/'') (uri_path_and_query (nr_uri request));
          ordered = map (pseudo_header (nr_method request) scheme authority path_and_query) (en_pseudo_header_order e)
                      @ nr_ordered_headers request;
          has_body = (case nr_body request of Some b \<Rightarrow> b \<noteq> [] | None \<Rightarrow> False)
      in do {
        (frames, e1) \<leftarrow> build_headers stream_id ordered (\<not> has_body) (nr_priority request) e;
        (case nr_body request of
           Some body_data \<Rightarrow>
             if body_data \<noteq> [] then do {
               (data_frames, e2) \<leftarrow> build_data stream_id body_data True e1;
               Some (frames @ data_frames, e2)
             } else Some (frames, e1)
         | None \<Rightarrow> Some (frames, e1))
      })"

end
