(* ===== verification/H2_Send.thy ===== *)
theory H2_Send
  imports H2_Engine
begin

text \<open>
  The sending side of the engine: \<^verbatim>\<open>build_data\<close> is the body cut at the budget that both windows leave
  and split into frames of the peer's size, what does not fit waits, and draining neither loses
  nor reorders a byte of any stream.
\<close>

subsection \<open>Reference definitions\<close>

fun data_frames :: "u32 \<Rightarrow> bool \<Rightarrow> bytes list \<Rightarrow> H2Frame list" where
  "data_frames k es [] = []"
| "data_frames k es [c] = [data_frame k c es]"
| "data_frames k es (c # cs) = data_frame k c False # data_frames k es cs"

text \<open>What both send windows allow on a stream, and a state in which \<open>n\<close> bytes of it are spent.\<close>

definition budget :: "u32 \<Rightarrow> 'd ConnState \<Rightarrow> nat" where
  "budget k c =
     (case get_stream c k of None \<Rightarrow> 0 | Some s \<Rightarrow> nat (min (cs_send_window c) (st_send_window s)))"

definition spend :: "u32 \<Rightarrow> nat \<Rightarrow> 'd ConnState \<Rightarrow> 'd ConnState" where
  "spend k n c =
     modify_stream k (\<lambda>s. s\<lparr>st_send_window := st_send_window s - int n\<rparr>)
       (c\<lparr>cs_send_window := cs_send_window c - int n\<rparr>)"

definition end_stream_on :: "u32 \<Rightarrow> 'd ConnState \<Rightarrow> 'd ConnState" where
  "end_stream_on k c = modify_stream k (\<lambda>s. keep s (send_end_stream s)) c"

subsection \<open>Facts on spending\<close>

lemma update_update [simp]: "AList.update k v (AList.update k w xs) = AList.update k v xs"
  by (induction xs) auto

lemma get_put [simp]: "get_stream (put_stream k s c) j = (if j = k then Some s else get_stream c j)"
  by (simp add: get_stream_def put_stream_def update_conv')

lemma get_stream_window [simp]: "get_stream (c\<lparr>cs_send_window := w\<rparr>) k = get_stream c k"
  by (simp add: get_stream_def)

lemma get_modify [simp]:
  "get_stream (modify_stream k f c) j = (if j = k then map_option f (get_stream c k) else get_stream c j)"
  by (simp add: modify_stream_def split: option.split)

lemma modify_None: "get_stream c k = None \<Longrightarrow> modify_stream k f c = c"
  by (simp add: modify_stream_def)

lemma cs_send_modify [simp]:
  "cs_send_window (modify_stream k f c) = cs_send_window c"
  "cs_recv_window (modify_stream k f c) = cs_recv_window c"
  "cs_remote_settings (modify_stream k f c) = cs_remote_settings c"
  "cs_is_client (modify_stream k f c) = cs_is_client c"
  by (simp_all add: modify_stream_def put_stream_def split: option.split)

lemma stream_of_inv: "conn_inv c \<Longrightarrow> get_stream c k = Some s \<Longrightarrow> stream_inv s"
  using streams_ok_lookup by (auto simp: conn_inv_def get_stream_def)

lemma conn_inv_modify:
  "conn_inv c \<Longrightarrow> op_ok op \<Longrightarrow> conn_inv (modify_stream k (\<lambda>s. stream_step s op) c)"
  using conn_inv_stream_step by (auto simp: modify_stream_def split: option.split)

lemmas conn_inv_modify_ops =
  conn_inv_modify [of _ OpSendEnd, simplified] conn_inv_modify [of _ OpReset, simplified]
  conn_inv_modify [of _ OpRecvEnd, simplified] conn_inv_modify [of _ "OpUpdateRecv n" for n, simplified]
  conn_inv_modify [of _ "OpConsumeSend n" for n, simplified]

lemma unat_as_u32: "0 \<le> x \<Longrightarrow> x \<le> i32_max \<Longrightarrow> unat (as_u32 x) = nat x"
  by (simp add: unat_eq_nat_uint uint_as_u32 i32_max_def)

lemma window_budget:
  assumes "conn_inv c"
  shows "min (unat (conn_send_window_available c))
           (case get_stream c k of Some s \<Rightarrow> unat (send_window_available s) | None \<Rightarrow> 0) = budget k c"
proof (cases "get_stream c k")
  case None
  then show ?thesis by (simp add: budget_def)
next
  case (Some s)
  have "st_send_window s \<le> i32_max" using stream_of_inv [OF assms Some] by (simp add: stream_inv_def)
  moreover have "0 \<le> cs_send_window c" "cs_send_window c \<le> i32_max" using assms by (auto simp: conn_inv_def)
  ultimately show ?thesis
    using Some by (simp add: budget_def conn_send_window_available_def send_window_available_def
        unat_as_u32 max_def min_def nat_le_eq_zle i32_max_def)
qed

lemma budget_le: "n \<le> budget k c \<Longrightarrow> get_stream c k = Some s \<Longrightarrow> 0 < n \<Longrightarrow>
  int n \<le> cs_send_window c \<and> int n \<le> st_send_window s"
  by (auto simp: budget_def)

lemma budget_small: "conn_inv c \<Longrightarrow> budget k c \<le> 2147483647"
  by (auto simp: budget_def conn_inv_def i32_max_def split: option.split)

lemma consume_spend:
  assumes inv: "conn_inv c" and n: "0 < n" "n \<le> budget k c"
  shows "modify_stream k (\<lambda>s. snd (stream_consume_send_window (word_of_nat n) s))
           (snd (conn_consume_send_window (word_of_nat n) c)) = spend k n c"
proof -
  obtain s where s: "get_stream c k = Some s" using n by (cases "get_stream c k") (auto simp: budget_def)
  have le: "int n \<le> cs_send_window c" "int n \<le> st_send_window s" using budget_le [OF n(2) s n(1)] by auto
  have u: "uint (word_of_nat n :: u32) = int n"
    using n budget_small [OF inv, of k] by (simp add: uint_nat unat_of_nat)
  have "snd (conn_consume_send_window (word_of_nat n) c) = c\<lparr>cs_send_window := cs_send_window c - int n\<rparr>"
    using le by (simp add: conn_consume_send_window_exact [OF inv] u)
  moreover have "snd (stream_consume_send_window (word_of_nat n) s) = s\<lparr>st_send_window := st_send_window s - int n\<rparr>"
    using le by (simp add: stream_consume_send_window_exact [OF stream_of_inv [OF inv s]] u Let_def)
  ultimately show ?thesis using s by (simp add: spend_def modify_stream_def)
qed

lemma conn_inv_spend: "conn_inv c \<Longrightarrow> 0 < n \<Longrightarrow> n \<le> budget k c \<Longrightarrow> conn_inv (spend k n c)"
  by (metis consume_spend conn_inv_modify_ops(5) conn_inv_windows(1))

lemma spend_0 [simp]: "spend k 0 c = c"
  by (auto simp: spend_def modify_stream_def put_stream_def get_stream_def update_triv split: option.split)

lemma spend_add: "spend k m (spend k n c) = spend k (n + m) c"
  by (auto simp: spend_def modify_stream_def put_stream_def get_stream_def update_conv' algebra_simps
      split: option.split)

lemma budget_spend: "n \<le> budget k c \<Longrightarrow> budget k (spend k n c) = budget k c - n"
  by (auto simp: budget_def spend_def nat_diff_distrib' min_def split: option.split)

subsection \<open>The loop\<close>

lemma chunk_step:
  assumes "0 < m" "xs \<noteq> []" "0 < n"
  shows "chunks m (take n xs) =
    take (min m n) xs # chunks m (take (n - min m n) (drop (min m n) xs))"
proof -
  have "chunks m (take n xs) = take m (take n xs) # chunks m (drop m (take n xs))"
    using assms by (subst chunks.simps) simp
  moreover have "drop m (take n xs) = take (n - min m n) (drop (min m n) xs)"
    by (cases "m \<le> n") (simp_all add: drop_take min_def)
  ultimately show ?thesis by simp
qed

definition pend :: "u32 \<Rightarrow> bytes \<Rightarrow> bool \<Rightarrow> PendingBodyData" where
  "pend k xs es = \<lparr>pd_stream_id = k, pd_data = xs, pd_end_stream = es\<rparr>"

definition sent_state :: "u32 \<Rightarrow> bytes \<Rightarrow> bool \<Rightarrow> ('d, 'f) H2Engine \<Rightarrow> ('d, 'f) H2Engine" where
  "sent_state k xs es e =
     (let b = budget k (en_state e); n = min (length xs) b in
      e\<lparr>en_state := (if es \<and> length xs \<le> b then end_stream_on k (spend k n (en_state e)) else spend k n (en_state e)),
        en_pending_data := en_pending_data e @ (if length xs \<le> b then [] else [pend k (drop n xs) es])\<rparr>)"

lemma build_data_loop_Nil [simp]: "build_data_loop k es m [] frames e = Some (True, frames, e)"
  by (subst build_data_loop.simps) simp

text \<open>The first chunk of a body that does not fit into one frame carries no END_STREAM.\<close>

lemma data_frames_first:
  assumes "0 < m" "xs \<noteq> []" "0 < n" "c = min m n" "drop c xs \<noteq> []" "n = min (length xs) b"
  shows "data_frames k (es \<and> length xs \<le> b) (chunks m (take n xs)) =
    data_frame k (take c xs) False # data_frames k (es \<and> length xs \<le> b) (chunks m (take (n - c) (drop c xs)))"
proof -
  have ch: "chunks m (take n xs) = take c xs # chunks m (take (n - c) (drop c xs))"
    using chunk_step [OF assms(1-3)] assms(4) by simp
  show ?thesis
  proof (cases "n - c = 0")
    case True
    then have "\<not> length xs \<le> b" using assms(4-6) by (auto simp: min_def split: if_splits)
    then show ?thesis using ch True by simp
  next
    case False
    then obtain d ds where "chunks m (take (n - c) (drop c xs)) = d # ds"
      using chunk_step [OF assms(1,5), of "n - c"] by auto
    then show ?thesis using ch by simp
  qed
qed

lemma build_data_loop_spec:
  assumes "conn_inv (en_state e)" "0 < m" "xs \<noteq> []"
  shows "build_data_loop k es m xs frames e =
    (let b = budget k (en_state e); n = min (length xs) b in
     Some (length xs \<le> b, frames @ data_frames k (es \<and> length xs \<le> b) (chunks m (take n xs)),
           sent_state k xs es e))"
  using assms
proof (induction "length xs" arbitrary: xs frames e rule: less_induct)
  case less
  define b where "b = budget k (en_state e)"
  define n where "n = min (length xs) b"
  define c where "c = min (min (length xs) m) b"
  have w: "min (unat (conn_send_window_available (en_state e)))
           (case get_stream (en_state e) k of Some s \<Rightarrow> unat (send_window_available s) | None \<Rightarrow> 0) = b"
    using window_budget [OF less.prems(1)] by (simp add: b_def)
  show ?case
  proof (cases "b = 0")
    case True
    then have "build_data_loop k es m xs frames e =
       Some (False, frames, e\<lparr>en_pending_data := en_pending_data e @ [pend k xs es]\<rparr>)"
      using less.prems(3) w by (subst build_data_loop.simps) (simp add: Let_def pend_def)
    then show ?thesis
      using True less.prems(3) by (simp add: b_def [symmetric] sent_state_def Let_def)
  next
    case False
    have c: "0 < c" "c \<le> b" "c \<le> length xs" "c = min m n"
      using False less.prems(2,3) by (auto simp: c_def n_def min_def)
    let ?fe = "es \<and> drop c xs = []"
    let ?s = "spend k c (en_state e)"
    let ?s' = "if ?fe then end_stream_on k ?s else ?s"
    have sp: "modify_stream k (\<lambda>s. snd (stream_consume_send_window (word_of_nat c) s))
           (snd (conn_consume_send_window (word_of_nat c) (en_state e))) = ?s"
      using consume_spend [OF less.prems(1) c(1), of k] c(2) by (simp add: b_def)
    have step: "build_data_loop k es m xs frames e =
      build_data_loop k es m (drop c xs) (frames @ [data_frame k (take c xs) ?fe]) (e\<lparr>en_state := ?s'\<rparr>)"
      using False
      by (subst build_data_loop.simps)
        (simp only: Let_def w c_def [symmetric] sp end_stream_on_def [symmetric] if_False less.prems(3) simp_thms)
    show ?thesis
    proof (cases "drop c xs = []")
      case True
      then have eq: "c = length xs" "n = length xs" "length xs \<le> b" "length xs \<le> m"
        using c by (auto simp: n_def)
      have "chunks m (take n xs) = [xs]"
        using chunk_step [OF less.prems(2,3), of n] eq less.prems(3) by (simp add: min_def)
      then show ?thesis
        using True eq
        by (subst step) (simp add: Let_def b_def [symmetric] n_def [symmetric] sent_state_def)
    next
      case False
      let ?e = "e\<lparr>en_state := ?s\<rparr>"
      have inv: "conn_inv (en_state ?e)"
        using conn_inv_spend [OF less.prems(1) c(1), of k] c(2) by (simp add: b_def)
      have bud: "budget k (en_state ?e) = b - c"
        using budget_spend [of c k] c(2) by (simp add: b_def)
      have len: "length (drop c xs) < length xs" using c(1,3) by simp
      have fits: "length (drop c xs) \<le> b - c \<longleftrightarrow> length xs \<le> b" using c(2,3) by auto
      have n': "min (length (drop c xs)) (b - c) = n - c" using c(2,3) by (auto simp: n_def min_def)
      have nz: "0 < n" using c(1,4) by simp
      note fr = data_frames_first [OF less.prems(2,3) nz c(4) False n_def]
      have nc: "c + (n - c) = n" "n - c + c = n" using c(4) by simp_all
      have st: "sent_state k (drop c xs) es ?e = sent_state k xs es e"
        unfolding sent_state_def Let_def bud fits n' b_def [symmetric] n_def [symmetric]
        by (simp add: spend_add nc)
      have IH: "build_data_loop k es m (drop c xs) (frames @ [data_frame k (take c xs) False]) ?e =
        Some (length xs \<le> b, (frames @ [data_frame k (take c xs) False]) @
          data_frames k (es \<and> length xs \<le> b) (chunks m (take (n - c) (drop c xs))), sent_state k xs es e)"
        using less.hyps [OF len inv less.prems(2) False, of "frames @ [data_frame k (take c xs) False]"]
        unfolding Let_def bud fits n' st .
      show ?thesis
        using IH False by (simp add: step Let_def b_def [symmetric] n_def [symmetric] fr)
    qed
  qed
qed

definition sent_frames :: "u32 \<Rightarrow> bytes \<Rightarrow> bool \<Rightarrow> ('d, 'f) H2Engine \<Rightarrow> H2Frame list" where
  "sent_frames k xs es e =
     (if xs = [] then (if es then [data_frame k [] True] else [])
      else data_frames k (es \<and> length xs \<le> budget k (en_state e))
             (chunks (unat (hs_max_frame_size (cs_remote_settings (en_state e)))) (take (budget k (en_state e)) xs)))"

lemma max_frame_size_pos: "conn_inv c \<Longrightarrow> 16384 \<le> unat (hs_max_frame_size (cs_remote_settings c)) \<and>
  unat (hs_max_frame_size (cs_remote_settings c)) \<le> 16777215"
  by (auto simp: conn_inv_def settings_ok_def word_le_nat_alt)

lemma data_frames_eq_Nil [simp]: "data_frames k es cs = [] \<longleftrightarrow> cs = []"
  by (induction k es cs rule: data_frames.induct) simp_all

lemma build_data_spec:
  assumes "conn_inv (en_state e)"
  shows "build_data k xs es e = Some (sent_frames k xs es e, sent_state k xs es e)"
proof (cases "xs = []")
  case True
  then show ?thesis
    by (simp add: build_data_def sent_frames_def sent_state_def end_stream_on_def Let_def)
next
  case False
  define b where "b = budget k (en_state e)"
  have m: "0 < unat (hs_max_frame_size (cs_remote_settings (en_state e)))"
    using max_frame_size_pos [OF assms] by simp
  have t: "take (min (length xs) b) xs = take b xs" by (simp add: min_def)
  have ne: "length xs \<le> b \<Longrightarrow> chunks (unat (hs_max_frame_size (cs_remote_settings (en_state e)))) (take b xs) \<noteq> []"
    using False by (simp add: chunks_eq_Nil [OF m])
  show ?thesis
    using ne False
    by (cases "length xs \<le> b")
      (simp_all add: build_data_def build_data_loop_spec [OF assms m False] sent_frames_def Let_def b_def [symmetric] t)
qed

subsection \<open>Bytes sent and bytes pending\<close>

fun frame_bytes_on :: "u32 \<Rightarrow> H2Frame \<Rightarrow> bytes" where
  "frame_bytes_on k (Data f) = (if df_stream_id f = k then df_data f else [])"
| "frame_bytes_on k _ = []"

definition sent_on :: "u32 \<Rightarrow> H2Frame list \<Rightarrow> bytes" where
  "sent_on k fs = concat (map (frame_bytes_on k) fs)"

definition waiting_on :: "u32 \<Rightarrow> PendingBodyData list \<Rightarrow> bytes" where
  "waiting_on k ps = concat (map pd_data (filter (\<lambda>p. pd_stream_id p = k) ps))"

lemma sent_on_simps [simp]:
  "sent_on k [] = []" "sent_on k (f # fs) = frame_bytes_on k f @ sent_on k fs"
  "sent_on k (fs @ gs) = sent_on k fs @ sent_on k gs"
  by (simp_all add: sent_on_def)

lemma waiting_on_simps [simp]:
  "waiting_on k [] = []"
  "waiting_on k (p # ps) = (if pd_stream_id p = k then pd_data p else []) @ waiting_on k ps"
  "waiting_on k (ps @ qs) = waiting_on k ps @ waiting_on k qs"
  by (simp_all add: waiting_on_def)

lemma sent_on_data_frames: "sent_on j (data_frames k es cs) = (if j = k then concat cs else [])"
  by (induction k es cs rule: data_frames.induct) (auto simp: data_frame_def)

lemma sent_on_sent_frames:
  assumes "conn_inv (en_state e)"
  shows "sent_on j (sent_frames k xs es e) = (if j = k then take (budget k (en_state e)) xs else [])"
  using max_frame_size_pos [OF assms]
  by (simp add: sent_frames_def sent_on_data_frames concat_chunks data_frame_def)

text \<open>Nothing pending could be sent.\<close>

definition blocked :: "('d, 'f) H2Engine \<Rightarrow> bool" where
  "blocked e \<longleftrightarrow> list_all (\<lambda>p. budget (pd_stream_id p) (en_state e) = 0) (en_pending_data e)"

definition nonempty_pending :: "PendingBodyData list \<Rightarrow> bool" where
  "nonempty_pending ps \<longleftrightarrow> list_all (\<lambda>p. pd_data p \<noteq> []) ps"

lemma budget_end_stream [simp]: "budget j (end_stream_on k c) = budget j c"
proof -
  have "st_send_window (keep s (send_end_stream s)) = st_send_window s" for s
    by (simp add: send_end_stream_def split: StreamState.split)
  then show ?thesis by (simp add: budget_def end_stream_on_def split: option.split)
qed

lemma budget_spend_le: "budget j (spend k n c) \<le> budget j c"
  by (auto simp: budget_def spend_def min_def split: option.split)

lemma sent_state_fields [simp]:
  "en_codec (sent_state k xs es e) = en_codec e"
  "en_continuation (sent_state k xs es e) = en_continuation e"
  "cs_is_client (en_state (sent_state k xs es e)) = cs_is_client (en_state e)"
  by (simp_all add: sent_state_def Let_def end_stream_on_def spend_def)

lemma sent_state_cases:
  obtains n where "n \<le> budget k (en_state e)" "en_state (sent_state k xs es e) = spend k n (en_state e)"
  | n where "n \<le> budget k (en_state e)" "en_state (sent_state k xs es e) = end_stream_on k (spend k n (en_state e))"
proof (cases "es \<and> length xs \<le> budget k (en_state e)")
  case True
  then show ?thesis by (intro that(2) [of "length xs"]) (auto simp: sent_state_def Let_def min_def)
next
  case False
  then show ?thesis
    by (intro that(1) [of "min (length xs) (budget k (en_state e))"]) (auto simp: sent_state_def Let_def)
qed

lemma sent_state_inv:
  assumes "conn_inv (en_state e)"
  shows "conn_inv (en_state (sent_state k xs es e))"
proof -
  have sp: "conn_inv (spend k n (en_state e))" if "n \<le> budget k (en_state e)" for n
    using conn_inv_spend [OF assms _ that] assms by (cases "n = 0") auto
  show ?thesis
    using sp conn_inv_modify_ops(1) by (cases rule: sent_state_cases [of k e xs es]) (auto simp: end_stream_on_def)
qed

lemma sent_state_pending:
  "nonempty_pending (en_pending_data e) \<Longrightarrow> nonempty_pending (en_pending_data (sent_state k xs es e))"
  by (auto simp: nonempty_pending_def sent_state_def Let_def pend_def)

lemma sent_state_blocked:
  assumes "blocked e"
  shows "blocked (sent_state k xs es e)"
proof -
  have b: "budget j (en_state (sent_state k xs es e)) \<le> budget j (en_state e)" for j
    using budget_spend_le by (cases rule: sent_state_cases [of k e xs es]) simp_all
  have "\<not> length xs \<le> budget k (en_state e) \<Longrightarrow> budget k (en_state (sent_state k xs es e)) = 0"
    by (simp add: sent_state_def Let_def budget_spend)
  moreover have "list_all (\<lambda>p. budget (pd_stream_id p) (en_state (sent_state k xs es e)) = 0) (en_pending_data e)"
    using assms b unfolding blocked_def list_all_iff by (metis le_zero_eq)
  ultimately show ?thesis
    unfolding blocked_def by (simp add: sent_state_def [of k xs es e] Let_def pend_def split: if_splits)
qed

lemma sent_state_conserves:
  assumes "conn_inv (en_state e)" "blocked e" "nonempty_pending (en_pending_data e)"
  shows "waiting_on j (en_pending_data e) @ (if j = k then xs else []) =
         sent_on j (sent_frames k xs es e) @ waiting_on j (en_pending_data (sent_state k xs es e))"
proof (cases "j = k")
  case False
  then show ?thesis by (simp add: sent_on_sent_frames [OF assms(1)] sent_state_def Let_def pend_def)
next
  case True
  show ?thesis
  proof (cases "budget k (en_state e) = 0")
    case b: True
    then show ?thesis using True by (simp add: sent_on_sent_frames [OF assms(1)] sent_state_def Let_def pend_def)
  next
    case False
    then have "waiting_on k (en_pending_data e) = []"
      using assms(2) by (auto simp: blocked_def waiting_on_def list_all_iff)
    then show ?thesis
      using True by (simp add: sent_on_sent_frames [OF assms(1)] sent_state_def Let_def pend_def min_def)
  qed
qed

lemma drain_loop_conserves:
  assumes "conn_inv (en_state e)" "blocked e" "nonempty_pending (en_pending_data e)"
  shows "\<exists>new e'. drain_loop ps frames e = Some (frames @ new, e') \<and> conn_inv (en_state e') \<and> blocked e' \<and>
     nonempty_pending (en_pending_data e') \<and>
     en_codec e' = en_codec e \<and> en_continuation e' = en_continuation e \<and>
     (\<forall>j. waiting_on j (en_pending_data e) @ waiting_on j ps = sent_on j new @ waiting_on j (en_pending_data e'))"
  using assms
proof (induction ps arbitrary: frames e)
  case Nil
  then show ?case by (intro exI [of _ "[]"] exI [of _ e]) simp
next
  case (Cons p ps)
  let ?k = "pd_stream_id p" let ?xs = "pd_data p" let ?es = "pd_end_stream p"
  let ?e = "sent_state ?k ?xs ?es e"
  obtain new e' where IH: "drain_loop ps (frames @ sent_frames ?k ?xs ?es e) ?e =
       Some ((frames @ sent_frames ?k ?xs ?es e) @ new, e')" "conn_inv (en_state e')" "blocked e'"
     "nonempty_pending (en_pending_data e')" "en_codec e' = en_codec ?e" "en_continuation e' = en_continuation ?e"
     and eq: "\<And>j. waiting_on j (en_pending_data ?e) @ waiting_on j ps = sent_on j new @ waiting_on j (en_pending_data e')"
    using Cons.IH [OF sent_state_inv [OF Cons.prems(1)] sent_state_blocked [OF Cons.prems(2)]
        sent_state_pending [OF Cons.prems(3)]] by blast
  have "waiting_on j (en_pending_data e) @ waiting_on j (p # ps) =
      sent_on j (sent_frames ?k ?xs ?es e @ new) @ waiting_on j (en_pending_data e')" for j
  proof -
    have "waiting_on j (en_pending_data e) @ waiting_on j (p # ps) =
      (waiting_on j (en_pending_data e) @ (if j = ?k then ?xs else [])) @ waiting_on j ps" by simp
    also have "\<dots> = sent_on j (sent_frames ?k ?xs ?es e) @ waiting_on j (en_pending_data ?e) @ waiting_on j ps"
      using sent_state_conserves [OF Cons.prems, of j ?k ?xs ?es] by simp
    also have "\<dots> = sent_on j (sent_frames ?k ?xs ?es e @ new) @ waiting_on j (en_pending_data e')"
      using eq [of j] by simp
    finally show ?thesis .
  qed
  then show ?case
    using IH build_data_spec [OF Cons.prems(1), of ?k ?xs ?es]
    by (intro exI [of _ "sent_frames ?k ?xs ?es e @ new"] exI [of _ e']) simp
qed

lemma drain_pending_conserves:
  assumes "conn_inv (en_state e)"
  shows "\<exists>new e'. drain_pending_data e = Some (new, e') \<and> conn_inv (en_state e') \<and> blocked e' \<and>
     nonempty_pending (en_pending_data e') \<and>
     en_codec e' = en_codec e \<and> en_continuation e' = en_continuation e \<and>
     (\<forall>j. waiting_on j (en_pending_data e) = sent_on j new @ waiting_on j (en_pending_data e'))"
  using drain_loop_conserves [of "e\<lparr>en_pending_data := []\<rparr>" "en_pending_data e" "[]"] assms
  by (simp add: drain_pending_data_def blocked_def nonempty_pending_def)

end
