(* ===== verification/H2_Invariant.thy ===== *)
theory H2_Invariant
  imports H2_Send
begin

text \<open>
  The invariant of the engine, that every handler keeps it, that the processing loop returns, and what
  happens to request bodies over whole runs of a connection.
\<close>

subsection \<open>The engine invariant\<close>

definition engine_inv :: "('d, 'f) H2Engine \<Rightarrow> bool" where
  "engine_inv e \<longleftrightarrow>
     conn_inv (en_state e) \<and> assembler_inv (en_continuation e) \<and> codec_ok (en_codec e) \<and>
     nonempty_pending (en_pending_data e)"

text \<open>
  What every handler keeps: the invariant, the decoder's limit, the next stream id, and for each
  stream the body bytes: what was waiting is what was sent followed by what still waits.
\<close>

definition step_ok :: "('d, 'f) H2Engine \<Rightarrow> ('d, 'f) H2Engine \<Rightarrow> H2Frame list \<Rightarrow> bool" where
  "step_ok e e' out \<longleftrightarrow>
     engine_inv e' \<and> en_codec e' = en_codec e \<and>
     cs_next_stream_id (en_state e') = cs_next_stream_id (en_state e) \<and>
     pd_stream_id ` set (en_pending_data e') \<subseteq> pd_stream_id ` set (en_pending_data e) \<and>
     (\<forall>k. waiting_on k (en_pending_data e) = sent_on k out @ waiting_on k (en_pending_data e'))"

lemma step_ok_refl: "engine_inv e \<Longrightarrow> step_ok e e []"
  by (simp add: step_ok_def)

lemma step_ok_trans: "step_ok e e1 out1 \<Longrightarrow> step_ok e1 e2 out2 \<Longrightarrow> step_ok e e2 (out1 @ out2)"
  unfolding step_ok_def by (simp, blast)

lemma step_ok_quiet:
  assumes "engine_inv e" "conn_inv c" "cs_next_stream_id c = cs_next_stream_id (en_state e)"
    "\<And>k. sent_on k out = []"
  shows "step_ok e (e\<lparr>en_state := c\<rparr>) out" "step_ok e (e\<lparr>en_state := c, en_flow_control := fc\<rparr>) out"
    "step_ok e (e\<lparr>en_state := c, en_remote_settings_received := b\<rparr>) out"
  using assms by (simp_all add: step_ok_def engine_inv_def)

lemma quiet_frames [simp]:
  "frame_bytes_on k (make_goaway e ec) = []" "frame_bytes_on k make_settings_ack = []"
  "frame_bytes_on k (make_window_update j n) = []" "frame_bytes_on k (make_ping_ack d) = []"
  "fst (make_rst_stream j n e) = RstStream \<lparr>rf_stream_id = j, rf_error_code = n\<rparr>"
  by (simp_all add: make_goaway_def make_settings_ack_def make_window_update_def make_ping_ack_def make_rst_stream_def)

lemma next_id_simps [simp]:
  "cs_next_stream_id (put_stream k s c) = cs_next_stream_id c"
  "cs_next_stream_id (modify_stream k f c) = cs_next_stream_id c"
  "cs_next_stream_id (set_encoder_table_size n c) = cs_next_stream_id c"
  "cs_next_stream_id (conn_handle_goaway k ec c) = cs_next_stream_id c"
  "cs_next_stream_id (cleanup_closed_streams c) = cs_next_stream_id c"
  "cs_next_stream_id (spend k n c) = cs_next_stream_id c"
  "cs_next_stream_id (end_stream_on k c) = cs_next_stream_id c"
  by (simp_all add: put_stream_def modify_stream_def set_encoder_table_size_def conn_handle_goaway_def
      cleanup_closed_streams_def spend_def end_stream_on_def Let_def split: option.split)

lemma next_id_remote:
  assumes "apply_remote_settings ops f c = (r, c')"
  shows "cs_next_stream_id c' = cs_next_stream_id c"
proof (cases "sf_ack f")
  case True
  then show ?thesis
    using assms by (auto simp: apply_remote_settings_def Let_def split: list.splits if_splits)
next
  case False
  obtain e remote where l: "remote_settings_loop (sf_settings f) (cs_remote_settings c) = (e, remote)" by fastforce
  obtain e2 ss where l2: "initial_window_loop (hs_initial_window_size remote) (cs_streams c) = (e2, ss)" by fastforce
  show ?thesis
    using assms False l l2 by (auto simp: apply_remote_settings_def Let_def split: option.splits)
qed

lemma next_id_decode: "decode_header_block ops b c = (r, c') \<Longrightarrow> cs_next_stream_id c' = cs_next_stream_id c"
  by (auto simp: decode_header_block_def Let_def split: if_splits sum.splits prod.splits)

lemma next_id_windows:
  "conn_consume_recv_window n c = Inr c' \<Longrightarrow> cs_next_stream_id c' = cs_next_stream_id c"
  "conn_update_send_window n c = Inr c' \<Longrightarrow> cs_next_stream_id c' = cs_next_stream_id c"
  "conn_update_recv_window n c = Inr c' \<Longrightarrow> cs_next_stream_id c' = cs_next_stream_id c"
  by (auto simp: conn_consume_recv_window_def conn_update_send_window_def conn_update_recv_window_def Let_def
      split: if_splits)

lemma keep_update_recv:
  assumes "conn_inv c"
  shows "conn_inv (keep c (conn_update_recv_window n c))"
    "cs_next_stream_id (keep c (conn_update_recv_window n c)) = cs_next_stream_id c"
proof -
  have "conn_inv (keep c (conn_update_recv_window n c)) \<and>
    cs_next_stream_id (keep c (conn_update_recv_window n c)) = cs_next_stream_id c"
  proof (cases "conn_update_recv_window n c")
    case (Inr c')
    then show ?thesis using conn_inv_windows(4) [OF assms Inr] next_id_windows(3) [OF Inr] by simp
  qed (use assms in simp)
  then show "conn_inv (keep c (conn_update_recv_window n c))"
    "cs_next_stream_id (keep c (conn_update_recv_window n c)) = cs_next_stream_id c" by simp_all
qed

subsection \<open>Every handler keeps it\<close>

lemma rst_stream_ok:
  assumes "engine_inv e" "make_rst_stream k ec e = (f, e')"
  shows "step_ok e e' [f]"
  using assms step_ok_quiet(1) [OF assms(1), of "modify_stream k stream_reset (en_state e)" "[f]"]
  by (auto simp: make_rst_stream_def engine_inv_def conn_inv_modify_ops(2))

lemma handle_settings_ok:
  assumes "engine_inv e" "handle_settings ops f e = (e', ev, out)"
  shows "step_ok e e' out"
proof -
  obtain r c where r: "apply_remote_settings (eo_hpack ops) f (en_state e) = (r, c)" by fastforce
  have c: "conn_inv c" "cs_next_stream_id c = cs_next_stream_id (en_state e)"
    using conn_inv_remote [OF _ r] next_id_remote [OF r] assms(1) by (auto simp: engine_inv_def)
  then show ?thesis
    using assms(2) r step_ok_quiet [OF assms(1) c] conn_inv_table_size [OF c(1)]
      step_ok_quiet(3) [OF assms(1), of "set_encoder_table_size n c" for n]
    by (auto simp: handle_settings_def Let_def split: if_splits sum.splits)
qed

lemma complete_headers_ok:
  assumes "engine_inv e" "complete_headers ops k b es e = (e', ev, out)"
  shows "step_ok e e' out"
proof -
  obtain r c where r: "decode_header_block (eo_hpack ops) b (en_state e) = (r, c)" by fastforce
  have c: "conn_inv c" "cs_next_stream_id c = cs_next_stream_id (en_state e)"
    using conn_inv_decode [OF _ r] next_id_decode [OF r] assms(1) by (auto simp: engine_inv_def)
  moreover have "conn_inv (put_stream k (keep s (recv_end_stream s)) c)" if "get_stream c k = Some s" for s
    using conn_inv_stream_step [OF c(1) that, of OpRecvEnd] by simp
  ultimately show ?thesis
    using assms(2) r step_ok_quiet(1) [OF assms(1)]
    by (auto simp: complete_headers_def Let_def split: if_splits sum.splits option.splits)
qed

lemma assembled_ok:
  assumes "engine_inv e" "assembler_inv a" "assembled ops r (e\<lparr>en_continuation := a\<rparr>) = (e', ev, out)"
  shows "step_ok e e' out"
proof -
  let ?e = "e\<lparr>en_continuation := a\<rparr>"
  have inv: "engine_inv ?e" using assms(1,2) by (simp add: engine_inv_def)
  have "step_ok ?e e' out"
    using assms(3) complete_headers_ok [OF inv] step_ok_quiet(1) [OF inv, of "en_state e"] inv
    by (auto simp: assembled_def engine_inv_def split: AssemblyResult.splits)
  then show ?thesis by (simp add: step_ok_def)
qed

lemma handle_headers_ok:
  assumes "engine_inv e" "handle_headers ops f e = (e', ev, out)"
  shows "step_ok e e' out"
proof -
  obtain r a where p: "push_headers (hf_stream_id f) (hf_header_block f) (hf_end_stream f) (hf_end_headers f)
      (en_continuation e) = (r, a)" by fastforce
  then have "assembler_inv a" using push_headers_inv [OF _ p] assms(1) by (simp add: engine_inv_def)
  then show ?thesis using assembled_ok [OF assms(1)] assms(2) p by (auto simp: handle_headers_def)
qed

lemma handle_continuation_ok:
  assumes "engine_inv e" "handle_continuation ops f e = (e', ev, out)"
  shows "step_ok e e' out"
proof -
  obtain r a where p: "push_continuation (cf_stream_id f) (cf_header_block f) (cf_end_headers f)
      (en_continuation e) = (r, a)" by fastforce
  then have "assembler_inv a" using push_continuation_inv [OF _ p] assms(1) by (simp add: engine_inv_def)
  then show ?thesis using assembled_ok [OF assms(1)] assms(2) p by (auto simp: handle_continuation_def)
qed

lemma replenish_ok:
  assumes "engine_inv e" "replenish ops k n rw iw e = (e', out)"
  shows "step_ok e e' out"
proof -
  obtain r0 fc1 where r0: "eo_on_data_received ops (en_flow_control e) 0 n (cs_recv_window (en_state e))
                        (en_conn_initial_recv_window e) = (r0, fc1)" by fastforce
  obtain r1 fc2 where r1: "eo_on_data_received ops fc1 k n rw iw = (r1, fc2)" by fastforce
  define c1 where "c1 = (case r0 of Some i \<Rightarrow> keep (en_state e) (conn_update_recv_window i (en_state e)) | None \<Rightarrow> en_state e)"
  define c2 where "c2 = (case r1 of Some i \<Rightarrow> modify_stream k (\<lambda>s. keep s (stream_update_recv_window i s)) c1 | None \<Rightarrow> c1)"
  have c1: "conn_inv c1" "cs_next_stream_id c1 = cs_next_stream_id (en_state e)"
    using assms(1) keep_update_recv by (auto simp: c1_def engine_inv_def split: option.split)
  have c2: "conn_inv c2" "cs_next_stream_id c2 = cs_next_stream_id (en_state e)"
    using c1 conn_inv_modify_ops(4) by (auto simp: c2_def split: option.split)
  have "e' = e\<lparr>en_state := c2, en_flow_control := fc2\<rparr> \<and> (\<forall>j. sent_on j out = [])"
    using assms(2) r0 r1 by (auto simp: replenish_def Let_def c1_def c2_def make_window_update_def split: option.splits)
  then show ?thesis using step_ok_quiet(2) [OF assms(1) c2] by simp
qed

lemma deliver_data_ok:
  assumes "engine_inv e" "deliver_data ops f rw iw e = (e', ev, out)"
  shows "step_ok e e' out"
proof -
  obtain e1 where e1: "(if flow_len f > 0 then replenish ops (df_stream_id f) (flow_len f) rw iw e else (e, [])) = (e1, out)"
    using assms(2) by (auto simp: deliver_data_def Let_def split: prod.splits)
  have ok: "step_ok e e1 out"
    using e1 replenish_ok [OF assms(1)] step_ok_refl [OF assms(1)] by (auto split: if_splits)
  then have inv: "engine_inv e1" by (simp add: step_ok_def)
  then have "step_ok e1 e' []"
    using assms(2) e1 step_ok_refl [OF inv] step_ok_quiet(2) [OF inv conn_inv_misc(2), of "en_state e1" "[]"]
    by (auto simp: deliver_data_def Let_def engine_inv_def step_ok_def split: if_splits prod.splits)
  then show ?thesis using step_ok_trans [OF ok] by fastforce
qed

lemma handle_data_ok:
  assumes inv: "engine_inv e" and h: "handle_data ops f e = (e', ev, out)"
  shows "step_ok e e' out"
proof (cases "conn_consume_recv_window (flow_len f) (en_state e)")
  case (Inl er)
  then show ?thesis
    using h step_ok_quiet(1) [OF inv, of "en_state e" out] inv
    by (auto simp: handle_data_def Let_def engine_inv_def)
next
  case (Inr c)
  let ?e = "e\<lparr>en_state := c\<rparr>"
  have c: "conn_inv c" "cs_next_stream_id c = cs_next_stream_id (en_state e)"
    using inv conn_inv_windows(2) [OF _ Inr] next_id_windows(1) [OF Inr] by (auto simp: engine_inv_def)
  have ok: "step_ok e ?e []" using step_ok_quiet(1) [OF inv c] by simp
  then have inv': "engine_inv ?e" by (simp add: step_ok_def)
  have "step_ok ?e e' out"
  proof (cases "get_stream c (df_stream_id f)")
    case None
    then show ?thesis using h Inr deliver_data_ok [OF inv'] by (auto simp: handle_data_def Let_def)
  next
    case (Some s)
    have st: "step_ok ?e e' out" if "stream_consume_recv_window (flow_len f) s = Inr s1" "can_receive (st_state s)" for s1
    proof -
      let ?s2 = "if df_end_stream f then keep s1 (recv_end_stream s1) else s1"
      have "conn_inv (put_stream (df_stream_id f) s1 c)"
        using conn_inv_stream_step [OF c(1) Some, of "OpConsumeRecv (flow_len f)"] that by simp
      moreover from this have "conn_inv (put_stream (df_stream_id f) (keep s1 (recv_end_stream s1)) (put_stream (df_stream_id f) s1 c))"
        using conn_inv_stream_step [of "put_stream (df_stream_id f) s1 c" "df_stream_id f" s1 OpRecvEnd] by simp
      ultimately have "conn_inv (put_stream (df_stream_id f) ?s2 c)" by (simp add: put_stream_def)
      then have ok2: "step_ok ?e (?e\<lparr>en_state := put_stream (df_stream_id f) ?s2 c\<rparr>) []"
        using step_ok_quiet(1) [OF inv'] by simp
      then have "step_ok (?e\<lparr>en_state := put_stream (df_stream_id f) ?s2 c\<rparr>) e' out"
        using h Inr Some that deliver_data_ok by (fastforce simp: handle_data_def Let_def step_ok_def)
      then show ?thesis using step_ok_trans [OF ok2] by fastforce
    qed
    show ?thesis
      using h Inr Some st rst_stream_ok [OF inv']
      by (auto simp: handle_data_def Let_def split: if_splits sum.splits prod.splits)
  qed
  then show ?thesis using step_ok_trans [OF ok] by fastforce
qed

lemma drain_ids:
  "drain_loop ps frames e = Some (out, e') \<Longrightarrow> conn_inv (en_state e) \<Longrightarrow>
   pd_stream_id ` set (en_pending_data e') \<subseteq> pd_stream_id ` set (en_pending_data e) \<union> pd_stream_id ` set ps \<and>
   cs_next_stream_id (en_state e') = cs_next_stream_id (en_state e)"
proof (induction ps arbitrary: frames e)
  case (Cons p ps)
  let ?e = "sent_state (pd_stream_id p) (pd_data p) (pd_end_stream p) e"
  have "pd_stream_id ` set (en_pending_data ?e) \<subseteq> insert (pd_stream_id p) (pd_stream_id ` set (en_pending_data e))"
    "cs_next_stream_id (en_state ?e) = cs_next_stream_id (en_state e)"
    by (auto simp: sent_state_def Let_def pend_def)
  moreover have "drain_loop ps (frames @ sent_frames (pd_stream_id p) (pd_data p) (pd_end_stream p) e) ?e = Some (out, e')"
    using Cons.prems(1) build_data_spec [OF Cons.prems(2)] by simp
  note Cons.IH [OF this sent_state_inv [OF Cons.prems(2)]]
  ultimately show ?case by (simp, blast)
qed simp

lemma window_opened_ok:
  assumes "engine_inv e"
  shows "\<exists>e' ev out. window_opened f e = Some (e', ev, out) \<and> step_ok e e' out"
proof (cases "en_pending_data e = []")
  case True
  then show ?thesis using step_ok_refl [OF assms] by (simp add: window_opened_def)
next
  case False
  obtain new e' where d: "drain_pending_data e = Some (new, e')" "conn_inv (en_state e')"
    "nonempty_pending (en_pending_data e')" "en_codec e' = en_codec e" "en_continuation e' = en_continuation e"
    "\<And>j. waiting_on j (en_pending_data e) = sent_on j new @ waiting_on j (en_pending_data e')"
    using drain_pending_conserves [of e] assms by (auto simp: engine_inv_def)
  have "pd_stream_id ` set (en_pending_data e') \<subseteq> pd_stream_id ` set (en_pending_data e)"
    "cs_next_stream_id (en_state e') = cs_next_stream_id (en_state e)"
    using drain_ids [OF d(1) [unfolded drain_pending_data_def]] assms by (auto simp: engine_inv_def)
  then have "step_ok e e' new" using assms d(2-6) by (simp add: step_ok_def engine_inv_def)
  then show ?thesis using False d(1) by (simp add: window_opened_def)
qed

lemma handle_window_update_ok:
  assumes inv: "engine_inv e"
  shows "\<exists>e' ev out. handle_window_update f e = Some (e', ev, out) \<and> step_ok e e' out"
proof -
  let ?k = "wf_stream_id f" let ?n = "wf_increment f"
  have ci: "conn_inv (en_state e)" using inv by (simp add: engine_inv_def)
  have open_ok: "\<exists>e' ev out. window_opened f (e\<lparr>en_state := c\<rparr>) = Some (e', ev, out) \<and> step_ok e e' out"
    if "conn_inv c" "cs_next_stream_id c = cs_next_stream_id (en_state e)" for c
  proof -
    have ok: "step_ok e (e\<lparr>en_state := c\<rparr>) []" using step_ok_quiet(1) [OF inv that] by simp
    then have "engine_inv (e\<lparr>en_state := c\<rparr>)" by (simp add: step_ok_def)
    then show ?thesis using window_opened_ok [of "e\<lparr>en_state := c\<rparr>" f] step_ok_trans [OF ok] by fastforce
  qed
  have self: "\<exists>e' ev out. window_opened f e = Some (e', ev, out) \<and> step_ok e e' out"
    by (rule window_opened_ok [OF inv])
  note rst = rst_stream_ok [OF inv]
  have away: "step_ok e e [make_goaway e ec]" for ec
    using step_ok_quiet(1) [OF inv ci, of "[make_goaway e ec]"] by simp
  have conn: "conn_inv c \<and> cs_next_stream_id c = cs_next_stream_id (en_state e)"
    if "conn_update_send_window ?n (en_state e) = Inr c" for c
    using conn_inv_windows(3) [OF ci that] next_id_windows(2) [OF that] by simp
  have strm: "conn_inv (put_stream ?k s1 (en_state e))"
    if "get_stream (en_state e) ?k = Some s" "stream_update_send_window ?n s = Inr s1" for s s1
    using conn_inv_stream_step [OF ci that(1), of "OpUpdateSend ?n"] that(2) by simp
  show ?thesis
  proof (cases "?n = 0")
    case True
    then show ?thesis
      using rst away by (auto simp: handle_window_update_def Let_def split: prod.splits)
  next
    case n: False
    show ?thesis
    proof (cases "?k = 0")
      case True
      then show ?thesis
        using n away open_ok conn by (auto simp: handle_window_update_def Let_def split: sum.splits)
    next
      case False
      then show ?thesis
        using n rst self open_ok strm
        by (auto simp: handle_window_update_def Let_def split: sum.splits option.splits prod.splits)
    qed
  qed
qed

lemma handle_frame_ok:
  assumes inv: "engine_inv e"
  shows "\<exists>e' ev out. handle_frame ops f e = Some (e', ev, out) \<and> step_ok e e' out"
proof -
  have ci: "conn_inv (en_state e)" using inv by (simp add: engine_inv_def)
  have away: "step_ok e e [make_goaway e ec]" for ec
    using step_ok_quiet(1) [OF inv ci, of "[make_goaway e ec]"] by simp
  show ?thesis
  proof (cases f)
    case (Settings x)
    obtain e' ev out where "handle_settings ops x e = (e', ev, out)" by (metis surj_pair)
    then show ?thesis using Settings handle_settings_ok [OF inv] by (simp add: handle_frame_def)
  next
    case (Headers x)
    obtain e' ev out where "handle_headers ops x e = (e', ev, out)" by (metis surj_pair)
    then show ?thesis using Headers handle_headers_ok [OF inv] by (simp add: handle_frame_def)
  next
    case (Continuation x)
    obtain e' ev out where "handle_continuation ops x e = (e', ev, out)" by (metis surj_pair)
    then show ?thesis using Continuation handle_continuation_ok [OF inv] by (simp add: handle_frame_def)
  next
    case (Data x)
    obtain e' ev out where "handle_data ops x e = (e', ev, out)" by (metis surj_pair)
    then show ?thesis using Data handle_data_ok [OF inv] by (simp add: handle_frame_def)
  next
    case (WindowUpdate x)
    then show ?thesis using handle_window_update_ok [OF inv, of x] by (simp add: handle_frame_def)
  next
    case (Ping x)
    then show ?thesis
      using step_ok_quiet(1) [OF inv ci, of "[make_ping_ack (pgf_data x)]"] step_ok_refl [OF inv]
      by (simp add: handle_frame_def handle_ping_def)
  next
    case (GoAway x)
    then show ?thesis
      using step_ok_quiet(1) [OF inv conn_inv_misc(1) [OF ci], of _ _ "[]"]
      by (simp add: handle_frame_def engine_handle_goaway_def)
  next
    case (RstStream x)
    then show ?thesis
      using step_ok_quiet(1) [OF inv conn_inv_misc(2) [OF conn_inv_modify_ops(2) [OF ci]], of _ "[]"]
      by (simp add: handle_frame_def handle_rst_stream_def)
  qed (use away step_ok_refl [OF inv] in \<open>simp_all add: handle_frame_def\<close>)
qed

lemma process_ok:
  assumes "engine_inv e"
  shows "\<exists>rest e' ev out. process ops input e = Some (rest, e', ev, out) \<and> step_ok e e' out"
  using assms
proof (induction "length input" arbitrary: input e rule: less_induct)
  case less
  obtain r rest where d: "decode (en_codec e) input = (r, rest)" by fastforce
  show ?case
  proof (cases r)
    case (Frame f)
    obtain e1 ev out where h: "handle_frame ops f e = Some (e1, ev, out)" and ok: "step_ok e e1 out"
      using handle_frame_ok [OF less.prems] by blast
    have "length rest < length input" using d Frame decode_frame_shorter by blast
    then obtain rest' e2 ev' out' where p: "process ops rest e1 = Some (rest', e2, ev', out')" and ok2: "step_ok e1 e2 out'"
      using less.hyps [of rest e1] ok by (auto simp: step_ok_def)
    show ?thesis
      using d Frame h p step_ok_trans [OF ok ok2] by (subst process.simps) simp
  next
    case (NeedMoreData n)
    then show ?thesis using d step_ok_refl [OF less.prems] by (subst process.simps) simp
  next
    case (DecodeFail er)
    then show ?thesis
      using d step_ok_quiet(1) [OF less.prems, of "en_state e" "[make_goaway e EC_ProtocolError]"] less.prems
      by (subst process.simps) (simp add: engine_inv_def)
  qed
qed

subsection \<open>Requests\<close>

lemma continuation_loop_Nil [simp]: "continuation_loop k m [] frames = Some frames"
  by (subst continuation_loop.simps) simp

fun continuation_frames :: "u32 \<Rightarrow> bytes list \<Rightarrow> H2Frame list" where
  "continuation_frames k [] = []"
| "continuation_frames k [c] = [Continuation \<lparr>cf_stream_id = k, cf_header_block = c, cf_end_headers = True\<rparr>]"
| "continuation_frames k (c # cs) =
     Continuation \<lparr>cf_stream_id = k, cf_header_block = c, cf_end_headers = False\<rparr> # continuation_frames k cs"

lemma continuation_loop_spec:
  "0 < m \<Longrightarrow> continuation_loop k m xs frames = Some (frames @ continuation_frames k (chunks m xs))"
proof (induction "length xs" arbitrary: xs frames rule: less_induct)
  case less
  show ?case
  proof (cases "xs = []")
    case False
    let ?c = "min (length xs) m"
    have eq: "take ?c xs = take m xs" "drop ?c xs = drop m xs" by (simp_all add: min_def)
    have "continuation_loop k m xs frames = continuation_loop k m (drop m xs)
      (frames @ [Continuation \<lparr>cf_stream_id = k, cf_header_block = take m xs, cf_end_headers = (drop m xs = [])\<rparr>])"
      using False by (subst continuation_loop.simps) (simp only: Let_def eq if_False)
    also have "\<dots> = Some ((frames @ [Continuation \<lparr>cf_stream_id = k, cf_header_block = take m xs, cf_end_headers = (drop m xs = [])\<rparr>])
      @ continuation_frames k (chunks m (drop m xs)))"
      using less.hyps [of "drop m xs"] less.prems False by simp
    also have "\<dots> = Some (frames @ continuation_frames k (chunks m xs))"
    proof -
      have ch: "chunks m xs = take m xs # chunks m (drop m xs)"
        using False less.prems by (subst chunks.simps) simp
      show ?thesis
      proof (cases "drop m xs = []")
        case True
        then show ?thesis using ch by (simp only: chunks_Nil) simp
      next
        case nd: False
        then obtain d ds where "chunks m (drop m xs) = d # ds"
          using chunks_eq_Nil [OF less.prems, of "drop m xs"] by (cases "chunks m (drop m xs)") auto
        then show ?thesis using ch nd by simp
      qed
    qed
    finally show ?thesis .
  qed simp
qed

text \<open>The block that the encoder produces for a request, and the state behind it.\<close>

definition encoded_block :: "(bytes \<times> bytes) list \<Rightarrow> ('d, 'f) H2Engine \<Rightarrow> bytes \<times> 'd ConnState" where
  "encoded_block headers e =
     (case en_hpack_policy e of
        Some policy \<Rightarrow> encode_headers_with_policy headers policy (en_state e)
      | None \<Rightarrow> conn_encode_headers headers (en_state e))"

lemma encoded_block_keeps:
  assumes "encoded_block hs e = (block, c)"
  shows "conn_inv (en_state e) \<Longrightarrow> conn_inv c"
    "cs_remote_settings c = cs_remote_settings (en_state e)" "cs_next_stream_id c = cs_next_stream_id (en_state e)"
    "budget k c = budget k (en_state e)"
proof -
  have "\<exists>enc. c = (en_state e)\<lparr>cs_hpack_encoder := enc\<rparr>"
    using assms by (cases "en_hpack_policy e")
      (auto simp: encoded_block_def encode_headers_with_policy_def conn_encode_headers_def split: prod.splits)
  then show "cs_remote_settings c = cs_remote_settings (en_state e)"
    "cs_next_stream_id c = cs_next_stream_id (en_state e)" "budget k c = budget k (en_state e)"
    by (auto simp: budget_def get_stream_def split: option.split)
  show "conn_inv (en_state e) \<Longrightarrow> conn_inv c"
    using assms conn_inv_encode by (cases "en_hpack_policy e") (auto simp: encoded_block_def)
qed

definition header_frames :: "u32 \<Rightarrow> bytes \<Rightarrow> bool \<Rightarrow> PrioritySpec option \<Rightarrow> nat \<Rightarrow> H2Frame list" where
  "header_frames k block es priority m =
     (let first_max = m - (if priority \<noteq> None then 5 else 0) in
      if length block \<le> first_max
      then [Headers \<lparr>hf_stream_id = k, hf_header_block = block, hf_end_stream = es, hf_end_headers = True,
                     hf_priority = priority, hf_padding = None\<rparr>]
      else Headers \<lparr>hf_stream_id = k, hf_header_block = take first_max block, hf_end_stream = es,
                    hf_end_headers = False, hf_priority = priority, hf_padding = None\<rparr>
           # continuation_frames k (chunks m (drop first_max block)))"

lemma build_headers_spec:
  assumes "conn_inv (en_state e)" "encoded_block hs e = (block, c)"
  shows "build_headers k hs es prio e =
    Some (header_frames k block es (resolve_priority e prio) (unat (hs_max_frame_size (cs_remote_settings (en_state e)))),
          e\<lparr>en_state := (if es then end_stream_on k c else c), en_last_client_stream_id := Some k\<rparr>)"
proof -
  have m: "0 < unat (hs_max_frame_size (cs_remote_settings (en_state e)))"
    using max_frame_size_pos [OF assms(1)] by simp
  show ?thesis
    unfolding build_headers_def encoded_block_def [symmetric] assms(2) Let_def prod.case
      encoded_block_keeps(2) [OF assms(2)]
    by (simp add: header_frames_def continuation_loop_spec [OF m] end_stream_on_def Let_def cong: if_cong)
qed

lemma sent_on_header_frames: "sent_on j (header_frames k block es p m) = []"
proof -
  have "sent_on j (continuation_frames k cs) = []" for cs
    by (induction k cs rule: continuation_frames.induct) simp_all
  then show ?thesis by (simp add: header_frames_def Let_def)
qed

lemma build_headers_ok:
  assumes "engine_inv e"
  shows "\<exists>frames e'. build_headers k hs es prio e = Some (frames, e') \<and> step_ok e e' frames \<and>
    en_pending_data e' = en_pending_data e \<and> budget j (en_state e') = budget j (en_state e)"
proof -
  obtain block c where b: "encoded_block hs e = (block, c)" by fastforce
  have ci: "conn_inv (en_state e)" using assms by (simp add: engine_inv_def)
  then have c: "conn_inv (if es then end_stream_on k c else c)"
    using encoded_block_keeps(1) [OF b] by (simp add: end_stream_on_def conn_inv_modify_ops(1))
  show ?thesis
    using build_headers_spec [OF ci b, of k es prio] c encoded_block_keeps(3,4) [OF b] assms
    by (simp add: step_ok_def engine_inv_def sent_on_header_frames)
qed

lemma build_native_request_ok:
  fixes r :: NativeH2Request
  assumes inv: "engine_inv e" and fresh: "k \<notin> pd_stream_id ` set (en_pending_data e)"
  defines "body \<equiv> unwrap_or [] (nr_body r)"
  shows "\<exists>frames e'. build_native_request k r e = Some (frames, e') \<and> engine_inv e' \<and> en_codec e' = en_codec e \<and>
    cs_next_stream_id (en_state e') = cs_next_stream_id (en_state e) \<and>
    pd_stream_id ` set (en_pending_data e') \<subseteq> insert k (pd_stream_id ` set (en_pending_data e)) \<and>
    (\<forall>j. waiting_on j (en_pending_data e) @ (if j = k then body else []) =
         sent_on j frames @ waiting_on j (en_pending_data e'))"
proof -
  obtain hs has_body where h: "build_native_request k r e = do {
        (frames, e1) \<leftarrow> build_headers k hs (\<not> has_body) (nr_priority r) e;
        (case nr_body r of
           Some body_data \<Rightarrow>
             if body_data \<noteq> [] then do {
               (data_frames, e2) \<leftarrow> build_data k body_data True e1;
               Some (frames @ data_frames, e2)
             } else Some (frames, e1)
         | None \<Rightarrow> Some (frames, e1))
      }"
    unfolding build_native_request_def Let_def by blast
  obtain frames e1 where b: "build_headers k hs (\<not> has_body) (nr_priority r) e = Some (frames, e1)"
      "step_ok e e1 frames" "en_pending_data e1 = en_pending_data e"
    using build_headers_ok [OF inv] by blast
  have s: "\<And>j. sent_on j frames = []" using b(2,3) by (simp add: step_ok_def)
  show ?thesis
  proof (cases "body = []")
    case True
    then have "build_native_request k r e = Some (frames, e1)"
      using h b(1) by (auto simp: body_def unwrap_or_def split: option.splits)
    then show ?thesis using b s True by (auto simp: step_ok_def)
  next
    case False
    then have nb: "nr_body r = Some body" by (auto simp: body_def unwrap_or_def split: option.splits)
    have inv1: "engine_inv e1" using b(2) by (simp add: step_ok_def)
    let ?e = "sent_state k body True e1"
    have ci: "conn_inv (en_state e1)" using inv1 by (simp add: engine_inv_def)
    have r: "build_native_request k r e = Some (frames @ sent_frames k body True e1, ?e)"
      using h b(1) nb False build_data_spec [OF ci] by simp
    have inv2: "engine_inv ?e"
      using inv1 sent_state_inv [OF ci] by (simp add: engine_inv_def sent_state_pending)
    have next_id: "cs_next_stream_id (en_state ?e) = cs_next_stream_id (en_state e)"
      using b(2) by (simp add: sent_state_def Let_def step_ok_def)
    have ids: "pd_stream_id ` set (en_pending_data ?e) \<subseteq> insert k (pd_stream_id ` set (en_pending_data e))"
      using b(3) by (auto simp: sent_state_def Let_def pend_def)
    have w: "waiting_on k (en_pending_data e1) = []"
      using fresh b(3) by (auto simp: waiting_on_def filter_empty_conv image_iff)
    have "waiting_on j (en_pending_data e) @ (if j = k then body else []) =
         sent_on j (frames @ sent_frames k body True e1) @ waiting_on j (en_pending_data ?e)" for j
      using w b(3) by (simp add: s sent_on_sent_frames [OF ci] sent_state_def Let_def pend_def min_def)
    then show ?thesis
      using r inv2 ids next_id b(2) by (simp add: step_ok_def)
  qed
qed

subsection \<open>Runs\<close>

text \<open>
  A connection as its driver uses it: bytes arrive and are appended to the input buffer, or a request is
  issued on a new stream. A run collects all frames sent and the bodies submitted.
\<close>

datatype engine_op = Inbound bytes | SendRequest NativeH2Request

fun engine_step ::
  "('d, 'f) engine_ops \<Rightarrow> engine_op \<Rightarrow> bytes \<times> ('d, 'f) H2Engine \<Rightarrow>
   ((bytes \<times> ('d, 'f) H2Engine) \<times> H2Frame list \<times> (u32 \<times> bytes) list) option" where
  "engine_step ops (Inbound chunk) (input, e) = do {
     (rest, e1, events, outbound) \<leftarrow> process ops (input @ chunk) e;
     Some ((rest, e1), outbound, [])
   }"
| "engine_step ops (SendRequest r) (input, e) = (let (k, e1) = engine_open_stream e in do {
     (frames, e2) \<leftarrow> build_native_request k r e1;
     Some ((input, e2), frames, [(k, unwrap_or [] (nr_body r))])
   })"

fun engine_run ::
  "('d, 'f) engine_ops \<Rightarrow> engine_op list \<Rightarrow> bytes \<times> ('d, 'f) H2Engine \<Rightarrow>
   ((bytes \<times> ('d, 'f) H2Engine) \<times> H2Frame list \<times> (u32 \<times> bytes) list) option" where
  "engine_run ops [] st = Some (st, [], [])"
| "engine_run ops (op # todo) st = do {
     (st1, out1, bodies1) \<leftarrow> engine_step ops op st;
     (st2, out2, bodies2) \<leftarrow> engine_run ops todo st1;
     Some (st2, out1 @ out2, bodies1 @ bodies2)
   }"

definition body_on :: "u32 \<Rightarrow> (u32 \<times> bytes) list \<Rightarrow> bytes" where
  "body_on k bodies = concat (map snd (filter (\<lambda>b. fst b = k) bodies))"

lemma body_on_simps [simp]:
  "body_on k [] = []" "body_on k (b # bs) = (if fst b = k then snd b else []) @ body_on k bs"
  "body_on k (bs @ cs) = body_on k bs @ body_on k cs"
  by (simp_all add: body_on_def)

text \<open>The ids in use lie below the next one, which has not wrapped around.\<close>

definition ids_below :: "nat \<Rightarrow> ('d, 'f) H2Engine \<Rightarrow> bool" where
  "ids_below n e \<longleftrightarrow> unat (cs_next_stream_id (en_state e)) = 2 * n + 1 \<and> n < 2 ^ 31 \<and>
     (\<forall>p \<in> set (en_pending_data e). unat (pd_stream_id p) < 2 * n + 1)"

fun requests :: "engine_op list \<Rightarrow> nat" where
  "requests [] = 0"
| "requests (Inbound _ # ops) = requests ops"
| "requests (SendRequest _ # ops) = Suc (requests ops)"

lemma open_stream_ok:
  assumes "engine_inv e" "engine_open_stream e = (k, e1)"
  shows "engine_inv e1" "k = cs_next_stream_id (en_state e)" "en_pending_data e1 = en_pending_data e"
    "cs_next_stream_id (en_state e1) = k + 2" "en_codec e1 = en_codec e"
proof -
  have "conn_inv (en_state e1)"
    using conn_inv_open [of "en_state e"] assms by (auto simp: engine_open_stream_def engine_inv_def split: prod.splits)
  then show "engine_inv e1" "k = cs_next_stream_id (en_state e)" "en_pending_data e1 = en_pending_data e"
    "cs_next_stream_id (en_state e1) = k + 2" "en_codec e1 = en_codec e"
    using assms by (auto simp: engine_open_stream_def open_stream_def Let_def engine_inv_def)
qed

lemma engine_step_ok:
  assumes inv: "engine_inv e" and ids: "ids_below n e" and bound: "n + requests [op] < 2 ^ 31"
  shows "\<exists>input' e' out bodies. engine_step ops op (input, e) = Some ((input', e'), out, bodies) \<and>
    engine_inv e' \<and> ids_below (n + requests [op]) e' \<and>
    map (unat \<circ> fst) bodies = map (\<lambda>i. 2 * i + 1) [n ..< n + requests [op]] \<and>
    (\<forall>k. waiting_on k (en_pending_data e) @ body_on k bodies = sent_on k out @ waiting_on k (en_pending_data e'))"
proof (cases op)
  case (Inbound chunk)
  obtain rest e' ev out where p: "process ops (input @ chunk) e = Some (rest, e', ev, out)" "step_ok e e' out"
    using process_ok [OF inv] by blast
  have "ids_below n e'" using p(2) ids by (fastforce simp: step_ok_def ids_below_def)
  then show ?thesis using p Inbound by (simp add: step_ok_def)
next
  case (SendRequest r)
  obtain k e1 where o: "engine_open_stream e = (k, e1)" by fastforce
  note o1 = open_stream_ok [OF inv o]
  have uk: "unat k = 2 * n + 1" using o1(2) ids by (simp add: ids_below_def)
  have fresh: "k \<notin> pd_stream_id ` set (en_pending_data e1)"
    using ids uk o1(3) by (auto simp: ids_below_def)
  obtain frames e' where b: "build_native_request k r e1 = Some (frames, e')" "engine_inv e'"
    "cs_next_stream_id (en_state e') = cs_next_stream_id (en_state e1)"
    "pd_stream_id ` set (en_pending_data e') \<subseteq> insert k (pd_stream_id ` set (en_pending_data e1))"
    "\<And>j. waiting_on j (en_pending_data e1) @ (if j = k then unwrap_or [] (nr_body r) else []) =
         sent_on j frames @ waiting_on j (en_pending_data e')"
    using build_native_request_ok [OF o1(1) fresh, of r] by blast
  have "unat (k + 2) = 2 * (n + 1) + 1"
    using uk bound SendRequest by (simp add: unat_word_ariths)
  moreover have "\<forall>p \<in> set (en_pending_data e'). unat (pd_stream_id p) < 2 * (n + 1) + 1"
  proof
    fix p assume "p \<in> set (en_pending_data e')"
    then have "pd_stream_id p = k \<or> pd_stream_id p \<in> pd_stream_id ` set (en_pending_data e)"
      using b(4) o1(3) by auto
    then show "unat (pd_stream_id p) < 2 * (n + 1) + 1"
      using uk ids by (auto simp: ids_below_def)
  qed
  ultimately have "ids_below (n + 1) e'"
    using b(3) o1(4) bound SendRequest by (simp add: ids_below_def)
  moreover have "waiting_on j (en_pending_data e) @ body_on j [(k, unwrap_or [] (nr_body r))] =
      sent_on j frames @ waiting_on j (en_pending_data e')" for j
    using b(5) [of j] o1(3) by (simp add: eq_commute [of k] cong: if_cong)
  ultimately show ?thesis
    using SendRequest o b(1,2) uk by (simp del: body_on_simps)
qed

lemma engine_run_ok:
  assumes "engine_inv e" "ids_below n e" "n + requests todo < 2 ^ 31"
  shows "\<exists>input' e' out bodies. engine_run ops todo (input, e) = Some ((input', e'), out, bodies) \<and>
    engine_inv e' \<and>
    map (unat \<circ> fst) bodies = map (\<lambda>i. 2 * i + 1) [n ..< n + requests todo] \<and>
    (\<forall>k. waiting_on k (en_pending_data e) @ body_on k bodies = sent_on k out @ waiting_on k (en_pending_data e'))"
  using assms
proof (induction todo arbitrary: n input e)
  case (Cons op todo)
  have r: "requests (op # todo) = requests [op] + requests todo" by (cases op) simp_all
  have b1: "n + requests [op] < 2 ^ 31" and b2: "n + requests [op] + requests todo < 2 ^ 31"
    using Cons.prems(3) unfolding r by linarith+
  obtain input1 e1 out1 bodies1 where s: "engine_step ops op (input, e) = Some ((input1, e1), out1, bodies1)"
    "engine_inv e1" "ids_below (n + requests [op]) e1"
    "map (unat \<circ> fst) bodies1 = map (\<lambda>i. 2 * i + 1) [n ..< n + requests [op]]"
    and w1: "\<And>k. waiting_on k (en_pending_data e) @ body_on k bodies1 = sent_on k out1 @ waiting_on k (en_pending_data e1)"
    using engine_step_ok [OF Cons.prems(1,2) b1, of ops input] by blast
  obtain input2 e2 out2 bodies2 where t: "engine_run ops todo (input1, e1) = Some ((input2, e2), out2, bodies2)"
    "engine_inv e2"
    "map (unat \<circ> fst) bodies2 = map (\<lambda>i. 2 * i + 1) [n + requests [op] ..< n + requests [op] + requests todo]"
    and w2: "\<And>k. waiting_on k (en_pending_data e1) @ body_on k bodies2 = sent_on k out2 @ waiting_on k (en_pending_data e2)"
    using Cons.IH [OF s(2,3) b2, of input1] by blast
  have "[n ..< n + requests (op # todo)] = [n ..< n + requests [op]] @ [n + requests [op] ..< n + requests [op] + requests todo]"
    using upt_add_eq_append [of n "n + requests [op]" "requests todo"] by (simp add: r add.assoc)
  moreover have "waiting_on k (en_pending_data e) @ body_on k (bodies1 @ bodies2) =
      sent_on k (out1 @ out2) @ waiting_on k (en_pending_data e2)" for k
  proof -
    have "waiting_on k (en_pending_data e) @ body_on k (bodies1 @ bodies2) =
        sent_on k out1 @ (waiting_on k (en_pending_data e1) @ body_on k bodies2)"
      using w1 [of k] by (simp flip: append_assoc)
    then show ?thesis using w2 [of k] by simp
  qed
  ultimately show ?case
    using s(1,4) t
    by (intro exI [of _ input2] exI [of _ e2] exI [of _ "out1 @ out2"] exI [of _ "bodies1 @ bodies2"]) (simp add: comp_def)
qed simp

lemma engine_inv_new: "engine_inv (fst (client_with_policies ops profile fc policy))"
proof -
  let ?c = "apply_profile_settings (pr_settings profile) (conn_client (eo_hpack ops))"
  have c: "conn_inv ?c" by (simp add: conn_inv_profile conn_client_def)
  then have "conn_inv (keep ?c (conn_update_recv_window n ?c))" for n by (rule keep_update_recv)
  then show ?thesis
    using c by (simp add: client_with_policies_def engine_inv_def Let_def nonempty_pending_def split: option.split)
qed

lemma ids_below_new: "ids_below 0 (fst (client_with_policies ops profile fc policy))"
proof -
  let ?c = "apply_profile_settings (pr_settings profile) (conn_client (eo_hpack ops))"
  have n: "cs_next_stream_id ?c = 1"
    by (simp add: apply_profile_settings_def conn_client_def conn_new_def Let_def)
  have "conn_inv ?c" by (simp add: conn_inv_profile conn_client_def)
  then show ?thesis
    using n keep_update_recv(2) [of ?c "pr_window_update profile"]
    by (simp add: client_with_policies_def ids_below_def Let_def)
qed

subsection \<open>Input in pieces\<close>

text \<open>Whether the loop stops because the input is used up, rather than on a frame that does not decode.\<close>

function drains :: "('d, 'f) engine_ops \<Rightarrow> bytes \<Rightarrow> ('d, 'f) H2Engine \<Rightarrow> bool" where
  "drains ops input e =
     (case decode (en_codec e) input of
        (Frame frame, rest) \<Rightarrow>
          (case handle_frame ops frame e of None \<Rightarrow> True | Some (e1, _, _) \<Rightarrow> drains ops rest e1)
      | (NeedMoreData _, rest) \<Rightarrow> True
      | (DecodeFail _, rest) \<Rightarrow> False)"
  by pat_completeness auto
termination
  by (relation "measure (\<lambda>(ops, input, e). length input)") (auto dest: decode_frame_shorter [OF sym])

declare drains.simps [simp del]

lemma process_append:
  assumes "process ops a e = Some (rest, e1, ev1, out1)" "drains ops a e"
  shows "process ops (a @ b) e =
    map_option (\<lambda>(rest2, e2, ev2, out2). (rest2, e2, ev1 @ ev2, out1 @ out2)) (process ops (rest @ b) e1)"
  using assms
proof (induction "length a" arbitrary: a e ev1 out1 rule: less_induct)
  case less
  obtain r more where d: "decode (en_codec e) a = (r, more)" by fastforce
  show ?case
  proof (cases r)
    case (Frame f)
    obtain e' ev out where h: "handle_frame ops f e = Some (e', ev, out)"
      using less.prems(1) d Frame by (subst (asm) process.simps) (auto split: option.splits)
    obtain ev' out' where p: "process ops more e' = Some (rest, e1, ev', out')" "ev1 = ev @ ev'" "out1 = out @ out'"
      using less.prems(1) d Frame h by (subst (asm) process.simps) (auto split: option.splits)
    have dr: "drains ops more e'" using less.prems(2) d Frame h by (subst (asm) drains.simps) simp
    have da: "decode (en_codec e) (a @ b) = (Frame f, more @ b)" using decode_append [OF d] Frame by simp
    have IH: "process ops (more @ b) e' =
      map_option (\<lambda>(rest2, e2, ev2, out2). (rest2, e2, ev' @ ev2, out' @ out2)) (process ops (rest @ b) e1)"
      using less.hyps [OF _ p(1) dr] decode_frame_shorter d Frame by blast
    have "process ops (a @ b) e = (case process ops (more @ b) e' of None \<Rightarrow> None
        | Some (rest', e2, events', outbound') \<Rightarrow> Some (rest', e2, ev @ events', out @ outbound'))"
      by (subst process.simps) (simp add: da h)
    then show ?thesis using IH p by (cases "process ops (rest @ b) e1") auto
  next
    case (NeedMoreData n)
    then have "rest = a" "e1 = e" "ev1 = []" "out1 = []"
      using less.prems(1) d decode_need_more(1) [of "en_codec e" a n more] by (auto simp: process.simps [of ops a e])
    then show ?thesis by (cases "process ops (a @ b) e") auto
  next
    case (DecodeFail er)
    then show ?thesis using less.prems(2) d by (subst (asm) drains.simps) simp
  qed
qed

text \<open>A decoding error ends the pass: what was read before it stands, and no later byte is looked at.\<close>

lemma process_stuck:
  assumes "process ops a e = Some (rest, e1, ev1, out1)" "\<not> drains ops a e"
  shows "process ops (a @ b) e = Some (rest @ b, e1, ev1, out1) \<and>
    (\<exists>er ev out. ev1 = ev @ [EvError (codec_error_display er)] \<and> out1 = out @ [make_goaway e1 EC_ProtocolError])"
  using assms
proof (induction "length a" arbitrary: a e ev1 out1 rule: less_induct)
  case less
  obtain r more where d: "decode (en_codec e) a = (r, more)" by fastforce
  show ?case
  proof (cases r)
    case (Frame f)
    obtain e' ev out where h: "handle_frame ops f e = Some (e', ev, out)"
      using less.prems(1) d Frame by (subst (asm) process.simps) (auto split: option.splits)
    obtain ev' out' where p: "process ops more e' = Some (rest, e1, ev', out')" "ev1 = ev @ ev'" "out1 = out @ out'"
      using less.prems(1) d Frame h by (subst (asm) process.simps) (auto split: option.splits)
    have dr: "\<not> drains ops more e'" using less.prems(2) d Frame h by (subst (asm) drains.simps) simp
    have da: "decode (en_codec e) (a @ b) = (Frame f, more @ b)" using decode_append [OF d] Frame by simp
    have IH: "process ops (more @ b) e' = Some (rest @ b, e1, ev', out') \<and>
      (\<exists>er ev out. ev' = ev @ [EvError (codec_error_display er)] \<and> out' = out @ [make_goaway e1 EC_ProtocolError])"
      using less.hyps [OF _ p(1) dr] decode_frame_shorter d Frame by blast
    have "process ops (a @ b) e = (case process ops (more @ b) e' of None \<Rightarrow> None
        | Some (rest', e2, events', outbound') \<Rightarrow> Some (rest', e2, ev @ events', out @ outbound'))"
      by (subst process.simps) (simp add: da h)
    then show ?thesis using IH p by auto
  next
    case (NeedMoreData n)
    then show ?thesis using less.prems(2) d by (subst (asm) drains.simps) simp
  next
    case (DecodeFail er)
    then have "process ops (a @ b) e =
        Some (more @ b, e, [EvError (codec_error_display er)], [make_goaway e EC_ProtocolError])"
      using decode_append [OF d, of b] by (subst process.simps) simp
    then show ?thesis
      using less.prems(1) d DecodeFail by (auto simp: process.simps [of ops a e])
  qed
qed

subsection \<open>Properties\<close>

text \<open>
  C3. Request bodies arrive whole: on a connection from the handshake on, for any sequence of inbound
  bytes and requests (fewer than \<open>2 ^ 31\<close>, the number of client stream ids), the engine always
  returns, keeps its invariant, numbers the streams 1, 3, 5 and so on, and for every stream the body
  that was submitted is exactly the DATA bytes sent so far followed by the bytes that still wait for
  window. No byte is lost, duplicated or reordered, whatever the peer sends.
\<close>

theorem body_delivery:
  assumes "requests todo < 2 ^ 31"
  shows "\<exists>input e' out bodies.
    engine_run ops todo ([], fst (client_with_policies ops profile fc policy)) = Some ((input, e'), out, bodies) \<and>
    engine_inv e' \<and>
    map (unat \<circ> fst) bodies = map (\<lambda>i. 2 * i + 1) [0 ..< requests todo] \<and>
    (\<forall>k. body_on k bodies = sent_on k out @ waiting_on k (en_pending_data e'))"
proof -
  let ?start = "fst (client_with_policies ops profile fc policy)"
  have "en_pending_data ?start = []" by (simp add: client_with_policies_def Let_def)
  then show ?thesis
    using engine_run_ok [OF engine_inv_new [of ops profile fc policy] ids_below_new, of todo ops "[]"] assms by simp
qed

definition sample_request :: NativeH2Request where
  "sample_request =
     \<lparr>nr_method = ascii ''POST'',
      nr_uri = \<lparr>uri_authority = Some (ascii ''a.b''), uri_scheme = None, uri_path_and_query = None\<rparr>,
      nr_ordered_headers = [], nr_body = Some [1, 2, 3], nr_priority = None\<rparr>"

theorem body_delivery_witness:
  "\<exists>input e' out bodies.
    engine_run (dyn_ops unit_hpack) [SendRequest sample_request, Inbound [0, 0, 4], SendRequest sample_request]
      ([], fst (client_with_policies (dyn_ops unit_hpack) chrome_144_h2 Immediate None)) = Some ((input, e'), out, bodies) \<and>
    engine_inv e' \<and> map (unat \<circ> fst) bodies = [1, 3] \<and>
    (\<forall>k. body_on k bodies = sent_on k out @ waiting_on k (en_pending_data e'))"
  using body_delivery [of "[SendRequest sample_request, Inbound [0, 0, 4], SendRequest sample_request]"
      "dyn_ops unit_hpack" chrome_144_h2 Immediate None]
  by (simp add: upt_rec)

text \<open>
  C12. How the bytes arrive does not matter up to the first decoding error. Processing always returns. When the first
  piece of the input has no decoding error, processing it and then its unread rest together with the second piece gives
  the state, the events and the frames of processing both pieces at once. When it has one, the pass over both pieces at
  once ends at that error too, with the same state, events and frames, the last of which are the error and a GOAWAY with
  PROTOCOL_ERROR, and leaves the second piece unread.
\<close>

theorem process_incremental:
  assumes "engine_inv e"
  shows "\<exists>rest e1 ev1 out1. process ops a e = Some (rest, e1, ev1, out1) \<and>
    (if drains ops a e
     then \<exists>rest2 e2 ev2 out2. process ops (rest @ b) e1 = Some (rest2, e2, ev2, out2) \<and>
            process ops (a @ b) e = Some (rest2, e2, ev1 @ ev2, out1 @ out2)
     else process ops (a @ b) e = Some (rest @ b, e1, ev1, out1) \<and>
            (\<exists>er ev out. ev1 = ev @ [EvError (codec_error_display er)] \<and> out1 = out @ [make_goaway e1 EC_ProtocolError]))"
proof -
  obtain rest e1 ev1 out1 where p: "process ops a e = Some (rest, e1, ev1, out1)" "step_ok e e1 out1"
    using process_ok [OF assms(1)] by blast
  then have "engine_inv e1" by (simp add: step_ok_def)
  then obtain rest2 e2 ev2 out2 where q: "process ops (rest @ b) e1 = Some (rest2, e2, ev2, out2)"
    using process_ok by blast
  then show ?thesis
    using p(1) process_append [OF p(1), of b] process_stuck [OF p(1), of b] by (cases "drains ops a e") simp_all
qed

theorem process_incremental_witness:
  "\<exists>rest e1 ev1 out1 rest2 e2 ev2 out2.
    process (dyn_ops unit_hpack) [0, 0, 0] (fst (engine_client unit_hpack chrome_144_h2)) = Some (rest, e1, ev1, out1) \<and>
    process (dyn_ops unit_hpack) (rest @ [4, 1, 0, 0, 0, 0]) e1 = Some (rest2, e2, ev2, out2) \<and>
    process (dyn_ops unit_hpack) [0, 0, 0, 4, 1, 0, 0, 0, 0] (fst (engine_client unit_hpack chrome_144_h2)) =
      Some (rest2, e2, ev1 @ ev2, out1 @ out2)"
proof -
  let ?e = "fst (engine_client unit_hpack chrome_144_h2)"
  have inv: "engine_inv ?e" unfolding engine_client_def by (rule engine_inv_new)
  have "drains (dyn_ops unit_hpack) [0, 0, 0] ?e"
    by (subst drains.simps) (simp add: decode_def FRAME_HEADER_SIZE_def)
  then show ?thesis
    using process_incremental [OF inv, of "dyn_ops unit_hpack" "[0, 0, 0]" "[4, 1, 0, 0, 0, 0]"] by simp
qed

text \<open>
  C7. Equivalence of the sending loop with its specification: a non-empty body is cut at the budget that the
  connection window and the stream window leave, the sent part is split into DATA frames of the
  peer's maximum size, only the last frame of a completely sent body has END_STREAM, both windows fall
  by the number of bytes sent, and exactly the remainder waits. The loop returns, no frame is
  empty and none exceeds the peer's limit.
\<close>

theorem build_data_refines:
  assumes "conn_inv (en_state e)" "xs \<noteq> []"
  shows "let c = en_state e; m = unat (hs_max_frame_size (cs_remote_settings c)); b = budget k c;
             n = min (length xs) b; done = (length xs \<le> b); pieces = chunks m (take n xs)
         in build_data k xs es e =
              Some (data_frames k (es \<and> done) pieces,
                    e\<lparr>en_state := (if es \<and> done then end_stream_on k (spend k n c) else spend k n c),
                      en_pending_data := en_pending_data e @ (if done then [] else [pend k (drop n xs) es])\<rparr>) \<and>
            concat pieces = take n xs \<and> list_all (\<lambda>p. p \<noteq> [] \<and> length p \<le> m) pieces"
proof -
  have "take (min (length xs) b) xs = take b xs" for b by (simp add: min_def)
  moreover have "list_all (\<lambda>p. p \<noteq> [] \<and> length p \<le> m) (chunks m ys)" for m and ys :: bytes
    using chunks_bounds [of _ m ys] by (auto simp: list_all_iff)
  ultimately show ?thesis
    using assms(2) max_frame_size_pos [OF assms(1)]
    by (simp add: build_data_spec [OF assms(1)] sent_frames_def sent_state_def Let_def concat_chunks)
qed

theorem build_data_refines_witness:
  "let e = snd (engine_open_stream (fst (engine_client unit_hpack chrome_144_h2)))
   in build_data 1 [7, 8] True e =
        Some ([data_frame 1 [7, 8] True], e\<lparr>en_state := end_stream_on 1 (spend 1 (length [7 :: u8, 8]) (en_state e))\<rparr>)"
proof -
  let ?start = "fst (engine_client unit_hpack chrome_144_h2)"
  let ?e = "snd (engine_open_stream ?start)"
  have start: "engine_inv ?start" unfolding engine_client_def by (rule engine_inv_new)
  then have inv: "conn_inv (en_state ?e)"
    using open_stream_ok(1) [OF start prod.collapse [symmetric]] by (simp add: engine_inv_def)
  have b: "budget 1 (en_state ?e) = 65535" and m: "hs_max_frame_size (cs_remote_settings (en_state ?e)) = 16384"
    by (simp_all add: engine_open_stream_def open_stream_def engine_client_def client_with_policies_def Let_def
        conn_client_def conn_new_def settings_default_def settings_client_def DEFAULT_INITIAL_WINDOW_SIZE_def
        apply_profile_settings_def conn_update_recv_window_def chrome_144_h2_def put_stream_def get_stream_def budget_def
        new_with_windows_def stream_open_def as_i32_lit i32_max_def split_beta)
  show ?thesis
    using build_data_refines [OF inv, of "[7, 8]" 1 True]
    by (simp add: Let_def b m chunks.simps [of "Suc n" for n] chunks.simps [of 16384])
qed

end
