(* ===== verification/H2_Wire.thy ===== *)
theory H2_Wire
  imports H2_Invariant
begin

text \<open>
  A request on the wire, across the components: the engine's frames are encoded by the codec, and a
  peer that decodes them frame by frame, reassembles the header block and decodes it by RFC 7541 reads the
  headers of the request and the part of the body that the windows admit. Also the connection preface, on
  which both ends agree.
\<close>

subsection \<open>The peer\<close>

function decode_all :: "H2Codec \<Rightarrow> bytes \<Rightarrow> H2Frame list \<times> bytes" where
  "decode_all c buf =
     (case decode c buf of
        (Frame f, rest) \<Rightarrow> (let (fs, rest') = decode_all c rest in (f # fs, rest'))
      | (_, rest) \<Rightarrow> ([], rest))"
  by pat_completeness auto
termination
  by (relation "measure (\<lambda>(c, buf). length buf)") (auto dest: decode_frame_shorter [OF sym])

declare decode_all.simps [simp del]

text \<open>Feed the frames of a stream into an assembler until a block is complete or an error occurs.\<close>

fun collect_block :: "H2Frame list \<Rightarrow> ContinuationAssembler \<Rightarrow> AssemblyResult \<times> ContinuationAssembler" where
  "collect_block [] a = (Incomplete, a)"
| "collect_block (Headers f # fs) a =
     (case push_headers (hf_stream_id f) (hf_header_block f) (hf_end_stream f) (hf_end_headers f) a of
        (Incomplete, a') \<Rightarrow> collect_block fs a'
      | (r, a') \<Rightarrow> (r, a'))"
| "collect_block (Continuation f # fs) a =
     (case push_continuation (cf_stream_id f) (cf_header_block f) (cf_end_headers f) a of
        (Incomplete, a') \<Rightarrow> collect_block fs a'
      | (r, a') \<Rightarrow> (r, a'))"
| "collect_block (_ # fs) a = collect_block fs a"

lemma encode_frames_Nil [simp]: "encode_frames [] out = out"
  by (simp add: encode_frames_def)

lemma encode_frames_Cons: "encode_frames (f # fs) [] = encode f [] @ encode_frames fs []"
proof -
  have acc: "fold encode fs out = out @ fold encode fs []" for out
  proof (induction fs arbitrary: out)
    case (Cons g gs)
    show ?case
      using Cons.IH [of "encode g out"] Cons.IH [of "encode g []"] by (simp add: encode_buf [of g out])
  qed simp
  show ?thesis using acc [of "encode f []"] by (simp add: encode_frames_def)
qed

lemma decode_all_encoded:
  assumes "codec_ok c" "list_all (\<lambda>f. wf_frame f \<and> payload_size f \<le> unat (codec_max_frame_size c)) fs"
  shows "decode_all c (encode_frames fs []) = (fs, [])"
  using assms(2)
proof (induction fs)
  case Nil
  have "decode_all c [] = ([], [])" by (subst decode_all.simps) (simp add: decode_short)
  then show ?case by simp
next
  case (Cons f fs)
  have "decode c (encode f [] @ encode_frames fs []) = (Frame f, encode_frames fs [])"
    using Cons.prems by (intro decode_encode_append [OF _ assms(1)]) simp_all
  then show ?case
    using Cons by (subst decode_all.simps) (simp add: encode_frames_Cons)
qed

subsection \<open>The connection preface\<close>






subsection \<open>Header frames\<close>

lemma length_chunks: "0 < m \<Longrightarrow> length xs \<le> n * m \<Longrightarrow> length (chunks m xs) \<le> n"
proof (induction n arbitrary: xs)
  case (Suc n)
  show ?case
  proof (cases "xs = []")
    case False
    have "length (chunks m (drop m xs)) \<le> n" using Suc.IH [of "drop m xs"] Suc.prems by simp
    then show ?thesis using False Suc.prems(1) by (subst chunks.simps) simp
  qed simp
qed simp

lemma collect_continuations:
  "collect_block (continuation_frames k bs) a = push_fragments k bs a"
proof (induction k bs a rule: push_fragments.induct)
  case (2 k b a)
  then show ?case by (cases "push_continuation k b True a"; cases "fst (push_continuation k b True a)") auto
next
  case (3 k b b' bs a)
  then show ?case by (auto split: prod.splits AssemblyResult.splits)
qed simp

lemma collect_header_frames:
  assumes m: "5 < m" and limit: "length block \<le> ca_max_header_block_size a"
    and short: "length block \<le> m - 5 + 64 * m"
  shows "fst (collect_block (header_frames k block es p m) a) = Complete k block es"
proof -
  define first where "first = m - (if p \<noteq> None then 5 else 0)"
  have hf: "header_frames k block es p m =
     (if length block \<le> first
      then [Headers \<lparr>hf_stream_id = k, hf_header_block = block, hf_end_stream = es, hf_end_headers = True,
                     hf_priority = p, hf_padding = None\<rparr>]
      else Headers \<lparr>hf_stream_id = k, hf_header_block = take first block, hf_end_stream = es,
                    hf_end_headers = False, hf_priority = p, hf_padding = None\<rparr>
           # continuation_frames k (chunks m (drop first block)))"
    by (simp only: header_frames_def Let_def first_def)
  show ?thesis
  proof (cases "length block \<le> first")
    case True
    then show ?thesis by (simp add: hf push_headers_def)
  next
    case False
    let ?bs = "chunks m (drop first block)"
    let ?a = "a\<lparr>ca_bufs := AList.update k (take first block, es, 0) (ca_bufs a), ca_active_stream := Some k\<rparr>"
    have push: "push_headers k (take first block) es False a = (Incomplete, ?a)"
      using limit False by (simp add: push_headers_def)
    have ne: "?bs \<noteq> []" using m False by (simp add: chunks_eq_Nil)
    have "length ?bs \<le> 64"
      using m short by (intro length_chunks) (auto simp: first_def split: if_splits)
    moreover have "concat ?bs = drop first block" using m by (simp add: concat_chunks)
    ultimately have "fst (push_fragments k ?bs ?a) = Complete k (take first block @ drop first block) es"
      using push_fragments_complete [OF ne, of ?a k "take first block" es 0] limit
      by (auto simp: update_conv' MAX_CONTINUATION_FRAMES_def)
    then show ?thesis
      using False by (simp add: hf push collect_continuations)
  qed
qed

lemma header_frames_wf:
  assumes "5 < m" "k \<noteq> 0" "id31 k" "case p of None \<Rightarrow> True | Some q \<Rightarrow> id31 (ps_stream_dependency q)"
  shows "list_all (\<lambda>f. wf_frame f \<and> payload_size f \<le> m) (header_frames k block es p m)"
proof -
  have "list_all (\<lambda>f. wf_frame f \<and> payload_size f \<le> m) (continuation_frames k bs)"
    if "list_all (\<lambda>b. length b \<le> m) bs" for bs
    using that assms(2,3) by (induction k bs rule: continuation_frames.induct) auto
  moreover have "list_all (\<lambda>b. length b \<le> m) (chunks m xs)" for xs :: bytes
    using chunks_bounds [of _ m xs] by (auto simp: list_all_iff)
  ultimately show ?thesis
    using assms by (auto simp: header_frames_def Let_def pad_size_def)
qed

lemma data_frames_wf:
  assumes "k \<noteq> 0" "id31 k" "list_all (\<lambda>b. length b \<le> m) bs"
  shows "list_all (\<lambda>f. wf_frame f \<and> payload_size f \<le> m) (data_frames k es bs)"
  using assms by (induction k es bs rule: data_frames.induct) (auto simp: data_frame_def pad_size_def)

lemma sent_frames_wf:
  assumes "k \<noteq> 0" "id31 k"
  shows "list_all (\<lambda>f. wf_frame f \<and> payload_size f \<le> unat (hs_max_frame_size (cs_remote_settings (en_state e))))
    (sent_frames k xs es e)"
proof -
  have "list_all (\<lambda>b. length b \<le> m) (chunks m ys)" for m and ys :: bytes
    using chunks_bounds [of _ m ys] by (auto simp: list_all_iff)
  then show ?thesis
    using assms by (auto simp: sent_frames_def data_frames_wf data_frame_def pad_size_def)
qed

subsection \<open>Requests\<close>

definition request_headers :: "NativeH2Request \<Rightarrow> ('d, 'f) H2Engine \<Rightarrow> (bytes \<times> bytes) list" where
  "request_headers r e =
     map (pseudo_header (nr_method r) (unwrap_or (ascii ''https'') (uri_scheme (nr_uri r)))
            (unwrap_or [] (uri_authority (nr_uri r))) (unwrap_or (ascii ''/'') (uri_path_and_query (nr_uri r))))
       (en_pseudo_header_order e) @ nr_ordered_headers r"

lemma build_native_request_spec:
  fixes k :: u32
  assumes "conn_inv (en_state e)" "encoded_block (request_headers r e) e = (block, c)"
  defines "body \<equiv> unwrap_or [] (nr_body r)"
  defines "e1 \<equiv> e\<lparr>en_state := (if body = [] then end_stream_on k c else c), en_last_client_stream_id := Some k\<rparr>"
  shows "build_native_request k r e =
    Some (header_frames k block (body = []) (resolve_priority e (nr_priority r))
            (unat (hs_max_frame_size (cs_remote_settings (en_state e)))) @
          (if body = [] then [] else sent_frames k body True e1),
          if body = [] then e1 else sent_state k body True e1)"
proof -
  have b: "(case nr_body r of Some b \<Rightarrow> b \<noteq> [] | None \<Rightarrow> False) = (body \<noteq> [])"
    by (simp add: body_def unwrap_or_def split: option.split)
  have ci: "conn_inv c" using encoded_block_keeps(1) [OF assms(2,1)] .
  have h: "build_headers k (request_headers r e) (\<not> body \<noteq> []) (nr_priority r) e =
    Some (header_frames k block (body = []) (resolve_priority e (nr_priority r))
            (unat (hs_max_frame_size (cs_remote_settings (en_state e)))), e1)"
    using build_headers_spec [OF assms(1,2), of k "body = []" "nr_priority r"] by (simp add: e1_def)
  show ?thesis
  proof (cases "body = []")
    case True
    then show ?thesis
      using h unfolding build_native_request_def Let_def request_headers_def [symmetric] b
      by (auto simp: body_def unwrap_or_def split: option.splits)
  next
    case False
    then have "nr_body r = Some body" by (auto simp: body_def unwrap_or_def split: option.splits)
    moreover have "conn_inv (en_state e1)" using False ci by (simp add: e1_def)
    ultimately show ?thesis
      using h False build_data_spec [of e1 k body True]
      unfolding build_native_request_def Let_def request_headers_def [symmetric] b by simp
  qed
qed

lemma encoded_block_read:
  assumes "sync (cs_hpack_encoder (en_state e)) t limit" "encoded_block hs e = (block, c)"
  shows "\<exists>t'. rfc_decode limit t block = Some (hs, t') \<and> sync (cs_hpack_encoder c) t' limit"
proof -
  obtain p where p: "encoded_block hs e = (let (enc, out) = encode_with_policy hs p (cs_hpack_encoder (en_state e))
      in (out, (en_state e)\<lparr>cs_hpack_encoder := enc\<rparr>))"
    by (cases "en_hpack_policy e")
      (auto simp: encoded_block_def conn_encode_headers_def encode_headers_with_policy_def header_encode_owned_def
        header_encode_with_policy_def encode_owned_policy)
  obtain enc out t' where "encode_with_policy hs p (cs_hpack_encoder (en_state e)) = (enc, out)"
    "rfc_decode limit t out = Some (hs, t')" "sync enc t' limit"
    using policy_block_read [OF assms(1)] by blast
  then show ?thesis using p assms(2) by auto
qed

subsection \<open>Properties\<close>

text \<open>
  C5. A request survives the wire. For any request on a valid stream id, whatever the state of the
  connection, the bytes that the codec writes for the engine's frames decode at the peer (whose frame
  limit the engine respects) to exactly these frames with nothing left over; the peer's assembler, when the
  block fits its limits, completes one header block with the right END_STREAM flag; an RFC 7541 decoder in step
  with the encoder reads from it the pseudo-headers in profile order followed by the request's headers, and
  stays in step; and the DATA bytes are the part of the body that the send windows admit.
\<close>

theorem request_survives_wire:
  assumes inv: "conn_inv (en_state e)" and k: "k \<noteq> 0" "id31 k"
    and dep: "case resolve_priority e (nr_priority r) of None \<Rightarrow> True | Some p \<Rightarrow> id31 (ps_stream_dependency p)"
    and peer: "codec_ok peer" "hs_max_frame_size (cs_remote_settings (en_state e)) \<le> codec_max_frame_size peer"
    and step: "sync (cs_hpack_encoder (en_state e)) t limit"
    and fits: "length (fst (encoded_block (request_headers r e) e)) \<le> ca_max_header_block_size a"
      "length (fst (encoded_block (request_headers r e) e)) \<le> 1000000"
  shows "\<exists>frames e' block t'.
    build_native_request k r e = Some (frames, e') \<and>
    decode_all peer (encode_frames frames []) = (frames, []) \<and>
    fst (collect_block frames a) = Complete k block (unwrap_or [] (nr_body r) = []) \<and>
    rfc_decode limit t block = Some (request_headers r e, t') \<and>
    sync (cs_hpack_encoder (en_state e')) t' limit \<and>
    sent_on k frames = take (budget k (en_state e)) (unwrap_or [] (nr_body r))"
proof -
  define body where "body = unwrap_or [] (nr_body r)"
  define m where "m = unat (hs_max_frame_size (cs_remote_settings (en_state e)))"
  obtain block c where b: "encoded_block (request_headers r e) e = (block, c)" by fastforce
  define e1 where "e1 = e\<lparr>en_state := (if body = [] then end_stream_on k c else c), en_last_client_stream_id := Some k\<rparr>"
  define e2 where "e2 = (if body = [] then e1 else sent_state k body True e1)"
  let ?hf = "header_frames k block (body = []) (resolve_priority e (nr_priority r)) m"
  let ?df = "if body = [] then [] else sent_frames k body True e1"
  have m: "16384 \<le> m" using max_frame_size_pos [OF inv] by (simp add: m_def)
  have ci: "conn_inv c" using encoded_block_keeps(1) [OF b inv] .
  have ci1: "body \<noteq> [] \<Longrightarrow> conn_inv (en_state e1)" using ci by (simp add: e1_def)
  have rs: "body \<noteq> [] \<Longrightarrow> unat (hs_max_frame_size (cs_remote_settings (en_state e1))) = m"
    using encoded_block_keeps(2) [OF b] by (simp add: e1_def m_def)
  have frames: "build_native_request k r e = Some (?hf @ ?df, e2)"
    unfolding body_def e1_def e2_def m_def by (rule build_native_request_spec [OF inv b])
  have all: "list_all (\<lambda>f. wf_frame f \<and> payload_size f \<le> m) (?hf @ ?df)"
    using header_frames_wf [OF _ k dep, of m block "body = []"] m sent_frames_wf [OF k, of e1 body True] rs
    by (cases "body = []") simp_all
  have le: "m \<le> unat (codec_max_frame_size peer)" using peer(2) by (simp add: m_def word_le_nat_alt)
  have "list_all (\<lambda>f. wf_frame f \<and> payload_size f \<le> unat (codec_max_frame_size peer)) (?hf @ ?df)"
    by (rule list.pred_mono_strong [OF all]) (use le in auto)
  then have wire: "decode_all peer (encode_frames (?hf @ ?df) []) = (?hf @ ?df, [])"
    by (rule decode_all_encoded [OF peer(1)])
  have stop: "fst (collect_block (fs @ gs) a) = Complete j x es" if "fst (collect_block fs a) = Complete j x es" for fs gs a j x es
    using that by (induction fs a rule: collect_block.induct) (auto split: prod.splits AssemblyResult.splits)
  have "fst (collect_block (?hf @ ?df) a) = Complete k block (body = [])"
    using fits b m by (intro stop collect_header_frames) auto
  moreover obtain t' where t': "rfc_decode limit t block = Some (request_headers r e, t')" "sync (cs_hpack_encoder c) t' limit"
    using encoded_block_read [OF step b] by blast
  moreover have "cs_hpack_encoder (en_state e2) = cs_hpack_encoder c"
    by (simp add: e2_def e1_def sent_state_def Let_def end_stream_on_def spend_def modify_stream_def put_stream_def
        split: option.split)
  moreover have "sent_on k (?hf @ ?df) = take (budget k (en_state e)) body"
    using sent_on_sent_frames [OF ci1] encoded_block_keeps(4) [OF b, of k]
    by (simp add: sent_on_header_frames e1_def)
  ultimately show ?thesis
    using frames wire by (intro exI [of _ "?hf @ ?df"] exI [of _ e2] exI [of _ block] exI [of _ t']) (simp add: body_def)
qed

definition get_request :: NativeH2Request where
  "get_request =
     \<lparr>nr_method = ascii ''GET'',
      nr_uri = \<lparr>uri_authority = None, uri_scheme = None, uri_path_and_query = None\<rparr>,
      nr_ordered_headers = [], nr_body = Some [1, 2, 3], nr_priority = None\<rparr>"

definition get_engine :: "(unit, FlowControl) H2Engine" where
  "get_engine =
     snd (engine_open_stream (fst (engine_client unit_hpack (chrome_144_h2\<lparr>pr_pseudo_header_order := [PH_Method]\<rparr>))))"

lemma get_engine_fields:
  "cs_hpack_encoder (en_state get_engine) = encoder_new 4096"
  "cs_remote_settings (en_state get_engine) = settings_default"
  "en_pseudo_header_order get_engine = [PH_Method]" "en_hpack_policy get_engine = None"
  "en_headers_priority get_engine = to_headers_priority_spec chrome_144_h2"
  "en_priority_config get_engine = pr_priority_config chrome_144_h2" "en_last_client_stream_id get_engine = None"
  by (simp_all add: get_engine_def engine_open_stream_def open_stream_def engine_client_def client_with_policies_def Let_def
      conn_client_def conn_new_def settings_default_def settings_client_def DEFAULT_INITIAL_WINDOW_SIZE_def
      apply_profile_settings_def conn_update_recv_window_def chrome_144_h2_def put_stream_def header_encoder_new_def
      DEFAULT_HEADER_TABLE_SIZE_def as_i32_lit i32_max_def split_beta to_headers_priority_spec_def)

lemma get_request_headers: "request_headers get_request get_engine = [(ascii '':method'', ascii ''GET'')]"
  by (simp add: request_headers_def get_engine_fields get_request_def)

lemma find_get: "find_header (ascii '':method'') (ascii ''GET'') d = Some (Full 2)"
  by (simp add: find_header_def STATIC_TABLE_def ascii_def)

lemma get_block: "fst (encoded_block (request_headers get_request get_engine) get_engine) = [130]"
proof -
  have colon: "starts_with_colon (ascii '':method'')" by (simp add: starts_with_colon_def ascii_def)
  show ?thesis
    by (simp add: get_request_headers encoded_block_def get_engine_fields conn_encode_headers_def header_encode_owned_def
        encode_owned_def encoder_new_def emit_pending_table_size_update_def encode_header_default_def encode_header_def
        colon find_get encode_indexed_def encode_integer_def)
qed

theorem request_survives_wire_witness:
  "\<exists>frames e' block t'.
    build_native_request 1 get_request get_engine = Some (frames, e') \<and>
    decode_all codec_new (encode_frames frames []) = (frames, []) \<and>
    fst (collect_block frames assembler_new) = Complete 1 block False \<and>
    rfc_decode 4096 ([], 4096) block = Some ([(ascii '':method'', ascii ''GET'')], t') \<and>
    sync (cs_hpack_encoder (en_state e')) t' 4096 \<and>
    sent_on 1 frames = take (budget 1 (en_state get_engine)) [1, 2, 3]"
proof -
  let ?start = "fst (engine_client unit_hpack (chrome_144_h2\<lparr>pr_pseudo_header_order := [PH_Method]\<rparr>))"
  have start: "engine_inv ?start" unfolding engine_client_def by (rule engine_inv_new)
  have inv: "conn_inv (en_state get_engine)"
    using open_stream_ok(1) [OF start prod.collapse [symmetric]] by (simp add: engine_inv_def get_engine_def)
  have dep: "case resolve_priority get_engine (nr_priority get_request) of None \<Rightarrow> True
      | Some p \<Rightarrow> id31 (ps_stream_dependency p)"
    by (simp add: resolve_priority_def get_engine_fields get_request_def chrome_144_h2_def priority_config_chrome_def
        effective_priority_def weight_for_urgency_def id31_def Let_def)
  have step: "sync (cs_hpack_encoder (en_state get_engine)) ([], 4096) 4096"
    by (simp add: get_engine_fields sync_def in_step_def encoder_new_def table_new_def table_inv_def)
  have peer: "hs_max_frame_size (cs_remote_settings (en_state get_engine)) \<le> codec_max_frame_size codec_new"
    by (simp add: get_engine_fields settings_default_def codec_new_def DEFAULT_MAX_FRAME_SIZE_def)
  have "\<exists>frames e' block t'.
    build_native_request 1 get_request get_engine = Some (frames, e') \<and>
    decode_all codec_new (encode_frames frames []) = (frames, []) \<and>
    fst (collect_block frames assembler_new) = Complete 1 block (unwrap_or [] (nr_body get_request) = []) \<and>
    rfc_decode 4096 ([], 4096) block = Some (request_headers get_request get_engine, t') \<and>
    sync (cs_hpack_encoder (en_state e')) t' 4096 \<and>
    sent_on 1 frames = take (budget 1 (en_state get_engine)) (unwrap_or [] (nr_body get_request))"
    by (rule request_survives_wire [OF inv _ _ dep codec_ok_new peer step])
      (simp_all add: id31_def get_block assembler_new_def DEFAULT_MAX_HEADER_BLOCK_SIZE_def)
  moreover have "unwrap_or [] (nr_body get_request) = [1, 2, 3]" by (simp add: get_request_def unwrap_or_def)
  ultimately show ?thesis by (simp add: get_request_headers)
qed





end
