(* ===== verification/H2_Recv.thy ===== *)
theory H2_Recv
  imports H2_Invariant
begin

text \<open>
  The receiving side of the engine: what DATA frames do to the connection's receive credit under any flow
  control policy that meets the contract, that the connection does not stall under the presets, and the
  cases in which the engine's behaviour differs from its comments.
\<close>

subsection \<open>Exact policies\<close>

text \<open>Credit of the connection: what the peer may still send plus what the policy holds back.\<close>

definition recv_credit :: "('s \<Rightarrow> u32 \<Rightarrow> u32) \<Rightarrow> ('d, 's) H2Engine \<Rightarrow> int" where
  "recv_credit held e = cs_recv_window (en_state e) + uint (held (en_flow_control e) 0)"

text \<open>A DATA frame that the connection window admits but the stream does not.\<close>

definition refused :: "DataFrame \<Rightarrow> ('d, 's) H2Engine \<Rightarrow> bool" where
  "refused f e \<longleftrightarrow>
     uint (flow_len f) \<le> cs_recv_window (en_state e) \<and>
     (case get_stream (en_state e) (df_stream_id f) of
        None \<Rightarrow> False
      | Some s \<Rightarrow> \<not> can_receive (st_state s) \<or> st_recv_window s < uint (flow_len f))"

text \<open>
  A policy whose sums do not wrap around: as long as what it holds and what arrives fit in 32 bits, the
  increment it gives and what it then holds add up to exactly that.
\<close>

locale exact_flow_policy = flow_control_policy on_data closed held
  for on_data :: "'s \<Rightarrow> u32 \<Rightarrow> u32 \<Rightarrow> i32 \<Rightarrow> u32 \<Rightarrow> u32 option \<times> 's"
    and closed :: "'s \<Rightarrow> u32 \<Rightarrow> 's"
    and held :: "'s \<Rightarrow> u32 \<Rightarrow> u32" +
  assumes on_data_exact:
    "on_data s sid len cur init = (r, s') \<Longrightarrow> uint (held s sid) + uint len < 2 ^ 32 \<Longrightarrow>
     uint (increment_of r) + uint (held s' sid) = uint (held s sid) + uint len"
begin

abbreviation credit :: "('d, 's) H2Engine \<Rightarrow> int" where
  "credit \<equiv> recv_credit held"

lemma replenish_credit:
  assumes inv: "conn_inv (en_state e)" and ops: "eo_on_data_received ops = on_data"
    and k: "k \<noteq> 0" and bound: "credit e + uint len \<le> i32_max"
    and r: "replenish ops k len rw iw e = (e', out)"
  shows "credit e' = credit e + uint len"
proof -
  obtain r0 fc1 where r0: "on_data (en_flow_control e) 0 len (cs_recv_window (en_state e)) (en_conn_initial_recv_window e) = (r0, fc1)"
    by fastforce
  obtain r1 fc2 where r1: "on_data fc1 k len rw iw = (r1, fc2)" by fastforce
  let ?h = "uint (held (en_flow_control e) 0)"
  have pos: "0 \<le> cs_recv_window (en_state e)" using inv by (simp add: conn_inv_def)
  have ex: "uint (increment_of r0) + uint (held fc1 0) = ?h + uint len"
    using on_data_exact [OF r0] bound pos by (simp add: recv_credit_def i32_max_def)
  have held2: "held fc2 0 = held fc1 0" using on_data_other [OF r1] k by simp
  define c1 where "c1 = (case r0 of Some i \<Rightarrow> keep (en_state e) (conn_update_recv_window i (en_state e)) | None \<Rightarrow> en_state e)"
  have c1: "cs_recv_window c1 = cs_recv_window (en_state e) + uint (increment_of r0)"
  proof (cases r0)
    case (Some i)
    have le: "cs_recv_window (en_state e) + uint i \<le> i32_max"
      using ex [unfolded Some increment_of_def option.case] bound [unfolded recv_credit_def] uint_ge_0 [of "held fc1 0"]
      by linarith
    then obtain c' where u: "conn_update_recv_window i (en_state e) = Inr c'"
      by (auto simp: conn_update_recv_window_def Let_def)
    have "c' = (en_state e)\<lparr>cs_recv_window := cs_recv_window (en_state e) + uint i\<rparr>"
      using conn_update_window_exact(2) [OF inv u] by blast
    then show ?thesis using Some u by (simp add: c1_def increment_of_def)
  qed (simp add: c1_def increment_of_def)
  have "cs_recv_window (en_state e') = cs_recv_window c1" "en_flow_control e' = fc2"
    using r r0 r1 by (auto simp: replenish_def ops c1_def Let_def split: option.splits)
  then show ?thesis using c1 ex held2 by (simp add: recv_credit_def)
qed

lemma deliver_credit:
  assumes inv: "conn_inv (en_state e)" and ops: "eo_on_data_received ops = on_data" "eo_on_stream_closed ops = closed"
    and k: "df_stream_id f \<noteq> 0" and bound: "credit e + uint (flow_len f) \<le> i32_max"
    and d: "deliver_data ops f rw iw e = (e', ev, out)"
  shows "credit e' = credit e + uint (flow_len f)"
proof -
  obtain e1 where e1: "(if flow_len f > 0 then replenish ops (df_stream_id f) (flow_len f) rw iw e else (e, [])) = (e1, out)"
    using d by (auto simp: deliver_data_def Let_def split: prod.splits)
  have c1: "credit e1 = credit e + uint (flow_len f)"
    using e1 replenish_credit [OF inv ops(1) k bound] by (auto simp: word_gt_0 split: if_splits)
  have "credit e' = credit e1"
    using d e1 closed_other [of 0 "df_stream_id f"] k ops(2)
    by (auto simp: deliver_data_def Let_def recv_credit_def cleanup_closed_streams_def split: if_splits prod.splits)
  then show ?thesis using c1 by simp
qed

text \<open>A frame that the connection window does not cover is not charged.\<close>

lemma handle_data_overflow:
  assumes inv: "engine_inv e" and h: "handle_data ops f e = (e', ev, out)"
    and c: "conn_consume_recv_window (flow_len f) (en_state e) = Inl er"
  shows "credit e' = credit e \<and> \<not> refused f e"
proof -
  have ci: "conn_inv (en_state e)" using inv by (simp add: engine_inv_def)
  have w: "0 \<le> cs_recv_window (en_state e)" "cs_recv_window (en_state e) \<le> i32_max" using ci by (auto simp: conn_inv_def)
  then have "uint (as_u32 (cs_recv_window (en_state e))) = cs_recv_window (en_state e)"
    by (intro uint_as_u32) (auto simp: i32_max_def)
  then have "\<not> uint (flow_len f) \<le> cs_recv_window (en_state e)"
    using c w(1) by (auto simp: conn_consume_recv_window_def word_less_def split: if_splits)
  then show ?thesis using h c by (auto simp: handle_data_def Let_def refused_def)
qed

text \<open>A frame that the stream accepts is handed to the flow control policy; one that it refuses is not.\<close>

lemma handle_data_accepted:
  assumes h: "handle_data ops f e = (e', ev, out)" and c: "conn_consume_recv_window (flow_len f) (en_state e) = Inr c"
    and cc: "conn_inv c" and ops: "eo_on_data_received ops = on_data" "eo_on_stream_closed ops = closed"
    and k: "df_stream_id f \<noteq> 0" and bound: "credit (e\<lparr>en_state := c\<rparr>) + uint (flow_len f) \<le> i32_max"
    and s: "get_stream c (df_stream_id f) = Some s" and ok: "can_receive (st_state s)" "uint (flow_len f) \<le> st_recv_window s"
  shows "credit e' = credit (e\<lparr>en_state := c\<rparr>) + uint (flow_len f)"
proof -
  define s1 where "s1 = s\<lparr>st_recv_window := st_recv_window s - uint (flow_len f)\<rparr>"
  define s2 where "s2 = (if df_end_stream f then keep s1 (recv_end_stream s1) else s1)"
  have con: "stream_consume_recv_window (flow_len f) s = Inr s1"
    using ok by (simp add: stream_consume_recv_window_exact [OF stream_of_inv [OF cc s]] s1_def)
  let ?e2 = "e\<lparr>en_state := put_stream (df_stream_id f) s2 c\<rparr>"
  have d: "deliver_data ops f (st_recv_window s1) (st_initial_window_size s1) ?e2 = (e', ev, out)"
    using h c s ok con by (simp add: handle_data_def Let_def s2_def cong: if_cong)
  have "conn_inv (put_stream (df_stream_id f) s1 c)"
    using conn_inv_stream_step [OF cc s, of "OpConsumeRecv (flow_len f)"] con by simp
  then have "conn_inv (put_stream (df_stream_id f) s2 c)"
    using conn_inv_stream_step [of "put_stream (df_stream_id f) s1 c" "df_stream_id f" s1 OpRecvEnd]
    by (simp add: s2_def put_stream_def get_stream_def update_conv')
  then have "credit e' = credit ?e2 + uint (flow_len f)"
    using deliver_credit [OF _ ops k _ d] bound by (simp add: recv_credit_def put_stream_def)
  then show ?thesis by (simp add: recv_credit_def put_stream_def)
qed

lemma handle_data_refused:
  assumes h: "handle_data ops f e = (e', ev, out)" and c: "conn_consume_recv_window (flow_len f) (en_state e) = Inr c"
    and cc: "conn_inv c" and s: "get_stream c (df_stream_id f) = Some s"
    and no: "\<not> (can_receive (st_state s) \<and> uint (flow_len f) \<le> st_recv_window s)"
  shows "credit e' = credit (e\<lparr>en_state := c\<rparr>)"
proof -
  have rst: "credit (snd (make_rst_stream j ec x)) = credit x" for j ec and x :: "('c, 's) H2Engine"
    by (simp add: make_rst_stream_def recv_credit_def)
  show ?thesis
  proof (cases "can_receive (st_state s)")
    case True
    then have "stream_consume_recv_window (flow_len f) s = Inl (StreamFlowControlError (st_recv_window s) (flow_len f))"
      using no by (simp add: stream_consume_recv_window_exact [OF stream_of_inv [OF cc s]])
    then have "e' = snd (make_rst_stream (df_stream_id f) 3 (e\<lparr>en_state := c\<rparr>))"
      using h c s True by (auto simp: handle_data_def Let_def split: prod.splits)
    then show ?thesis using rst by simp
  next
    case False
    then have "e' = snd (make_rst_stream (df_stream_id f) 5 (e\<lparr>en_state := c\<rparr>))"
      using h c s by (auto simp: handle_data_def Let_def split: prod.splits)
    then show ?thesis using rst by simp
  qed
qed

lemma handle_data_credit:
  assumes inv: "engine_inv e" and ops: "eo_on_data_received ops = on_data" "eo_on_stream_closed ops = closed"
    and k: "df_stream_id f \<noteq> 0" and bound: "credit e \<le> i32_max"
    and h: "handle_data ops f e = (e', ev, out)"
  shows "credit e' = credit e - (if refused f e then uint (flow_len f) else 0)"
proof (cases "conn_consume_recv_window (flow_len f) (en_state e)")
  case (Inl er)
  then show ?thesis using handle_data_overflow [OF inv h] by simp
next
  case (Inr c)
  have ci: "conn_inv (en_state e)" using inv by (simp add: engine_inv_def)
  note ex = conn_consume_recv_window_exact [OF ci Inr]
  have cc: "conn_inv c" using conn_inv_windows(2) [OF ci Inr] .
  let ?e = "e\<lparr>en_state := c\<rparr>"
  have cr: "credit ?e = credit e - uint (flow_len f)" using ex(2) by (simp add: recv_credit_def)
  have gs: "get_stream c (df_stream_id f) = get_stream (en_state e) (df_stream_id f)"
    using ex(2) by (simp add: get_stream_def)
  show ?thesis
  proof (cases "get_stream c (df_stream_id f)")
    case None
    then have "deliver_data ops f 0 65535 ?e = (e', ev, out)" using h Inr by (simp add: handle_data_def Let_def)
    then have "credit e' = credit ?e + uint (flow_len f)"
      using deliver_credit [of ?e ops f] cc ops k bound cr by simp
    then show ?thesis using cr None gs by (simp add: refused_def)
  next
    case (Some s)
    show ?thesis
    proof (cases "can_receive (st_state s) \<and> uint (flow_len f) \<le> st_recv_window s")
      case True
      then have "credit e' = credit ?e + uint (flow_len f)"
        using handle_data_accepted [OF h Inr cc ops k _ Some] cr bound by simp
      then show ?thesis using cr True Some gs by (simp add: refused_def)
    next
      case False
      moreover have "refused f e" using False Some gs ex(1) by (auto simp: refused_def)
      ultimately show ?thesis using handle_data_refused [OF h Inr cc Some] cr by simp
    qed
  qed
qed

end

interpretation dynx: exact_flow_policy flow_on_data_received flow_on_stream_closed flow_held
proof
  fix s s' sid len cur init r
  assume od: "flow_on_data_received s sid len cur init = (r, s')"
    and b: "uint (flow_held s sid) + uint (len :: u32) < 2 ^ 32"
  have sum: "uint (flow_held s sid + len) = uint (flow_held s sid) + uint len"
    using b by (simp add: uint_word_ariths)
  show "uint (increment_of r) + uint (flow_held s' sid) = uint (flow_held s sid) + uint len"
  proof (cases s)
    case Immediate
    then show ?thesis
      using od by (auto simp: immediate_on_data_received_def increment_of_def word_gt_0)
  next
    case (Threshold t)
    then show ?thesis
      using od sum
      by (auto simp: threshold_on_data_received_def increment_of_def acc_of_update Let_def split: if_splits)
  qed
qed

subsection \<open>The connection window under the presets\<close>

text \<open>The flow control of the engine's default constructor, and a threshold with the ratio of the browser presets.\<close>

fun preset_flow :: "FlowControl \<Rightarrow> bool" where
  "preset_flow Immediate = True"
| "preset_flow (Threshold t) \<longleftrightarrow> threshold_ratio t = threshold_ratio threshold_chrome"

lemma preset_behaviors:
  "preset_flow (Threshold threshold_chrome)" "preset_flow (Threshold threshold_firefox)"
  "preset_flow (Threshold (threshold_new f32_0_5))"
  by (simp_all add: threshold_chrome_def threshold_firefox_def)

lemma preset_on_data:
  assumes "preset_flow fc" "flow_held fc 0 < w" "flow_on_data_received fc k len cur init = (r, fc')" "k = 0 \<Longrightarrow> init = w"
  shows "preset_flow fc' \<and> flow_held fc' 0 < w"
proof (cases fc)
  case (Threshold t)
  then obtain t' where t': "fc' = Threshold t'" "threshold_on_data_received t k len cur init = (r, t')"
    using assms(3) by (cases "threshold_on_data_received t k len cur init") auto
  have keep_ratio: "threshold_ratio t' = threshold_ratio t"
    using t'(2) by (auto simp: threshold_on_data_received_def Let_def split: if_splits)
  show ?thesis
  proof (cases "k = 0")
    case True
    then show ?thesis using threshold_keeps_below [OF _ _ t'(2), of 0] assms Threshold t'(1) by simp
  next
    case False
    then have "acc_of t' 0 = acc_of t 0" using thr.on_data_other [OF t'(2), of 0] by simp
    then show ?thesis using assms Threshold t'(1) keep_ratio by simp
  qed
qed (use assms in auto)

lemma preset_closed:
  assumes "preset_flow fc" "flow_held fc 0 < w" "k \<noteq> 0"
  shows "preset_flow (flow_on_stream_closed fc k) \<and> flow_held (flow_on_stream_closed fc k) 0 < w"
  using assms dyn.closed_other [of 0 k fc] by (cases fc) (auto simp: threshold_on_stream_closed_def)

text \<open>The policy holds back less than the connection window the engine started with.\<close>

definition holds_little :: "('d, FlowControl) H2Engine \<Rightarrow> bool" where
  "holds_little e \<longleftrightarrow>
     preset_flow (en_flow_control e) \<and> flow_held (en_flow_control e) 0 < en_conn_initial_recv_window e"

lemma replenish_little:
  assumes "holds_little e" "k \<noteq> 0" "replenish (dyn_ops hpack) k len rw iw e = (e', out)"
  shows "holds_little e' \<and> en_conn_initial_recv_window e' = en_conn_initial_recv_window e"
proof -
  let ?w = "en_conn_initial_recv_window e"
  obtain r0 fc1 where r0: "flow_on_data_received (en_flow_control e) 0 len (cs_recv_window (en_state e)) ?w = (r0, fc1)"
    by fastforce
  obtain r1 fc2 where r1: "flow_on_data_received fc1 k len rw iw = (r1, fc2)" by fastforce
  have "preset_flow fc1 \<and> flow_held fc1 0 < ?w"
    using preset_on_data [OF _ _ r0, of ?w] assms(1) by (simp add: holds_little_def)
  then have "preset_flow fc2 \<and> flow_held fc2 0 < ?w" using preset_on_data [OF _ _ r1, of ?w] assms(2) by simp
  moreover have "en_flow_control e' = fc2" "en_conn_initial_recv_window e' = ?w"
    using assms(3) r0 r1 by (auto simp: replenish_def dyn_ops_def Let_def split: option.splits)
  ultimately show ?thesis by (simp add: holds_little_def)
qed

lemma deliver_little:
  assumes "holds_little e" "df_stream_id f \<noteq> 0" "deliver_data (dyn_ops hpack) f rw iw e = (e', ev, out)"
  shows "holds_little e' \<and> en_conn_initial_recv_window e' = en_conn_initial_recv_window e"
proof -
  obtain e1 out1 where e1: "(if flow_len f > 0 then replenish (dyn_ops hpack) (df_stream_id f) (flow_len f) rw iw e else (e, [])) = (e1, out1)"
    by fastforce
  have 1: "holds_little e1" "en_conn_initial_recv_window e1 = en_conn_initial_recv_window e"
    using e1 replenish_little [OF assms(1,2)] assms(1) by (auto split: if_splits)
  have "e' = (if df_end_stream f
      then e1\<lparr>en_flow_control := flow_on_stream_closed (en_flow_control e1) (df_stream_id f),
              en_state := cleanup_closed_streams (en_state e1)\<rparr> else e1)"
    using assms(3) unfolding deliver_data_def e1 by (auto simp: Let_def dyn_ops_def)
  then show ?thesis
    using 1 preset_closed [OF _ _ assms(2), of "en_flow_control e1" "en_conn_initial_recv_window e"]
    by (simp add: holds_little_def)
qed

lemma holds_little_state [simp]: "holds_little (e\<lparr>en_state := c\<rparr>) = holds_little e"
  by (simp add: holds_little_def)

lemma handle_data_little:
  assumes "holds_little e" "df_stream_id f \<noteq> 0" "handle_data (dyn_ops hpack) f e = (e', ev, out)"
  shows "holds_little e' \<and> en_conn_initial_recv_window e' = en_conn_initial_recv_window e"
proof (cases "conn_consume_recv_window (flow_len f) (en_state e)")
  case (Inl er)
  then show ?thesis using assms by (auto simp: handle_data_def Let_def)
next
  case (Inr c)
  have deliver: "holds_little e' \<and> en_conn_initial_recv_window e' = en_conn_initial_recv_window e"
    if "deliver_data (dyn_ops hpack) f rw iw (e\<lparr>en_state := d\<rparr>) = (e', ev, out)" for rw iw d
    using deliver_little [OF _ assms(2) that] assms(1) by simp
  show ?thesis
  proof (cases "get_stream c (df_stream_id f)")
    case None
    then show ?thesis using assms Inr deliver by (simp add: handle_data_def Let_def)
  next
    case (Some s)
    then show ?thesis
      using assms Inr deliver
      by (cases "can_receive (st_state s)"; cases "stream_consume_recv_window (flow_len f) s")
        (auto simp: handle_data_def make_rst_stream_def Let_def)
  qed
qed

text \<open>The frames other than DATA do not touch the receive side of the connection.\<close>

definition recv_side :: "('d, 'f) H2Engine \<Rightarrow> i32 \<times> 'f \<times> u32" where
  "recv_side e = (cs_recv_window (en_state e), en_flow_control e, en_conn_initial_recv_window e)"

lemma sent_state_recv_side: "recv_side (sent_state k xs es e) = recv_side e"
  by (auto simp: recv_side_def sent_state_def Let_def end_stream_on_def spend_def modify_stream_def put_stream_def split: option.splits)

lemma drain_recv_side:
  "drain_loop ps frames e = Some (out, e') \<Longrightarrow> conn_inv (en_state e) \<Longrightarrow> recv_side e' = recv_side e"
proof (induction ps arbitrary: frames e)
  case (Cons p ps)
  let ?e = "sent_state (pd_stream_id p) (pd_data p) (pd_end_stream p) e"
  have "drain_loop ps (frames @ sent_frames (pd_stream_id p) (pd_data p) (pd_end_stream p) e) ?e = Some (out, e')"
    using Cons.prems by (simp add: build_data_spec)
  moreover have "conn_inv (en_state ?e)" by (rule sent_state_inv [OF Cons.prems(2)])
  ultimately show ?case using Cons.IH sent_state_recv_side by metis
qed simp

lemma apply_remote_recv_window: "cs_recv_window (snd (apply_remote_settings ops f c)) = cs_recv_window c"
  by (auto simp: apply_remote_settings_def Let_def split: list.splits option.splits prod.splits)

lemma decode_block_recv_window: "cs_recv_window (snd (decode_header_block ops b c)) = cs_recv_window c"
  by (auto simp: decode_header_block_def Let_def split: sum.splits prod.splits)

lemma complete_headers_recv_side: "recv_side (fst (complete_headers ops k b es e)) = recv_side e"
  using decode_block_recv_window [of "eo_hpack ops" b "en_state e"]
  by (cases "decode_header_block (eo_hpack ops) b (en_state e)")
    (auto simp: complete_headers_def recv_side_def put_stream_def Let_def split: sum.splits option.splits)

lemma assembled_recv_side: "recv_side (fst (assembled ops r (e\<lparr>en_continuation := a\<rparr>))) = recv_side e"
  using complete_headers_recv_side [of ops _ _ _ "e\<lparr>en_continuation := a\<rparr>"]
  by (auto simp: assembled_def recv_side_def split: AssemblyResult.splits)

lemma handle_settings_recv_side: "recv_side (fst (handle_settings ops f e)) = recv_side e"
  using apply_remote_recv_window [of "eo_hpack ops" f "en_state e"]
  by (cases "apply_remote_settings (eo_hpack ops) f (en_state e)")
    (auto simp: handle_settings_def recv_side_def set_encoder_table_size_def Let_def split: sum.splits)

lemma window_opened_recv_side:
  assumes "window_opened f e = Some (e', ev, out)" "conn_inv (en_state e)"
  shows "recv_side e' = recv_side e"
proof (cases "en_pending_data e = []")
  case False
  then obtain d where "drain_loop (en_pending_data e) [] (e\<lparr>en_pending_data := []\<rparr>) = Some (d, e')"
    using assms(1) by (auto simp: window_opened_def drain_pending_data_def split: Option.bind_splits)
  then show ?thesis using drain_recv_side [of _ _ "e\<lparr>en_pending_data := []\<rparr>"] assms(2) by (fastforce simp: recv_side_def)
qed (use assms(1) in \<open>simp add: window_opened_def\<close>)

lemma handle_window_update_recv_side:
  assumes "conn_inv (en_state e)" "handle_window_update f e = Some (e', ev, out)"
  shows "recv_side e' = recv_side e"
proof -
  have opened: "window_opened f (e\<lparr>en_state := c\<rparr>) = Some (e', ev, out) \<Longrightarrow> conn_inv c \<Longrightarrow>
      cs_recv_window c = cs_recv_window (en_state e) \<Longrightarrow> recv_side e' = recv_side e" for c
    using window_opened_recv_side [of f "e\<lparr>en_state := c\<rparr>"] by (simp add: recv_side_def)
  have conn: "conn_inv c \<and> cs_recv_window c = cs_recv_window (en_state e)"
    if "conn_update_send_window (wf_increment f) (en_state e) = Inr c" for c
    using conn_inv_windows(3) [OF assms(1) that] that by (auto simp: conn_update_send_window_def Let_def split: if_splits)
  have strm: "conn_inv (put_stream k s1 (en_state e))"
    if "get_stream (en_state e) k = Some s" "stream_update_send_window n s = Inr s1" for k s s1 n
    using conn_inv_stream_step [OF assms(1) that(1), of "OpUpdateSend n"] that(2) by simp
  have rst: "make_rst_stream k ec e = (x, y) \<Longrightarrow> recv_side y = recv_side e" for k ec x y
    by (auto simp: make_rst_stream_def recv_side_def modify_stream_def put_stream_def split: option.split)
  show ?thesis
    using assms(2) window_opened_recv_side [OF _ assms(1), of f] opened conn strm rst
    by (auto simp: handle_window_update_def Let_def put_stream_def split: if_splits sum.splits option.splits prod.splits)
qed

lemma other_frame_recv_side:
  assumes "engine_inv e" "handle_frame ops f e = Some (e', ev, out)" "\<nexists>d. f = Data d"
  shows "recv_side e' = recv_side e"
proof (cases f)
  case (Settings x)
  then show ?thesis using assms(2) handle_settings_recv_side [of ops x e] by (simp add: handle_frame_def)
next
  case (Headers x)
  then show ?thesis
    using assms(2) assembled_recv_side [where e = e and ops = ops]
    by (auto simp: handle_frame_def handle_headers_def split: prod.splits) (metis fst_conv)
next
  case (Continuation x)
  then show ?thesis
    using assms(2) assembled_recv_side [where e = e and ops = ops]
    by (auto simp: handle_frame_def handle_continuation_def split: prod.splits) (metis fst_conv)
next
  case (WindowUpdate x)
  then show ?thesis
    using assms handle_window_update_recv_side [of e x] by (simp add: handle_frame_def engine_inv_def)
qed (use assms in \<open>auto simp: handle_frame_def handle_ping_def engine_handle_goaway_def handle_rst_stream_def recv_side_def
    conn_handle_goaway_def cleanup_closed_streams_def modify_stream_def put_stream_def Let_def split: if_splits option.splits\<close>)

text \<open>Inbound frames one after the other, and the bytes of the DATA frames among them that a stream refused.\<close>

fun refused_bytes :: "H2Frame \<Rightarrow> ('d, 'f) H2Engine \<Rightarrow> int" where
  "refused_bytes (Data f) e = (if refused f e then uint (flow_len f) else 0)"
| "refused_bytes _ e = 0"

fun frame_run :: "('d, 'f) engine_ops \<Rightarrow> H2Frame list \<Rightarrow> ('d, 'f) H2Engine \<Rightarrow> (('d, 'f) H2Engine \<times> int) option" where
  "frame_run ops [] e = Some (e, 0)"
| "frame_run ops (f # fs) e =
     (case handle_frame ops f e of
        None \<Rightarrow> None
      | Some (e1, ev, out) \<Rightarrow> map_option (\<lambda>(e2, n). (e2, refused_bytes f e + n)) (frame_run ops fs e1))"

fun data_on_stream :: "H2Frame \<Rightarrow> bool" where
  "data_on_stream (Data f) \<longleftrightarrow> df_stream_id f \<noteq> 0"
| "data_on_stream _ = True"

lemma frame_step_credit:
  assumes "engine_inv e" "holds_little e" "recv_credit flow_held e \<le> i32_max" "data_on_stream f"
    and "handle_frame (dyn_ops hpack) f e = Some (e', ev, out)"
  shows "engine_inv e' \<and> holds_little e' \<and> en_conn_initial_recv_window e' = en_conn_initial_recv_window e \<and>
    recv_credit flow_held e' = recv_credit flow_held e - refused_bytes f e"
proof -
  have inv: "engine_inv e'" using handle_frame_ok [OF assms(1), of "dyn_ops hpack" f] assms(5) by (auto simp: step_ok_def)
  show ?thesis
  proof (cases "\<exists>d. f = Data d")
    case True
    then obtain d where d: "f = Data d" by blast
    then have h: "handle_data (dyn_ops hpack) d e = (e', ev, out)" "df_stream_id d \<noteq> 0"
      using assms(4,5) by (simp_all add: handle_frame_def)
    show ?thesis
      using inv handle_data_little [OF assms(2) h(2,1)] dynx.handle_data_credit [OF assms(1) _ _ h(2) assms(3) h(1)] d
      by (simp add: dyn_ops_def)
  next
    case False
    then have "recv_side e' = recv_side e" "refused_bytes f e = 0"
      using other_frame_recv_side [OF assms(1,5)] by (blast, cases f) auto
    then show ?thesis using inv assms(2) by (simp add: recv_side_def recv_credit_def holds_little_def)
  qed
qed

lemma frame_run_credit:
  assumes "engine_inv e" "holds_little e" "recv_credit flow_held e \<le> i32_max" "list_all data_on_stream fs"
  shows "\<exists>e' n. frame_run (dyn_ops hpack) fs e = Some (e', n) \<and> 0 \<le> n \<and> holds_little e' \<and>
    en_conn_initial_recv_window e' = en_conn_initial_recv_window e \<and>
    recv_credit flow_held e' = recv_credit flow_held e - n"
  using assms
proof (induction fs arbitrary: e)
  case (Cons f fs)
  obtain e1 ev out where h: "handle_frame (dyn_ops hpack) f e = Some (e1, ev, out)"
    using handle_frame_ok [OF Cons.prems(1), of "dyn_ops hpack" f] by blast
  have pos: "0 \<le> refused_bytes f e" by (cases f) auto
  have s: "engine_inv e1" "holds_little e1" "en_conn_initial_recv_window e1 = en_conn_initial_recv_window e"
    "recv_credit flow_held e1 = recv_credit flow_held e - refused_bytes f e" "list_all data_on_stream fs"
    using frame_step_credit [OF Cons.prems(1-3) _ h] Cons.prems(4) by simp_all
  moreover have "recv_credit flow_held e1 \<le> i32_max" using s(4) pos Cons.prems(3) by linarith
  ultimately obtain e' n where "frame_run (dyn_ops hpack) fs e1 = Some (e', n)" "0 \<le> n" "holds_little e'"
    "en_conn_initial_recv_window e' = en_conn_initial_recv_window e1"
    "recv_credit flow_held e' = recv_credit flow_held e1 - n"
    using Cons.IH by blast
  then show ?case using h s(3,4) pos by auto
qed simp

text \<open>A new engine with a window that the connection accepts is in such a state, with the whole window as credit.\<close>

lemma client_credit:
  fixes ops :: "('d, FlowControl) engine_ops" and policy :: "hpack_policy option"
  assumes "uint (pr_window_update p) + 65535 \<le> i32_max" "preset_flow fc" "\<And>k. flow_held fc k = 0"
  defines "e \<equiv> fst (client_with_policies ops p fc policy)"
  shows "holds_little e" "recv_credit flow_held e = uint (en_conn_initial_recv_window e)"
    "uint (en_conn_initial_recv_window e) \<le> i32_max"
proof -
  have w: "uint (en_conn_initial_recv_window e) = 65535 + uint (pr_window_update p)"
    using assms(1) by (simp add: e_def client_with_policies_def u32_saturating_add_def Let_def uint_word_ariths i32_max_def)
  then show "uint (en_conn_initial_recv_window e) \<le> i32_max" using assms(1) by simp
  have "0 < en_conn_initial_recv_window e"
    unfolding word_less_def w using add_pos_nonneg [of 65535 "uint (pr_window_update p)"] by simp
  moreover have fc: "en_flow_control e = fc" by (simp add: e_def client_with_policies_def Let_def)
  ultimately show "holds_little e" using assms(2,3) by (simp add: holds_little_def)
  have "cs_recv_window (en_state e) = 65535 + uint (pr_window_update p)"
    using assms(1)
    by (auto simp: e_def client_with_policies_def Let_def conn_update_recv_window_def conn_client_def conn_new_def
        settings_default_def settings_client_def DEFAULT_INITIAL_WINDOW_SIZE_def apply_profile_settings_def as_i32_lit i32_max_def
        word_gt_0)
  then show "recv_credit flow_held e = uint (en_conn_initial_recv_window e)"
    using w fc assms(3) by (simp add: recv_credit_def)
qed

subsection \<open>Properties\<close>

text \<open>
  C19. Receive credit. A DATA frame leaves the credit of the connection (the receive window plus what the flow
  control policy holds back) exactly as it was, so the peer's window is always given back in the end,
  whether the policy answers at once or with a threshold. The exception is a frame that the stream
  refuses (it cannot receive, or its own window is exceeded): its length is taken from the
  connection window and never returned.
\<close>

theorem data_keeps_credit:
  assumes "engine_inv e" "df_stream_id f \<noteq> 0" "recv_credit flow_held e \<le> i32_max"
    and "handle_data (dyn_ops hpack) f e = (e', ev, out)"
  shows "recv_credit flow_held e' = recv_credit flow_held e - (if refused f e then uint (flow_len f) else 0)"
  using dynx.handle_data_credit [OF assms(1) _ _ assms(2,3,4)] by (simp add: dyn_ops_def)

definition open_engine :: "(unit, FlowControl) H2Engine" where
  "open_engine = snd (engine_open_stream (fst (engine_client unit_hpack chrome_144_h2)))"

lemma open_engine_inv: "engine_inv open_engine"
proof -
  have start: "engine_inv (fst (engine_client unit_hpack chrome_144_h2))"
    unfolding engine_client_def by (rule engine_inv_new)
  show ?thesis
    unfolding open_engine_def using open_stream_ok(1) [OF start prod.collapse [symmetric]] .
qed

lemmas open_engine_eval =
  open_engine_def engine_open_stream_def open_stream_def engine_client_def client_with_policies_def Let_def
  conn_client_def conn_new_def settings_default_def settings_client_def DEFAULT_INITIAL_WINDOW_SIZE_def
  apply_profile_settings_def conn_update_recv_window_def chrome_144_h2_def put_stream_def get_stream_def
  new_with_windows_def stream_open_def as_i32_lit i32_max_def split_beta

lemma open_engine_fields:
  "cs_recv_window (en_state open_engine) = 15728640" "en_flow_control open_engine = Immediate"
  "en_pending_data open_engine = []" "cs_send_window (en_state open_engine) = 65535"
  "map (\<lambda>(k, s). (k, st_send_window s, st_initial_window_size s, st_state s)) (cs_streams (en_state open_engine)) =
     [(1, 65535, 65535, Open)]"
  by (simp_all add: open_engine_eval)

theorem data_keeps_credit_witness:
  "let f = \<lparr>df_stream_id = 9, df_data = [1, 2, 3], df_end_stream = False, df_padding = Some 4\<rparr>
   in recv_credit flow_held (fst (handle_data (dyn_ops unit_hpack) f open_engine)) = 15728640"
proof -
  let ?f = "\<lparr>df_stream_id = 9, df_data = [1, 2, 3], df_end_stream = False, df_padding = Some 4\<rparr>"
  obtain e' ev out where h: "handle_data (dyn_ops unit_hpack) ?f open_engine = (e', ev, out)" by (metis surj_pair)
  have c: "recv_credit flow_held open_engine = 15728640" by (simp add: recv_credit_def open_engine_fields)
  have "get_stream (en_state open_engine) 9 = None" by (simp add: open_engine_eval)
  then have "\<not> refused ?f open_engine" by (simp add: refused_def)
  then show ?thesis
    using data_keeps_credit [OF open_engine_inv _ _ h] c h by (simp add: i32_max_def)
qed

text \<open>
  C33. The connection never stalls under the presets. Take an engine whose flow control is immediate or a threshold with
  the ratio of the browser presets, whose policy holds back less than the connection's initial window and whose credit is
  that whole window, as it is for every new engine with an acceptable profile. After any sequence of inbound frames of all
  kinds, the DATA frames being on streams, handling has succeeded and the peer may still send on the connection, except
  for bytes that the engine lost by refusing them on a stream: the connection's receive window plus those lost bytes is
  positive, and what the policy holds back and the lost bytes are all that is missing from the initial window.
\<close>

theorem connection_window_never_stalls:
  assumes "engine_inv e" "preset_flow (en_flow_control e)"
    "flow_held (en_flow_control e) 0 < en_conn_initial_recv_window e"
    "cs_recv_window (en_state e) + uint (flow_held (en_flow_control e) 0) = uint (en_conn_initial_recv_window e)"
    "uint (en_conn_initial_recv_window e) \<le> i32_max" "list_all data_on_stream fs"
  shows "\<exists>e' lost. frame_run (dyn_ops hpack) fs e = Some (e', lost) \<and> 0 \<le> lost \<and>
    0 < cs_recv_window (en_state e') + lost \<and>
    cs_recv_window (en_state e') + uint (flow_held (en_flow_control e') 0) + lost = uint (en_conn_initial_recv_window e)"
proof -
  have "recv_credit flow_held e = uint (en_conn_initial_recv_window e)" "holds_little e"
    using assms by (simp_all add: recv_credit_def holds_little_def)
  then obtain e' n where r: "frame_run (dyn_ops hpack) fs e = Some (e', n)" "0 \<le> n" "holds_little e'"
    "en_conn_initial_recv_window e' = en_conn_initial_recv_window e"
    "recv_credit flow_held e' = uint (en_conn_initial_recv_window e) - n"
    using frame_run_credit [OF assms(1) _ _ assms(6), of hpack] assms(5) by auto
  moreover have "uint (flow_held (en_flow_control e') 0) < uint (en_conn_initial_recv_window e)"
    using r(3,4) by (simp add: holds_little_def word_less_def)
  ultimately show ?thesis by (auto simp: recv_credit_def)
qed

text \<open>Chrome's profile and threshold; a DATA frame of 12 bytes and a PING arrive.\<close>

definition threshold_engine :: "(unit, FlowControl) H2Engine" where
  "threshold_engine = fst (client_with_policies (dyn_ops unit_hpack) chrome_144_h2 (Threshold threshold_chrome) None)"

definition sample_inbound :: "H2Frame list" where
  "sample_inbound =
     [Data \<lparr>df_stream_id = 1, df_data = replicate 12 7, df_end_stream = False, df_padding = None\<rparr>,
      Ping \<lparr>pgf_ack = False, pgf_data = replicate 8 0\<rparr>]"

theorem connection_window_never_stalls_witness:
  "preset_flow (en_flow_control threshold_engine) \<and> list_all data_on_stream sample_inbound \<and>
   (\<exists>e' lost. frame_run (dyn_ops unit_hpack) sample_inbound threshold_engine = Some (e', lost) \<and>
     0 < cs_recv_window (en_state e') + lost)"
proof -
  have inv: "engine_inv threshold_engine" unfolding threshold_engine_def by (rule engine_inv_new)
  have p: "uint (pr_window_update chrome_144_h2) + 65535 \<le> i32_max" by (simp add: chrome_144_h2_def i32_max_def)
  have h: "flow_held (Threshold threshold_chrome) k = 0" for k
    by (simp add: threshold_chrome_def threshold_new_def acc_of_def)
  note c = client_credit [OF p preset_behaviors(1) h, of "dyn_ops unit_hpack" None, folded threshold_engine_def]
  have d: "list_all data_on_stream sample_inbound" by (simp add: sample_inbound_def)
  show ?thesis
    using connection_window_never_stalls [OF inv _ _ _ c(3) d, of unit_hpack] c(1,2) d
    unfolding holds_little_def recv_credit_def by blast
qed

text \<open>
  Waiting body bytes can be overtaken. \<^verbatim>\<open>build_data\<close> does not look at what already waits on the stream: when
  the windows are open again (after a SETTINGS frame, which does not drain), the bytes of a further call go
  out first and the older ones stay behind; a further call without data sends END_STREAM first.
\<close>

theorem later_data_overtakes_pending:
  assumes "conn_inv (en_state e)" "waiting_on k (en_pending_data e) \<noteq> []" "0 < budget k (en_state e)"
  shows "\<exists>frames e'. build_data k xs es e = Some (frames, e') \<and>
           sent_on k frames = take (budget k (en_state e)) xs \<and>
           prefix (waiting_on k (en_pending_data e)) (waiting_on k (en_pending_data e')) \<and>
           (if xs = [] \<and> es then frames = [data_frame k [] True] else True)"
  using build_data_spec [OF assms(1), of k xs es] sent_on_sent_frames [OF assms(1), of k k xs es]
  by (simp add: sent_state_def sent_frames_def Let_def)

text \<open>The peer closes the window, a body waits, the peer opens the window again by SETTINGS.\<close>

definition window_settings :: "u32 \<Rightarrow> SettingsFrame" where
  "window_settings w = \<lparr>sf_ack = False, sf_settings = [\<lparr>sp_id = 4, sp_value = w\<rparr>]\<rparr>"

definition stalled_engine :: "(unit, FlowControl) H2Engine" where
  "stalled_engine =
     (let e1 = fst (handle_settings (dyn_ops unit_hpack) (window_settings 0) open_engine);
          e2 = snd (the (build_data 1 [9] False e1))
      in fst (handle_settings (dyn_ops unit_hpack) (window_settings 100) e2))"

lemma handle_settings_state: "engine_inv e \<Longrightarrow> engine_inv (fst (handle_settings ops f e))"
  using handle_settings_ok [of e ops f] by (cases "handle_settings ops f e") (auto simp: step_ok_def)

lemma open_engine_streams:
  "cs_streams (en_state open_engine) =
     [(1, \<lparr>st_id = 1, st_state = Open, st_send_window = 65535, st_recv_window = 6291456, st_initial_window_size = 65535\<rparr>)]"
  "cs_remote_settings (en_state open_engine) = settings_default"
  by (simp_all add: open_engine_eval effective_local_initial_window_size_def setting_def settings_apply_def
      settings_id_from_u16_def keep_def)

text \<open>The windows of the single stream behind a SETTINGS frame.\<close>

lemma window_settings_step:
  assumes "cs_streams (en_state e) = [(1, s)]" "uint w \<le> i32_max"
    "st_send_window s + uint w - uint (st_initial_window_size s) = v" "i32_min \<le> v" "v \<le> i32_max"
  shows "let e' = fst (handle_settings ops (window_settings w) e)
         in cs_streams (en_state e') = [(1, s\<lparr>st_send_window := v, st_initial_window_size := w\<rparr>)] \<and>
            cs_send_window (en_state e') = cs_send_window (en_state e) \<and> en_pending_data e' = en_pending_data e"
proof -
  have w: "\<not> w > 0x7FFFFFFF" using assms(2) by (simp add: i32_max_def word_less_def)
  have "apply_initial_window_size w s = Inr (s\<lparr>st_send_window := v, st_initial_window_size := w\<rparr>)"
    using assms(3-5) by (simp add: apply_initial_window_size_def Let_def algebra_simps)
  then show ?thesis
    using assms(1) w
    by (simp add: handle_settings_def apply_remote_settings_def window_settings_def settings_apply_def
        settings_id_from_u16_def Let_def set_encoder_table_size_def)
qed

lemma stalled_engine_fields:
  "engine_inv stalled_engine" "en_pending_data stalled_engine = [pend 1 [9] False]"
  "budget 1 (en_state stalled_engine) = 100"
proof -
  define e1 where "e1 = fst (handle_settings (dyn_ops unit_hpack) (window_settings 0) open_engine)"
  define e2 where "e2 = snd (the (build_data 1 [9] False e1))"
  have inv1: "engine_inv e1" unfolding e1_def by (rule handle_settings_state [OF open_engine_inv])
  have f1: "cs_streams (en_state e1) =
     [(1, \<lparr>st_id = 1, st_state = Open, st_send_window = 0, st_recv_window = 6291456, st_initial_window_size = 0\<rparr>)]"
    "cs_send_window (en_state e1) = 65535" "en_pending_data e1 = []"
    using window_settings_step [OF open_engine_streams(1), of 0 0 "dyn_ops unit_hpack"]
    by (simp_all add: e1_def Let_def i32_max_def i32_min_def open_engine_fields)
  have b1: "budget 1 (en_state e1) = 0" by (simp add: budget_def get_stream_def f1)
  have "e2 = sent_state 1 [9] False e1"
    using build_data_spec [of e1 1 "[9]" False] inv1 by (simp add: e2_def engine_inv_def)
  then have e2: "e2 = e1\<lparr>en_pending_data := [pend 1 [9] False]\<rparr>"
    using b1 f1(3) by (simp add: sent_state_def Let_def)
  have inv2: "engine_inv e2" using inv1 e2 by (simp add: engine_inv_def nonempty_pending_def pend_def)
  have st: "stalled_engine = fst (handle_settings (dyn_ops unit_hpack) (window_settings 100) e2)"
    by (simp add: stalled_engine_def e1_def e2_def Let_def)
  show "engine_inv stalled_engine" unfolding st by (rule handle_settings_state [OF inv2])
  have s2: "cs_streams (en_state e2) =
     [(1, \<lparr>st_id = 1, st_state = Open, st_send_window = 0, st_recv_window = 6291456, st_initial_window_size = 0\<rparr>)]"
    using f1(1) e2 by simp
  show "en_pending_data stalled_engine = [pend 1 [9] False]" "budget 1 (en_state stalled_engine) = 100"
    using window_settings_step [OF s2, of 100 100 "dyn_ops unit_hpack"] e2 f1(2)
    by (simp_all add: st Let_def i32_max_def i32_min_def budget_def get_stream_def)
qed

theorem later_data_overtakes_pending_witness:
  "\<exists>frames e'. build_data 1 [8] True stalled_engine = Some (frames, e') \<and> sent_on 1 frames = [8] \<and>
     prefix [9] (waiting_on 1 (en_pending_data e'))"
proof -
  have inv: "conn_inv (en_state stalled_engine)" using stalled_engine_fields(1) by (simp add: engine_inv_def)
  show ?thesis
    using later_data_overtakes_pending [OF inv, of 1 "[8]" True]
    by (simp add: stalled_engine_fields(2,3) pend_def)
qed

text \<open>
  A graceful GOAWAY goes unnoticed: \<^verbatim>\<open>is_goaway\<close>, documented as telling whether a GOAWAY was received, becomes true
  exactly when the frame's error code is not NO_ERROR, although the connection records every GOAWAY; streams can
  still be opened as before.
\<close>

theorem graceful_goaway_unnoticed:
  "let e' = fst (engine_handle_goaway f e)
   in is_goaway e' = (if gf_error_code f = 0 then is_goaway e else True) \<and> cs_goaway_received (en_state e') \<and>
      engine_can_open_stream e' = engine_can_open_stream e"
  by (simp add: engine_handle_goaway_def is_goaway_def has_error_def conn_handle_goaway_def Let_def
      engine_can_open_stream_def can_open_stream_def active_stream_count_def split: option.split)

end
