(* ===== verification/H2_Driver.thy ===== *)
theory H2_Driver
  imports H2_Wire "HOL-Library.Multiset"
begin

text \<open>
  The connection driver, \<^verbatim>\<open>lkh2/src/driver.rs\<close>, with the request conversion of \<^verbatim>\<open>lkh2/src/adapter.rs\<close>: the task
  that connects the engine with the socket and with the callers' channels.

  Tokio is outside the model. The socket is a pair of functions on a writer state \<open>'w\<close>; reads,
  commands, cancellations and the shutdown timer are the inputs of one turn of the \<^verbatim>\<open>select!\<close> loop.
  A request's two channels are named by its request id, and every use of a sender is a notice: a
  message, or its being dropped without one (which the receiver sees as a closed channel).
\<close>

subsection \<open>Messages\<close>

datatype DriverError =
    DE_Io string | DE_Protocol string | DE_StreamReset u32 | DE_GoAway string | DE_Shutdown | DE_ChannelClosed

fun driver_error_display :: "DriverError \<Rightarrow> string" where
  "driver_error_display (DE_Io msg) = ''I/O error: '' @ msg"
| "driver_error_display (DE_Protocol msg) = ''protocol error: '' @ msg"
| "driver_error_display (DE_StreamReset code) = ''stream reset: error_code='' @ show_nat (unat code)"
| "driver_error_display (DE_GoAway msg) = ''GOAWAY: '' @ msg"
| "driver_error_display DE_Shutdown = ''connection shut down''"
| "driver_error_display DE_ChannelClosed = ''channel closed''"

record NativeResponseHeaders =
  rh_status :: u16
  rh_headers :: "(bytes \<times> bytes) list"

datatype DriverCommand =
    CmdSendRequest u64 http_request
  | CmdSendNativeRequest u64 NativeH2Request
  | CmdShutdown

datatype QueuedRequest = QRequest u64 http_request | QNativeRequest u64 NativeH2Request

fun queued_request_id :: "QueuedRequest \<Rightarrow> u64" where
  "queued_request_id (QRequest i _) = i"
| "queued_request_id (QNativeRequest i _) = i"

text \<open>\<open>headers_tx\<close> is an \<^verbatim>\<open>Option\<close> that is taken once: open or not.\<close>

record PendingStream =
  ps_id :: u64
  ps_headers_open :: bool

datatype notice =
    HeadersSent u64 "DriverError + NativeResponseHeaders"
  | HeadersDropped u64
  | BodySent u64 "DriverError + bytes"
  | BodyDropped u64

type_synonym pending_map = "(u32 \<times> PendingStream) list"

text \<open>Dropping what is left of a stream's senders.\<close>

definition drop_stream :: "PendingStream \<Rightarrow> notice list" where
  "drop_stream ps = (if ps_headers_open ps then [HeadersDropped (ps_id ps)] else []) @ [BodyDropped (ps_id ps)]"

definition send_headers_tx :: "PendingStream \<Rightarrow> DriverError + NativeResponseHeaders \<Rightarrow> notice list" where
  "send_headers_tx ps r = (if ps_headers_open ps then [HeadersSent (ps_id ps) r] else [])"

definition fail_stream :: "DriverError \<Rightarrow> PendingStream \<Rightarrow> notice list" where
  "fail_stream err ps =
     send_headers_tx ps (Inl err) @ [BodySent (ps_id ps) (Inl err), BodyDropped (ps_id ps)]"

definition drop_request :: "u64 \<Rightarrow> notice list" where
  "drop_request i = [HeadersDropped i, BodyDropped i]"

subsection \<open>Events\<close>

definition is_interim_status :: "u16 \<Rightarrow> bool" where
  "is_interim_status status \<longleftrightarrow> 100 \<le> status \<and> status < 200"

definition notify_all_error :: "DriverError \<Rightarrow> pending_map \<Rightarrow> pending_map \<times> notice list" where
  "notify_all_error err pending = ([], concat (map (\<lambda>(k, ps). fail_stream err ps) pending))"

definition notify_waiting_error :: "DriverError \<Rightarrow> QueuedRequest list \<Rightarrow> QueuedRequest list \<times> notice list" where
  "notify_waiting_error err waiting =
     ([], concat (map (\<lambda>q. [HeadersSent (queued_request_id q) (Inl err), BodySent (queued_request_id q) (Inl err),
                            BodyDropped (queued_request_id q)]) waiting))"

fun handle_event :: "H2Event \<Rightarrow> pending_map \<Rightarrow> pending_map \<times> notice list" where
  "handle_event (EvResponseHeaders stream_id headers end_stream) pending =
     (case map_of pending stream_id of
        None \<Rightarrow> (pending, [])
      | Some ps \<Rightarrow>
          let status = unwrap_or 0 (get_status headers) in
          if is_interim_status status then (pending, [])
          else
            let sent = send_headers_tx ps (Inr \<lparr>rh_status = status, rh_headers = headers\<rparr>);
                pending1 = AList.update stream_id (ps\<lparr>ps_headers_open := False\<rparr>) pending
            in if end_stream then (AList.delete stream_id pending1, sent @ [BodyDropped (ps_id ps)])
               else (pending1, sent))"
| "handle_event (EvResponseData stream_id data end_stream) pending =
     (case map_of pending stream_id of
        None \<Rightarrow> (pending, [])
      | Some ps \<Rightarrow>
          let sent = (if data \<noteq> [] then [BodySent (ps_id ps) (Inr data)] else []) in
          if end_stream then (AList.delete stream_id pending, sent @ drop_stream ps)
          else (pending, sent))"
| "handle_event (EvStreamReset stream_id error_code) pending =
     (case map_of pending stream_id of
        None \<Rightarrow> (pending, [])
      | Some ps \<Rightarrow> (AList.delete stream_id pending, fail_stream (DE_StreamReset error_code) ps))"
| "handle_event (EvGoAway last_stream_id error_code debug_data) pending =
     (if error_code \<noteq> 0 then
        notify_all_error (DE_GoAway (''error_code='' @ show_nat (unat error_code) @ '', debug='' @
          map (\<lambda>b. char_of (unat b)) (vec_to_string_lossy debug_data))) pending
      else
        (filter (\<lambda>(k, ps). \<not> k > last_stream_id) pending,
         concat (map (\<lambda>(k, ps). send_headers_tx ps (Inl (DE_GoAway ''stream rejected by GOAWAY'')) @
                                [BodyDropped (ps_id ps)])
                   (filter (\<lambda>(k, ps). k > last_stream_id) pending))))"
| "handle_event _ pending = (pending, [])"

fun handle_events :: "H2Event list \<Rightarrow> pending_map \<Rightarrow> pending_map \<times> notice list" where
  "handle_events [] pending = (pending, [])"
| "handle_events (ev # evs) pending =
     (let (pending1, out1) = handle_event ev pending; (pending2, out2) = handle_events evs pending1
      in (pending2, out1 @ out2))"

text \<open>The first request with the id, and whether there was one.\<close>

fun remove_waiting_request :: "u64 \<Rightarrow> QueuedRequest list \<Rightarrow> QueuedRequest list \<times> bool" where
  "remove_waiting_request i [] = ([], False)"
| "remove_waiting_request i (q # qs) =
     (if queued_request_id q = i then (qs, True)
      else let (qs', b) = remove_waiting_request i qs in (q # qs', b))"

subsection \<open>Writing\<close>

record ('d, 'f, 'w) driver_env =
  de_ops :: "('d, 'f) engine_ops"
  de_group_frames :: "H2Frame list \<Rightarrow> H2Frame list list"
  de_write_all :: "bytes \<Rightarrow> 'w \<Rightarrow> string option \<times> 'w"
  de_flush :: "'w \<Rightarrow> string option \<times> 'w"
  de_to_str :: "bytes \<Rightarrow> bytes option"

definition write_and_flush :: "('d, 'f, 'w) driver_env \<Rightarrow> bytes \<Rightarrow> 'w \<Rightarrow> string option \<times> 'w" where
  "write_and_flush env output w =
     (case de_write_all env output w of
        (Some err, w1) \<Rightarrow> (Some err, w1)
      | (None, w1) \<Rightarrow> de_flush env w1)"

fun write_groups :: "('d, 'f, 'w) driver_env \<Rightarrow> H2Frame list list \<Rightarrow> 'w \<Rightarrow> string option \<times> 'w" where
  "write_groups env [] w = (None, w)"
| "write_groups env (g # groups) w =
     (let output = encode_frames g [] in
      if output \<noteq> [] then
        (case write_and_flush env output w of
           (Some err, w1) \<Rightarrow> (Some err, w1)
         | (None, w1) \<Rightarrow> write_groups env groups w1)
      else write_groups env groups w)"

definition encode_and_write_frames :: "('d, 'f, 'w) driver_env \<Rightarrow> H2Frame list \<Rightarrow> 'w \<Rightarrow> string option \<times> 'w" where
  "encode_and_write_frames env frames w = write_groups env (de_group_frames env frames) w"

definition CONNECTION_PREFACE :: bytes where
  "CONNECTION_PREFACE =
     ascii ''PRI * HTTP/2.0'' @ [13, 10, 13, 10] @ ascii ''SM'' @ [13, 10, 13, 10]"

text \<open>The preface block of \<^verbatim>\<open>driver_loop\<close>: \<open>i\<close> is the group's position.\<close>

fun write_preface :: "('d, 'f, 'w) driver_env \<Rightarrow> nat \<Rightarrow> H2Frame list list \<Rightarrow> 'w \<Rightarrow> DriverError option \<times> 'w" where
  "write_preface env i [] w = (None, w)"
| "write_preface env i (g # groups) w =
     (case write_and_flush env (encode_frames g (if i = 0 then CONNECTION_PREFACE else [])) w of
        (Some err, w1) \<Rightarrow> (Some (DE_Io err), w1)
      | (None, w1) \<Rightarrow> write_preface env (Suc i) groups w1)"

subsection \<open>Dispatch\<close>

text \<open>\<^verbatim>\<open>build_native_request\<close> of the adapter: no pseudo-headers, no values that are not text.\<close>

definition adapter_native_request :: "(bytes \<Rightarrow> bytes option) \<Rightarrow> http_request \<Rightarrow> NativeH2Request" where
  "adapter_native_request to_str r =
     \<lparr>nr_method = rq_method r, nr_uri = rq_uri r,
      nr_ordered_headers =
        List.map_filter (\<lambda>(name, val). map_option (Pair name) (to_str val))
          (filter (\<lambda>(name, _). \<not> starts_with_colon name) (rq_headers r)),
      nr_body = rq_body r, nr_priority = rq_priority r\<rparr>"

fun build_queued ::
  "('d, 'f, 'w) driver_env \<Rightarrow> u32 \<Rightarrow> QueuedRequest \<Rightarrow> ('d, 'f) H2Engine \<Rightarrow> (H2Frame list \<times> ('d, 'f) H2Engine) option" where
  "build_queued env stream_id (QRequest _ r) e = build_request (de_to_str env) stream_id r e"
| "build_queued env stream_id (QNativeRequest _ r) e = build_native_request stream_id r e"

record ('d, 'f, 'w) driver =
  dv_engine :: "('d, 'f) H2Engine"
  dv_stream :: 'w
  dv_read_buf :: bytes
  dv_pending :: pending_map
  dv_waiting :: "QueuedRequest list"
  dv_shutdown :: bool
  dv_cancel_rx_open :: bool
  dv_shutdown_deadline :: bool

type_synonym ('d, 'f, 'w) turn = "('d, 'f, 'w) driver \<times> notice list"

text \<open>
  The dispatch loop over the waiting queue. \<open>gone\<close> tells which requests have lost both receivers. The
  first component is the error of an early return.
\<close>

fun dispatch_loop ::
  "('d, 'f, 'w) driver_env \<Rightarrow> (u64 \<Rightarrow> bool) \<Rightarrow> QueuedRequest list \<Rightarrow> ('d, 'f) H2Engine \<Rightarrow> 'w \<Rightarrow> pending_map \<Rightarrow>
   (DriverError option \<times> QueuedRequest list \<times> ('d, 'f) H2Engine \<times> 'w \<times> pending_map \<times> notice list) option" where
  "dispatch_loop env gone [] e w pending = Some (None, [], e, w, pending, [])"
| "dispatch_loop env gone (q # qs) e w pending =
     (if engine_can_open_stream e then
        if gone (queued_request_id q) then do {
          (r, qs', e', w', pending', out) \<leftarrow> dispatch_loop env gone qs e w pending;
          Some (r, qs', e', w', pending', drop_request (queued_request_id q) @ out)
        }
        else (let (stream_id, e1) = engine_open_stream e in do {
          (frames, e2) \<leftarrow> build_queued env stream_id q e1;
          let ps = \<lparr>ps_id = queued_request_id q, ps_headers_open = True\<rparr>;
          let replaced = (case map_of pending stream_id of Some old \<Rightarrow> drop_stream old | None \<Rightarrow> []);
          let pending1 = AList.update stream_id ps pending;
          (case encode_and_write_frames env frames w of
             (Some err, w1) \<Rightarrow>
               Some (Some (DE_Io err), qs, e2, w1, AList.delete stream_id pending1, replaced @ fail_stream (DE_Io err) ps)
           | (None, w1) \<Rightarrow> do {
               (r, qs', e', w', pending', out) \<leftarrow> dispatch_loop env gone qs e2 w1 pending1;
               Some (r, qs', e', w', pending', replaced @ out)
             })
        })
      else Some (None, q # qs, e, w, pending, []))"

definition dispatch_waiting_requests ::
  "('d, 'f, 'w) driver_env \<Rightarrow> (u64 \<Rightarrow> bool) \<Rightarrow> ('d, 'f, 'w) driver \<Rightarrow>
   (DriverError option \<times> ('d, 'f, 'w) turn) option" where
  "dispatch_waiting_requests env gone d =
     (if is_goaway (dv_engine d) then
        (let (waiting, out) = notify_waiting_error (DE_GoAway ''connection is draining'') (dv_waiting d)
         in Some (None, d\<lparr>dv_waiting := waiting\<rparr>, out))
      else do {
        (r, qs, e, w, pending, out) \<leftarrow> dispatch_loop env gone (dv_waiting d) (dv_engine d) (dv_stream d) (dv_pending d);
        Some (r, d\<lparr>dv_waiting := qs, dv_engine := e, dv_stream := w, dv_pending := pending\<rparr>, out)
      })"

text \<open>The piggybacked first request; its channels have the id 0, request ids start at 1.\<close>

definition write_first_request ::
  "('d, 'f, 'w) driver_env \<Rightarrow> http_request \<Rightarrow> ('d, 'f, 'w) driver \<Rightarrow> (DriverError option \<times> ('d, 'f, 'w) turn) option" where
  "write_first_request env r d =
     (let (stream_id, e1) = engine_open_stream (dv_engine d) in do {
        (frames, e2) \<leftarrow> build_native_request stream_id (adapter_native_request (de_to_str env) r) e1;
        let ps = \<lparr>ps_id = 0, ps_headers_open = True\<rparr>;
        let pending1 = AList.update stream_id ps (dv_pending d);
        (case encode_and_write_frames env frames (dv_stream d) of
           (Some err, w1) \<Rightarrow>
             Some (Some (DE_Io err),
               d\<lparr>dv_engine := e2, dv_stream := w1, dv_pending := AList.delete stream_id pending1\<rparr>,
               send_headers_tx ps (Inl (DE_Io err)) @ [BodyDropped (ps_id ps)])
         | (None, w1) \<Rightarrow> Some (None, d\<lparr>dv_engine := e2, dv_stream := w1, dv_pending := pending1\<rparr>, []))
      })"

subsection \<open>The loop\<close>

text \<open>What can wake the \<^verbatim>\<open>select!\<close>, and the guards of its branches.\<close>

datatype wakeup =
    Cancelled "u64 option"
  | ReadEof
  | ReadBytes bytes
  | ReadError string
  | Command "DriverCommand option"
  | DeadlineReached

definition wakeup_enabled :: "('d, 'f, 'w) driver \<Rightarrow> wakeup \<Rightarrow> bool" where
  "wakeup_enabled d ev =
     (case ev of
        Cancelled _ \<Rightarrow> dv_cancel_rx_open d
      | Command _ \<Rightarrow> \<not> dv_shutdown d
      | DeadlineReached \<Rightarrow> dv_shutdown_deadline d
      | _ \<Rightarrow> True)"

text \<open>All requests fail with the same error before the loop is left.\<close>

definition fail_all :: "DriverError \<Rightarrow> ('d, 'f, 'w) driver \<Rightarrow> ('d, 'f, 'w) turn" where
  "fail_all err d =
     (let (pending, out1) = notify_all_error err (dv_pending d);
          (waiting, out2) = notify_waiting_error err (dv_waiting d)
      in (d\<lparr>dv_pending := pending, dv_waiting := waiting\<rparr>, out1 @ out2))"

definition enqueue :: "(u64 \<Rightarrow> bool) \<Rightarrow> QueuedRequest \<Rightarrow> ('d, 'f, 'w) driver \<Rightarrow> ('d, 'f, 'w) turn" where
  "enqueue gone q d =
     (if \<not> gone (queued_request_id q) then (d\<lparr>dv_waiting := dv_waiting d @ [q]\<rparr>, [])
      else (d, drop_request (queued_request_id q)))"

text \<open>The branch of the \<^verbatim>\<open>select!\<close>; the first component tells whether it breaks out of the loop.\<close>

definition select_branch ::
  "('d, 'f, 'w) driver_env \<Rightarrow> (u64 \<Rightarrow> bool) \<Rightarrow> wakeup \<Rightarrow> ('d, 'f, 'w) driver \<Rightarrow>
   (bool \<times> ('d, 'f, 'w) turn) option" where
  "select_branch env gone ev d =
     (case ev of
        Cancelled (Some request_id) \<Rightarrow>
          (let (waiting, found) = remove_waiting_request request_id (dv_waiting d)
           in Some (False, d\<lparr>dv_waiting := waiting\<rparr>, if found then drop_request request_id else []))
      | Cancelled None \<Rightarrow> Some (False, d\<lparr>dv_cancel_rx_open := False\<rparr>, [])
      | ReadEof \<Rightarrow> Some (True, fail_all (DE_Io ''connection closed'') d)
      | ReadError e \<Rightarrow> Some (True, fail_all (DE_Io e) d)
      | ReadBytes bs \<Rightarrow> do {
          (rest, e1, events, outbound) \<leftarrow> process (de_ops env) (dv_read_buf d @ bs) (dv_engine d);
          let d1 = d\<lparr>dv_read_buf := rest, dv_engine := e1\<rparr>;
          (case (if outbound \<noteq> [] then encode_and_write_frames env outbound (dv_stream d1) else (None, dv_stream d1)) of
             (Some err, w1) \<Rightarrow> Some (True, fail_all (DE_Io err) (d1\<lparr>dv_stream := w1\<rparr>))
           | (None, w1) \<Rightarrow>
               (let (pending, out) = handle_events events (dv_pending d1)
                in Some (False, d1\<lparr>dv_stream := w1, dv_pending := pending\<rparr>, out)))
        }
      | Command (Some (CmdSendRequest i r)) \<Rightarrow> Some (False, enqueue gone (QRequest i r) d)
      | Command (Some (CmdSendNativeRequest i r)) \<Rightarrow> Some (False, enqueue gone (QNativeRequest i r) d)
      | Command _ \<Rightarrow>
          (let d1 = d\<lparr>dv_shutdown := True\<rparr>
           in if dv_pending d1 = [] \<and> dv_waiting d1 = [] then Some (True, d1, [])
              else Some (False, d1\<lparr>dv_shutdown_deadline := True\<rparr>, []))
      | DeadlineReached \<Rightarrow> Some (True, fail_all DE_Shutdown d))"

text \<open>One turn of the loop: whether the loop is left, the state and the notices.\<close>

definition driver_turn ::
  "('d, 'f, 'w) driver_env \<Rightarrow> (u64 \<Rightarrow> bool) \<Rightarrow> wakeup \<Rightarrow> ('d, 'f, 'w) driver \<Rightarrow>
   (bool \<times> ('d, 'f, 'w) turn) option" where
  "driver_turn env gone ev d = do {
     (left, d1, out1) \<leftarrow> select_branch env gone ev d;
     if left then Some (True, d1, out1)
     else do {
       (r, d2, out2) \<leftarrow> dispatch_waiting_requests env gone d1;
       (case r of
          Some err \<Rightarrow> (let (d3, out3) = fail_all err d2 in Some (True, d3, out1 @ out2 @ out3))
        | None \<Rightarrow>
            Some (dv_shutdown d2 \<and> dv_pending d2 = [] \<and> dv_waiting d2 = [], d2, out1 @ out2))
     }
   }"

text \<open>
  Until the loop is left or the wakeups end; \<open>gone\<close> may differ from turn to turn. The last component
  lists the ids of the requests that were taken from the command channel.
\<close>

fun taken_ids :: "wakeup \<Rightarrow> u64 list" where
  "taken_ids (Command (Some (CmdSendRequest i _))) = [i]"
| "taken_ids (Command (Some (CmdSendNativeRequest i _))) = [i]"
| "taken_ids _ = []"

fun driver_run ::
  "('d, 'f, 'w) driver_env \<Rightarrow> (wakeup \<times> (u64 \<Rightarrow> bool)) list \<Rightarrow> ('d, 'f, 'w) driver \<Rightarrow>
   (bool \<times> ('d, 'f, 'w) driver \<times> notice list \<times> u64 list) option" where
  "driver_run env [] d = Some (False, d, [], [])"
| "driver_run env ((ev, gone) # evs) d =
     (if wakeup_enabled d ev then do {
        (left, d1, out1) \<leftarrow> driver_turn env gone ev d;
        if left then Some (True, d1, out1, taken_ids ev)
        else do {
          (left', d2, out2, taken2) \<leftarrow> driver_run env evs d1;
          Some (left', d2, out1 @ out2, taken_ids ev @ taken2)
        }
      }
      else driver_run env evs d)"

definition driver_new :: "('d, 'f) H2Engine \<Rightarrow> 'w \<Rightarrow> ('d, 'f, 'w) driver" where
  "driver_new e w =
     \<lparr>dv_engine = e, dv_stream = w, dv_read_buf = [], dv_pending = [], dv_waiting = [], dv_shutdown = False,
      dv_cancel_rx_open = True, dv_shutdown_deadline = False\<rparr>"

text \<open>The part of \<^verbatim>\<open>driver_loop\<close> before the main loop; \<open>Inl\<close> when the task ends there.\<close>

definition driver_start ::
  "('d, 'f, 'w) driver_env \<Rightarrow> ('d, 'f) H2Engine \<Rightarrow> H2Frame list \<Rightarrow> http_request option \<Rightarrow> 'w \<Rightarrow>
   (DriverError option \<times> ('d, 'f, 'w) turn) option" where
  "driver_start env e preface_frames first_request w =
     (case write_preface env 0 (de_group_frames env preface_frames) w of
        (Some err, w1) \<Rightarrow>
          Some (Some err, driver_new e w1, case first_request of None \<Rightarrow> [] | Some _ \<Rightarrow> drop_request 0)
      | (None, w1) \<Rightarrow>
          (case first_request of
             None \<Rightarrow> Some (None, driver_new e w1, [])
           | Some r \<Rightarrow> write_first_request env r (driver_new e w1)))"

text \<open>The synchronous part of \<^verbatim>\<open>spawn_driver_with_first_request_and_config\<close>.\<close>

definition spawn_engine ::
  "('d, 'f) engine_ops \<Rightarrow> H2Profile \<Rightarrow> 'f \<Rightarrow> hpack_policy \<Rightarrow> nat option \<Rightarrow>
   DriverError + ('d, 'f) H2Engine \<times> H2Frame list" where
  "spawn_engine ops profile flow_control policy max_pending_requests =
     (if max_pending_requests = Some 0
      then Inl (DE_Protocol ''max_pending_requests must be greater than zero'')
      else Inr (client_with_policies ops profile flow_control (Some policy)))"

subsection \<open>Open requests\<close>

text \<open>The requests whose response headers have not been answered, and those that a list of notices answers.\<close>

definition unanswered :: "PendingStream \<Rightarrow> u64 multiset" where
  "unanswered ps = (if ps_headers_open ps then {#ps_id ps#} else {#})"

fun open_pending :: "pending_map \<Rightarrow> u64 multiset" where
  "open_pending [] = {#}"
| "open_pending ((k, ps) # p) = unanswered ps + open_pending p"

definition open_requests :: "('d, 'f, 'w) driver \<Rightarrow> u64 multiset" where
  "open_requests d = mset (map queued_request_id (dv_waiting d)) + open_pending (dv_pending d)"

fun answers :: "notice \<Rightarrow> u64 multiset" where
  "answers (HeadersSent i _) = {#i#}"
| "answers (HeadersDropped i) = {#i#}"
| "answers _ = {#}"

definition answered :: "notice list \<Rightarrow> u64 multiset" where
  "answered out = (\<Sum>n\<leftarrow>out. answers n)"

lemma answered_simps [simp]:
  "answered [] = {#}" "answered (n # ns) = answers n + answered ns" "answered (a @ b) = answered a + answered b"
  by (simp_all add: answered_def)

lemma answered_parts [simp]:
  "answered (drop_stream ps) = unanswered ps" "answered (send_headers_tx ps r) = unanswered ps"
  "answered (fail_stream err ps) = unanswered ps" "answered (drop_request i) = {#i#}"
  by (simp_all add: drop_stream_def send_headers_tx_def fail_stream_def drop_request_def unanswered_def)

lemma delete_fresh: "map_of p k = None \<Longrightarrow> AList.delete k p = p"
  by (induction p) (auto split: if_splits)

lemma open_pending_delete:
  "distinct (map fst p) \<Longrightarrow> map_of p k = Some ps \<Longrightarrow> open_pending p = unanswered ps + open_pending (AList.delete k p)"
proof (induction p)
  case (Cons x p)
  obtain j q where x: "x = (j, q)" by fastforce
  show ?case
  proof (cases "j = k")
    case True
    have "map_of p k = None" using Cons.prems(1) x True by (auto simp: map_of_eq_None_iff)
    then show ?thesis using True x Cons.prems(2) by (simp add: delete_fresh)
  next
    case False
    then show ?thesis using Cons x by (simp add: ac_simps)
  qed
qed simp

lemma open_pending_update:
  "distinct (map fst p) \<Longrightarrow> map_of p k = Some ps \<Longrightarrow>
   open_pending (AList.update k ps' p) = unanswered ps' + open_pending (AList.delete k p)"
  using open_pending_delete [of "AList.update k ps' p" k ps'] by (simp add: distinct_update update_conv' delete_update_same)

lemma open_pending_fresh:
  "map_of p k = None \<Longrightarrow> open_pending (AList.update k ps p) = unanswered ps + open_pending p"
  by (induction p) (auto split: if_splits simp: ac_simps)

lemma answered_all:
  "answered (concat (map (\<lambda>(k, ps). f k ps) p)) = open_pending p"
  if "\<And>k ps. answered (f k ps) = unanswered ps"
  by (induction p rule: open_pending.induct) (simp_all add: that)

lemma notify_all_answers: "notify_all_error err p = (p', out) \<Longrightarrow> p' = [] \<and> answered out = open_pending p"
  using answered_all [of "\<lambda>k ps. fail_stream err ps" p] by (auto simp: notify_all_error_def)

lemma notify_waiting_answers:
  "notify_waiting_error err qs = (qs', out) \<Longrightarrow> qs' = [] \<and> answered out = mset (map queued_request_id qs)"
proof -
  have "answered (concat (map (\<lambda>q. [HeadersSent (queued_request_id q) (Inl err), BodySent (queued_request_id q) (Inl err),
                            BodyDropped (queued_request_id q)]) qs)) = mset (map queued_request_id qs)"
    by (induction qs) simp_all
  then show "notify_waiting_error err qs = (qs', out) \<Longrightarrow> qs' = [] \<and> answered out = mset (map queued_request_id qs)"
    by (auto simp: notify_waiting_error_def)
qed

lemma fail_all_answers:
  "fail_all err d = (d', out) \<Longrightarrow>
   dv_pending d' = [] \<and> dv_waiting d' = [] \<and> answered out = open_requests d \<and> dv_engine d' = dv_engine d"
  using notify_all_answers [of err "dv_pending d"] notify_waiting_answers [of err "dv_waiting d"]
  by (auto simp: fail_all_def open_requests_def Let_def ac_simps split: prod.splits)

lemma keys_delete: "fst ` set (AList.delete k p) \<subseteq> fst ` set p"
  by (induction p) auto

lemma keys_update: "fst ` set (AList.update k v p) = insert k (fst ` set p)"
  by (induction p) auto

lemma keys_filter: "fst ` set (filter P p) \<subseteq> fst ` set p"
  by auto

lemma response_headers_answers:
  assumes "distinct (map fst p)" "handle_event (EvResponseHeaders k hs es) p = (p', out)"
  shows "open_pending p = open_pending p' + answered out \<and> distinct (map fst p') \<and> fst ` set p' \<subseteq> fst ` set p"
proof (cases "map_of p k")
  case None
  then show ?thesis using assms by simp
next
  case (Some ps)
  have keys: "insert k (fst ` set p) = fst ` set p" using Some by (force dest: map_of_SomeD)
  have closed: "unanswered (ps\<lparr>ps_headers_open := False\<rparr>) = {#}" by (simp add: unanswered_def)
  show ?thesis
  proof (cases "is_interim_status (unwrap_or 0 (get_status hs))")
    case True
    then show ?thesis using assms Some by simp
  next
    case False
    let ?sent = "send_headers_tx ps (Inr \<lparr>rh_status = unwrap_or 0 (get_status hs), rh_headers = hs\<rparr>)"
    let ?upd = "AList.update k (ps\<lparr>ps_headers_open := False\<rparr>) p"
    have "p' = (if es then AList.delete k p else ?upd)" "answered out = answered ?sent"
      using assms(2) Some False by (auto simp: Let_def delete_update_same split: if_splits)
    moreover have "open_pending ?upd = open_pending (AList.delete k p)"
      by (simp add: open_pending_update [OF assms(1) Some] closed)
    moreover have "fst ` set ?upd \<subseteq> fst ` set p" by (simp only: keys_update keys)
    ultimately show ?thesis
      using open_pending_delete [OF assms(1) Some] keys_delete [of k p] distinct_delete [OF assms(1), of k]
        distinct_update [OF assms(1)]
      by (cases es) (simp_all add: ac_simps del: delete_keys)
  qed
qed

lemma goaway_answers:
  assumes "distinct (map fst p)" "handle_event (EvGoAway lim ec dbg) p = (p', out)"
  shows "open_pending p = open_pending p' + answered out \<and> distinct (map fst p') \<and> fst ` set p' \<subseteq> fst ` set p"
proof (cases "ec = 0")
  case False
  then obtain err where "notify_all_error err p = (p', out)"
    using assms(2) unfolding handle_event.simps by (simp only: if_True simp_thms)
  then show ?thesis using notify_all_answers by fastforce
next
  case True
  let ?stale = "filter (\<lambda>(k, ps). k > lim) p" and ?kept = "filter (\<lambda>(k, ps). \<not> k > lim) p"
  have "answered (concat (map (\<lambda>(k, ps). send_headers_tx ps (Inl (DE_GoAway ''stream rejected by GOAWAY'')) @
          [BodyDropped (ps_id ps)]) ?stale)) = open_pending ?stale"
    by (rule answered_all) simp
  then have "p' = ?kept" "answered out = open_pending ?stale"
    using assms(2) True by auto
  moreover have "open_pending p = open_pending ?kept + open_pending ?stale"
    by (induction p rule: open_pending.induct) (simp_all add: ac_simps)
  ultimately show ?thesis
    using assms(1) keys_filter [of "\<lambda>(k, ps). \<not> k > lim" p] by (simp add: distinct_map_filter)
qed

lemma handle_event_answers:
  assumes "distinct (map fst p)" "handle_event ev p = (p', out)"
  shows "open_pending p = open_pending p' + answered out \<and> distinct (map fst p') \<and> fst ` set p' \<subseteq> fst ` set p"
proof (cases ev)
  case (EvResponseHeaders k hs es)
  then show ?thesis using response_headers_answers assms by blast
next
  case (EvGoAway last ec dbg)
  then show ?thesis using goaway_answers assms by blast
next
  case (EvResponseData k b es)
  then show ?thesis
    using assms open_pending_delete [OF assms(1), of k] keys_delete [of k p] distinct_delete [OF assms(1), of k]
    by (cases "map_of p k") (auto simp: Let_def ac_simps simp del: delete_keys split: if_splits)
next
  case (EvStreamReset k ec)
  then show ?thesis
    using assms open_pending_delete [OF assms(1), of k] keys_delete [of k p] distinct_delete [OF assms(1), of k]
    by (cases "map_of p k") (auto simp: ac_simps)
qed (use assms in auto)

lemma handle_events_answers:
  "distinct (map fst p) \<Longrightarrow> handle_events evs p = (p', out) \<Longrightarrow>
   open_pending p = open_pending p' + answered out \<and> distinct (map fst p') \<and> fst ` set p' \<subseteq> fst ` set p"
proof (induction evs arbitrary: p p' out)
  case (Cons ev evs)
  obtain p1 out1 where h: "handle_event ev p = (p1, out1)" by fastforce
  obtain p2 out2 where t: "handle_events evs p1 = (p2, out2)" by fastforce
  note 1 = handle_event_answers [OF Cons.prems(1) h]
  then have 2: "open_pending p1 = open_pending p2 + answered out2 \<and> distinct (map fst p2) \<and> fst ` set p2 \<subseteq> fst ` set p1"
    using Cons.IH [OF _ t] by blast
  have "p' = p2" "out = out1 @ out2" using Cons.prems(2) h t by auto
  then show ?case using 1 2 by (simp add: ac_simps) blast
qed simp

subsection \<open>Every turn\<close>

text \<open>The number of streams opened so far bounds the keys of the pending map.\<close>

definition keys_below :: "nat \<Rightarrow> pending_map \<Rightarrow> bool" where
  "keys_below n p \<longleftrightarrow> distinct (map fst p) \<and> (\<forall>k \<in> fst ` set p. unat k < 2 * n + 1)"

definition driver_inv :: "nat \<Rightarrow> ('d, 'f, 'w) driver \<Rightarrow> bool" where
  "driver_inv n d \<longleftrightarrow>
     engine_inv (dv_engine d) \<and> unat (cs_next_stream_id (en_state (dv_engine d))) = 2 * n + 1 \<and>
     keys_below n (dv_pending d)"

lemma build_parts_ok:
  assumes "engine_inv e"
  shows "\<exists>frames e'. (do {
        (frames, e1) \<leftarrow> build_headers k hs es prio e;
        (case body of
           Some body_data \<Rightarrow>
             if body_data \<noteq> [] then do {
               (data_frames, e2) \<leftarrow> build_data k body_data True e1;
               Some (frames @ data_frames, e2)
             } else Some (frames, e1)
         | None \<Rightarrow> Some (frames, e1))
      }) = Some (frames, e') \<and> engine_inv e' \<and> cs_next_stream_id (en_state e') = cs_next_stream_id (en_state e)"
proof -
  obtain frames e1 where b: "build_headers k hs es prio e = Some (frames, e1)" "step_ok e e1 frames"
    using build_headers_ok [OF assms] by blast
  have inv1: "engine_inv e1" "cs_next_stream_id (en_state e1) = cs_next_stream_id (en_state e)"
    using b(2) by (auto simp: step_ok_def)
  have ci: "conn_inv (en_state e1)" using inv1(1) by (simp add: engine_inv_def)
  have inv2: "engine_inv (sent_state k xs True e1)" for xs
    using inv1 sent_state_inv [OF ci] by (simp add: engine_inv_def sent_state_pending)
  have next_id: "cs_next_stream_id (en_state (sent_state k xs True e1)) = cs_next_stream_id (en_state e)" for xs
    using inv1(2) by (simp add: sent_state_def Let_def)
  show ?thesis
    using b(1) inv1 inv2 next_id build_data_spec [OF ci] by (cases body) auto
qed

lemma build_queued_ok:
  assumes "engine_inv e"
  shows "\<exists>frames e'. build_queued env k q e = Some (frames, e') \<and> engine_inv e' \<and>
    cs_next_stream_id (en_state e') = cs_next_stream_id (en_state e)"
  using build_parts_ok [OF assms]
  by (cases q) (simp_all add: build_request_def build_native_request_def Let_def)

lemma open_step:
  assumes "engine_inv e" "unat (cs_next_stream_id (en_state e)) = 2 * n + 1" "n + 1 < 2 ^ 31"
    and "engine_open_stream e = (k, e1)"
  shows "engine_inv e1" "unat k = 2 * n + 1" "unat (cs_next_stream_id (en_state e1)) = 2 * (n + 1) + 1"
proof -
  show "engine_inv e1" "unat k = 2 * n + 1" using open_stream_ok [OF assms(1,4)] assms(2) by simp_all
  then show "unat (cs_next_stream_id (en_state e1)) = 2 * (n + 1) + 1"
    using open_stream_ok(4) [OF assms(1,4)] assms(3) by (simp add: unat_word_ariths)
qed

lemma keys_below_update:
  assumes "keys_below n p" "unat k = 2 * n + 1"
  shows "map_of p k = None" "keys_below (n + 1) (AList.update k ps p)" "AList.delete k (AList.update k ps p) = p"
    "keys_below (n + 1) p"
proof -
  have "k \<notin> fst ` set p" using assms by (auto simp: keys_below_def)
  then show none: "map_of p k = None" by (simp add: map_of_eq_None_iff)
  show "keys_below (n + 1) (AList.update k ps p)"
    using assms by (auto simp: keys_below_def distinct_update keys_update)
  show "AList.delete k (AList.update k ps p) = p" by (simp add: delete_update_same delete_fresh none)
  show "keys_below (n + 1) p" using assms(1) by (auto simp: keys_below_def)
qed

lemma dispatch_loop_ok:
  assumes "engine_inv e" "unat (cs_next_stream_id (en_state e)) = 2 * n + 1" "keys_below n p" "n + length qs < 2 ^ 31"
  shows "\<exists>r qs' e' w' p' out n'. dispatch_loop env gone qs e w p = Some (r, qs', e', w', p', out) \<and>
    engine_inv e' \<and> unat (cs_next_stream_id (en_state e')) = 2 * n' + 1 \<and> keys_below n' p' \<and>
    n' + length qs' \<le> n + length qs \<and>
    mset (map queued_request_id qs) + open_pending p = mset (map queued_request_id qs') + open_pending p' + answered out"
  using assms
proof (induction qs arbitrary: n e w p)
  case Nil
  then show ?case by auto
next
  case (Cons q qs)
  show ?case
  proof (cases "engine_can_open_stream e")
    case False
    then show ?thesis using Cons.prems by auto
  next
    case can: True
    show ?thesis
    proof (cases "gone (queued_request_id q)")
      case True
      obtain r qs' e' w' p' out n' where IH: "dispatch_loop env gone qs e w p = Some (r, qs', e', w', p', out)"
        "engine_inv e'" "unat (cs_next_stream_id (en_state e')) = 2 * n' + 1" "keys_below n' p'"
        "n' + length qs' \<le> n + length qs"
        "mset (map queued_request_id qs) + open_pending p = mset (map queued_request_id qs') + open_pending p' + answered out"
        using Cons.IH [OF Cons.prems(1-3), of w] Cons.prems(4) by auto
      then show ?thesis
        using can True by (intro exI [of _ r] exI [of _ qs'] exI [of _ e'] exI [of _ w'] exI [of _ p']
            exI [of _ "drop_request (queued_request_id q) @ out"] exI [of _ n']) simp
    next
      case False
      obtain k e1 where o: "engine_open_stream e = (k, e1)" by fastforce
      have n1: "n + 1 < 2 ^ 31" using Cons.prems(4) by simp
      note o1 = open_step [OF Cons.prems(1,2) n1 o]
      obtain frames e2 where b: "build_queued env k q e1 = Some (frames, e2)" "engine_inv e2"
        "cs_next_stream_id (en_state e2) = cs_next_stream_id (en_state e1)"
        using build_queued_ok [OF o1(1)] by blast
      let ?ps = "\<lparr>ps_id = queued_request_id q, ps_headers_open = True\<rparr>"
      note kb = keys_below_update [OF Cons.prems(3) o1(2)]
      have un: "unanswered ?ps = {#queued_request_id q#}" by (simp add: unanswered_def)
      obtain we w1 where w: "encode_and_write_frames env frames w = (we, w1)" by fastforce
      show ?thesis
      proof (cases we)
        case (Some err)
        then have "dispatch_loop env gone (q # qs) e w p =
            Some (Some (DE_Io err), qs, e2, w1, p, fail_stream (DE_Io err) ?ps)"
          using can False o b(1) w kb(1,3) by simp
        then show ?thesis
          using b o1(3) kb(4) un by (intro exI) (auto simp: ac_simps)
      next
        case None
        obtain r qs' e' w' p' out n' where
          IH: "dispatch_loop env gone qs e2 w1 (AList.update k ?ps p) = Some (r, qs', e', w', p', out)"
          "engine_inv e'" "unat (cs_next_stream_id (en_state e')) = 2 * n' + 1" "keys_below n' p'"
          "n' + length qs' \<le> n + 1 + length qs"
          "mset (map queued_request_id qs) + open_pending (AList.update k ?ps p) =
             mset (map queued_request_id qs') + open_pending p' + answered out"
          using Cons.IH [OF b(2) _ kb(2), of w1 ?ps] b(3) o1(3) Cons.prems(4) by auto
        have "dispatch_loop env gone (q # qs) e w p = Some (r, qs', e', w', p', out)"
          using can False o b(1) w None kb(1) IH(1) by simp
        moreover have "open_pending (AList.update k ?ps p) = {#queued_request_id q#} + open_pending p"
          using open_pending_fresh [OF kb(1), of ?ps] un by simp
        ultimately show ?thesis
          using IH(2-6) by (intro exI [of _ r] exI [of _ qs'] exI [of _ e'] exI [of _ w'] exI [of _ p'] exI [of _ out]
              exI [of _ n']) (simp add: ac_simps)
      qed
    qed
  qed
qed

definition turn_ok :: "nat \<Rightarrow> nat \<Rightarrow> u64 list \<Rightarrow> ('d, 'f, 'w) driver \<Rightarrow> ('d, 'f, 'w) driver \<Rightarrow> notice list \<Rightarrow> bool" where
  "turn_ok n n' taken d d' out \<longleftrightarrow>
     driver_inv n' d' \<and> n' + length (dv_waiting d') \<le> n + length (dv_waiting d) + length taken \<and>
     open_requests d + mset taken = open_requests d' + answered out"

lemma turn_ok_trans:
  assumes "turn_ok n n1 taken1 d d1 out1" "turn_ok n1 n2 taken2 d1 d2 out2"
  shows "turn_ok n n2 (taken1 @ taken2) d d2 (out1 @ out2)"
proof -
  have "open_requests d + mset taken1 = open_requests d1 + answered out1"
    "open_requests d1 + mset taken2 = open_requests d2 + answered out2"
    using assms by (simp_all add: turn_ok_def)
  then have "open_requests d + (mset taken1 + mset taken2) = open_requests d2 + (answered out1 + answered out2)"
    by (metis (no_types, lifting) add.assoc add.commute)
  then show ?thesis using assms by (simp add: turn_ok_def)
qed

lemma fail_all_ok:
  assumes "driver_inv n d" "fail_all err d = (d', out)"
  shows "turn_ok n n [] d d' out" "open_requests d' = {#}"
  using assms fail_all_answers [OF assms(2)] by (simp_all add: turn_ok_def driver_inv_def keys_below_def open_requests_def)

lemma dispatch_waiting_ok:
  assumes "driver_inv n d" "n + length (dv_waiting d) < 2 ^ 31"
  shows "\<exists>r d' out n'. dispatch_waiting_requests env gone d = Some (r, d', out) \<and> turn_ok n n' [] d d' out"
proof (cases "is_goaway (dv_engine d)")
  case True
  obtain qs out where q: "notify_waiting_error (DE_GoAway ''connection is draining'') (dv_waiting d) = (qs, out)"
    by fastforce
  then show ?thesis
    using assms(1) notify_waiting_answers [OF q] True
    by (auto simp: dispatch_waiting_requests_def turn_ok_def driver_inv_def open_requests_def intro!: exI [of _ n])
next
  case False
  obtain r qs e w p out n' where
    "dispatch_loop env gone (dv_waiting d) (dv_engine d) (dv_stream d) (dv_pending d) = Some (r, qs, e, w, p, out)"
    "engine_inv e" "unat (cs_next_stream_id (en_state e)) = 2 * n' + 1" "keys_below n' p"
    "n' + length qs \<le> n + length (dv_waiting d)"
    "mset (map queued_request_id (dv_waiting d)) + open_pending (dv_pending d) =
       mset (map queued_request_id qs) + open_pending p + answered out"
    using dispatch_loop_ok [of "dv_engine d" n "dv_pending d" "dv_waiting d" env gone "dv_stream d"] assms
    by (auto simp: driver_inv_def)
  then show ?thesis
    using False by (auto simp: dispatch_waiting_requests_def turn_ok_def driver_inv_def open_requests_def)
qed

lemma remove_waiting_answers:
  "remove_waiting_request i qs = (qs', found) \<Longrightarrow>
   length qs' \<le> length qs \<and>
   mset (map queued_request_id qs) = mset (map queued_request_id qs') + (if found then {#i#} else {#})"
  by (induction qs arbitrary: qs') (auto split: if_splits prod.splits)

lemma keys_below_subset: "keys_below n p \<Longrightarrow> distinct (map fst p') \<Longrightarrow> fst ` set p' \<subseteq> fst ` set p \<Longrightarrow> keys_below n p'"
  unfolding keys_below_def by blast

lemma enqueue_ok:
  "driver_inv n d \<Longrightarrow> enqueue gone q d = (d', out) \<Longrightarrow> turn_ok n n [queued_request_id q] d d' out"
  by (auto simp: enqueue_def turn_ok_def driver_inv_def open_requests_def split: if_splits)

lemma read_ok:
  assumes "driver_inv n d"
  shows "\<exists>left d' out. select_branch env gone (ReadBytes bs) d = Some (left, d', out) \<and> turn_ok n n [] d d' out \<and>
    (left \<longrightarrow> open_requests d' = {#})"
proof -
  obtain rest e1 evs ob where p: "process (de_ops env) (dv_read_buf d @ bs) (dv_engine d) = Some (rest, e1, evs, ob)"
    "step_ok (dv_engine d) e1 ob"
    using process_ok [of "dv_engine d"] assms unfolding driver_inv_def by blast
  obtain err w1 where w: "(if ob \<noteq> [] then encode_and_write_frames env ob (dv_stream d) else (None, dv_stream d)) = (err, w1)"
    by fastforce
  let ?d = "d\<lparr>dv_read_buf := rest, dv_engine := e1, dv_stream := w1\<rparr>"
  have inv: "driver_inv n ?d" and same: "open_requests ?d = open_requests d"
    using assms p(2) by (simp_all add: driver_inv_def step_ok_def open_requests_def)
  show ?thesis
  proof (cases err)
    case (Some x)
    obtain d' out where f: "fail_all (DE_Io x) ?d = (d', out)" by fastforce
    have "turn_ok n n [] d d' out" using fail_all_ok(1) [OF inv f] same by (simp add: turn_ok_def)
    moreover have "select_branch env gone (ReadBytes bs) d = Some (True, d', out)"
      using p(1) w Some f by (cases "ob = []") (simp_all add: select_branch_def Let_def)
    ultimately show ?thesis using fail_all_ok(2) [OF inv f] by blast
  next
    case None
    obtain p' out where h: "handle_events evs (dv_pending d) = (p', out)" by fastforce
    have "distinct (map fst (dv_pending d))" using assms by (simp add: driver_inv_def keys_below_def)
    note a = handle_events_answers [OF this h]
    have "keys_below n p'" using a keys_below_subset assms by (auto simp: driver_inv_def)
    then have "turn_ok n n [] d (?d\<lparr>dv_pending := p'\<rparr>) out"
      using a inv same by (simp add: turn_ok_def driver_inv_def open_requests_def ac_simps)
    moreover have "select_branch env gone (ReadBytes bs) d = Some (False, ?d\<lparr>dv_pending := p'\<rparr>, out)"
      using p(1) w None h by (cases "ob = []") (simp_all add: select_branch_def Let_def)
    ultimately show ?thesis by blast
  qed
qed

lemma same_requests_ok:
  "driver_inv n d \<Longrightarrow> turn_ok n n [] d (d\<lparr>dv_cancel_rx_open := b\<rparr>) []"
  "driver_inv n d \<Longrightarrow> turn_ok n n [] d (d\<lparr>dv_shutdown := True\<rparr>) []"
  "driver_inv n d \<Longrightarrow> turn_ok n n [] d (d\<lparr>dv_shutdown := True, dv_shutdown_deadline := True\<rparr>) []"
  by (simp_all add: turn_ok_def driver_inv_def open_requests_def)

lemma cancel_ok:
  assumes "driver_inv n d" "remove_waiting_request i (dv_waiting d) = (qs, found)"
  shows "turn_ok n n [] d (d\<lparr>dv_waiting := qs\<rparr>) (if found then drop_request i else [])"
  using assms(1) remove_waiting_answers [OF assms(2)] by (simp add: turn_ok_def driver_inv_def open_requests_def ac_simps)

lemma command_ok:
  assumes "driver_inv n d"
  shows "\<exists>left d' out. select_branch env gone (Command c) d = Some (left, d', out) \<and>
    turn_ok n n (taken_ids (Command c)) d d' out \<and> (left \<longrightarrow> open_requests d' = {#})"
proof (cases "c = None \<or> c = Some CmdShutdown")
  case True
  then have "select_branch env gone (Command c) d =
      (if dv_pending d = [] \<and> dv_waiting d = [] then Some (True, d\<lparr>dv_shutdown := True\<rparr>, [])
       else Some (False, d\<lparr>dv_shutdown := True, dv_shutdown_deadline := True\<rparr>, []))"
    by (auto simp: select_branch_def Let_def)
  moreover have "taken_ids (Command c) = []" using True by auto
  ultimately show ?thesis
    using same_requests_ok(2,3) [OF assms] by (auto simp: open_requests_def)
next
  case False
  then obtain q where q: "select_branch env gone (Command c) d = Some (False, enqueue gone q d)" "taken_ids (Command c) = [queued_request_id q]"
  proof (cases "the c")
    case (CmdSendRequest i r)
    then show ?thesis using that [of "QRequest i r"] False by (auto simp: select_branch_def)
  next
    case (CmdSendNativeRequest i r)
    then show ?thesis using that [of "QNativeRequest i r"] False by (auto simp: select_branch_def)
  qed auto
  obtain d' out where "enqueue gone q d = (d', out)" by fastforce
  then show ?thesis using q enqueue_ok [OF assms] by auto
qed

lemma select_branch_ok:
  assumes "driver_inv n d"
  shows "\<exists>left d' out. select_branch env gone ev d = Some (left, d', out) \<and> turn_ok n n (taken_ids ev) d d' out \<and>
    (left \<longrightarrow> open_requests d' = {#})"
proof (cases ev)
  case (Cancelled c)
  show ?thesis
  proof (cases c)
    case None
    then have "select_branch env gone ev d = Some (False, d\<lparr>dv_cancel_rx_open := False\<rparr>, [])"
      using Cancelled by (simp add: select_branch_def)
    then show ?thesis using same_requests_ok(1) [OF assms] Cancelled by auto
  next
    case (Some i)
    obtain qs found where r: "remove_waiting_request i (dv_waiting d) = (qs, found)" by fastforce
    then have "select_branch env gone ev d = Some (False, d\<lparr>dv_waiting := qs\<rparr>, if found then drop_request i else [])"
      using Cancelled Some by (simp add: select_branch_def)
    then show ?thesis using cancel_ok [OF assms r] Cancelled by auto
  qed
next
  case (ReadBytes bs)
  then show ?thesis using read_ok [OF assms] by simp
next
  case (Command c)
  then show ?thesis using command_ok [OF assms] by simp
next
  case ReadEof
  obtain d' out where f: "fail_all (DE_Io ''connection closed'') d = (d', out)" by fastforce
  then show ?thesis using fail_all_ok [OF assms f] ReadEof by (auto simp: select_branch_def)
next
  case (ReadError e)
  obtain d' out where f: "fail_all (DE_Io e) d = (d', out)" by fastforce
  then show ?thesis using fail_all_ok [OF assms f] ReadError by (auto simp: select_branch_def)
next
  case DeadlineReached
  obtain d' out where f: "fail_all DE_Shutdown d = (d', out)" by fastforce
  then show ?thesis using fail_all_ok [OF assms f] DeadlineReached by (auto simp: select_branch_def)
qed

lemma driver_turn_ok:
  assumes "driver_inv n d" "n + length (dv_waiting d) + length (taken_ids ev) < 2 ^ 31"
  shows "\<exists>left d' out n'. driver_turn env gone ev d = Some (left, d', out) \<and> turn_ok n n' (taken_ids ev) d d' out \<and>
    (left \<longrightarrow> open_requests d' = {#})"
proof -
  obtain left d1 out1 where s: "select_branch env gone ev d = Some (left, d1, out1)"
    "turn_ok n n (taken_ids ev) d d1 out1" "left \<longrightarrow> open_requests d1 = {#}"
    using select_branch_ok [OF assms(1)] by blast
  show ?thesis
  proof (cases left)
    case True
    then have "driver_turn env gone ev d = Some (True, d1, out1)" using s by (simp add: driver_turn_def)
    then show ?thesis using s True by blast
  next
    case False
    have "driver_inv n d1" "n + length (dv_waiting d1) < 2 ^ 31" using s(2) assms(2) by (simp_all add: turn_ok_def)
    then obtain r d2 out2 n2 where w: "dispatch_waiting_requests env gone d1 = Some (r, d2, out2)"
      "turn_ok n n2 [] d1 d2 out2"
      using dispatch_waiting_ok by blast
    have t: "turn_ok n n2 (taken_ids ev) d d2 (out1 @ out2)" using turn_ok_trans [OF s(2) w(2)] by simp
    show ?thesis
    proof (cases r)
      case None
      then have "driver_turn env gone ev d =
          Some (dv_shutdown d2 \<and> dv_pending d2 = [] \<and> dv_waiting d2 = [], d2, out1 @ out2)"
        using s(1) w(1) False by (simp add: driver_turn_def)
      moreover have "dv_shutdown d2 \<and> dv_pending d2 = [] \<and> dv_waiting d2 = [] \<longrightarrow> open_requests d2 = {#}"
        by (simp add: open_requests_def)
      ultimately show ?thesis using t by blast
    next
      case (Some err)
      obtain d3 out3 where f: "fail_all err d2 = (d3, out3)" by fastforce
      have inv2: "driver_inv n2 d2" using w(2) by (simp add: turn_ok_def)
      have "driver_turn env gone ev d = Some (True, d3, out1 @ out2 @ out3)"
        using s(1) w(1) f False Some by (simp add: driver_turn_def)
      moreover have "turn_ok n n2 (taken_ids ev) d d3 (out1 @ out2 @ out3)"
        using turn_ok_trans [OF t fail_all_ok(1) [OF inv2 f]] by simp
      ultimately show ?thesis using fail_all_ok(2) [OF inv2 f] by blast
    qed
  qed
qed

lemma driver_run_ok:
  assumes "driver_inv n d" "n + length (dv_waiting d) + length evs < 2 ^ 31"
  shows "\<exists>left d' out taken n'. driver_run env evs d = Some (left, d', out, taken) \<and> turn_ok n n' taken d d' out \<and>
    (left \<longrightarrow> open_requests d' = {#})"
  using assms
proof (induction evs arbitrary: n d)
  case Nil
  have "turn_ok n n [] d d []" using Nil(1) by (simp add: turn_ok_def)
  then show ?case by auto
next
  case (Cons x evs)
  obtain ev gone where x: "x = (ev, gone)" by fastforce
  show ?case
  proof (cases "wakeup_enabled d ev")
    case False
    then show ?thesis using Cons.IH [OF Cons.prems(1)] Cons.prems(2) x by simp
  next
    case en: True
    have short: "length (taken_ids ev) \<le> 1" by (cases ev rule: taken_ids.cases) simp_all
    then have "n + length (dv_waiting d) + length (taken_ids ev) < 2 ^ 31" using Cons.prems(2) by simp
    then obtain left d1 out1 n1 where t: "driver_turn env gone ev d = Some (left, d1, out1)"
      "turn_ok n n1 (taken_ids ev) d d1 out1" "left \<longrightarrow> open_requests d1 = {#}"
      using driver_turn_ok [OF Cons.prems(1), of ev env gone] by blast
    show ?thesis
    proof (cases left)
      case True
      then have "driver_run env (x # evs) d = Some (True, d1, out1, taken_ids ev)" using t(1) x en by simp
      then show ?thesis using t(2,3) True by blast
    next
      case False
      have "driver_inv n1 d1" "n1 + length (dv_waiting d1) + length evs < 2 ^ 31"
        using t(2) Cons.prems(2) short by (simp_all add: turn_ok_def)
      then obtain left2 d2 out2 taken2 n2 where r: "driver_run env evs d1 = Some (left2, d2, out2, taken2)"
        "turn_ok n1 n2 taken2 d1 d2 out2" "left2 \<longrightarrow> open_requests d2 = {#}"
        using Cons.IH by blast
      have "driver_run env (x # evs) d = Some (left2, d2, out1 @ out2, taken_ids ev @ taken2)"
        using t(1) r(1) x en False by simp
      then show ?thesis using turn_ok_trans [OF t(2) r(2)] r(3) by blast
    qed
  qed
qed

subsection \<open>Every request is answered\<close>

lemma write_first_request_ok:
  assumes "driver_inv 0 d" "dv_pending d = []"
  shows "\<exists>r d' out. write_first_request env rq d = Some (r, d', out) \<and>
    (case r of None \<Rightarrow> out = [] \<and> driver_inv 1 d' \<and> open_requests d' = add_mset 0 (open_requests d) \<and> dv_waiting d' = dv_waiting d
     | Some _ \<Rightarrow> answered out = {#0#})"
proof -
  obtain k e1 where o: "engine_open_stream (dv_engine d) = (k, e1)" by fastforce
  have inv: "engine_inv (dv_engine d)" "unat (cs_next_stream_id (en_state (dv_engine d))) = 2 * 0 + 1"
    using assms(1) by (simp_all add: driver_inv_def)
  note o1 = open_step [OF inv _ o, simplified]
  obtain frames e2 where b: "build_native_request k (adapter_native_request (de_to_str env) rq) e1 = Some (frames, e2)"
    "engine_inv e2" "cs_next_stream_id (en_state e2) = cs_next_stream_id (en_state e1)"
    using build_queued_ok [OF o1(1), of env k "QNativeRequest 0 (adapter_native_request (de_to_str env) rq)"] by auto
  obtain err w1 where w: "encode_and_write_frames env frames (dv_stream d) = (err, w1)" by fastforce
  show ?thesis
    using o b w o1 assms(2)
    by (cases err)
      (auto simp: write_first_request_def Let_def driver_inv_def keys_below_def open_requests_def unanswered_def)
qed

definition first_ids :: "http_request option \<Rightarrow> u64 list" where
  "first_ids first_request = (case first_request of None \<Rightarrow> [] | Some _ \<Rightarrow> [0])"

lemma driver_inv_new: "driver_inv 0 (driver_new (fst (client_with_policies ops profile fc policy)) w)"
  using engine_inv_new [of ops profile fc policy] ids_below_new [of ops profile fc policy]
  by (simp add: driver_inv_def driver_new_def keys_below_def ids_below_def)

lemma driver_start_ok:
  assumes "e = fst (client_with_policies ops profile fc policy)"
  shows "\<exists>r d out. driver_start env e preface first w = Some (r, d, out) \<and>
    (case r of None \<Rightarrow> out = [] \<and> (\<exists>n \<le> 1. driver_inv n d) \<and> open_requests d = mset (first_ids first) \<and> dv_waiting d = []
     | Some _ \<Rightarrow> answered out = mset (first_ids first))"
proof -
  obtain err w1 where p: "write_preface env 0 (de_group_frames env preface) w = (err, w1)" by fastforce
  have inv: "driver_inv 0 (driver_new e w1)" unfolding assms by (rule driver_inv_new)
  have new: "dv_pending (driver_new e w1) = []" "open_requests (driver_new e w1) = {#}" "dv_waiting (driver_new e w1) = []"
    by (simp_all add: driver_new_def open_requests_def)
  show ?thesis
  proof (cases err)
    case (Some x)
    then show ?thesis using p by (cases first) (simp_all add: driver_start_def first_ids_def)
  next
    case None
    show ?thesis
    proof (cases first)
      case None
      then show ?thesis using p \<open>err = None\<close> inv new by (auto simp: driver_start_def first_ids_def)
    next
      case (Some rq)
      have "driver_start env e preface first w = write_first_request env rq (driver_new e w1)"
        using p \<open>err = None\<close> Some by (simp add: driver_start_def)
      then show ?thesis
        using write_first_request_ok [OF inv new(1), of env rq] new Some
        by (auto simp: first_ids_def split: option.splits)
    qed
  qed
qed

text \<open>
  C4. Every request is answered exactly once: starting the driver always returns, and when the preface
  and the piggybacked request were written, every sequence of reads, commands, cancellations and
  timeouts (fewer than \<open>2^31 - 1\<close>, the number of client stream ids) leads to a state in which the
  requests taken so far are, each exactly once, either still open (queued or waiting for response
  headers) or answered by a message on, or the closing of, their header channel. When the loop is left none
  is open. Writes may fail at any point and callers may go away at any point.
\<close>

theorem driver_answers_every_request:
  assumes "length evs < 2 ^ 31 - 1" "e = fst (client_with_policies ops profile fc policy)"
  shows "\<exists>r d out. driver_start env e preface first w = Some (r, d, out) \<and>
    (case r of
       Some _ \<Rightarrow> answered out = mset (first_ids first)
     | None \<Rightarrow> \<exists>left d' out' taken. driver_run env evs d = Some (left, d', out', taken) \<and>
         mset (first_ids first) + mset taken = open_requests d' + answered out' \<and>
         (left \<longrightarrow> open_requests d' = {#}))"
proof -
  obtain r d out where s: "driver_start env e preface first w = Some (r, d, out)"
    "case r of None \<Rightarrow> out = [] \<and> (\<exists>n \<le> 1. driver_inv n d) \<and> open_requests d = mset (first_ids first) \<and> dv_waiting d = []
     | Some _ \<Rightarrow> answered out = mset (first_ids first)"
    using driver_start_ok [OF assms(2), of env preface first w] by blast
  show ?thesis
  proof (cases r)
    case (Some err)
    then show ?thesis using s by auto
  next
    case None
    obtain n where n: "n \<le> 1" "driver_inv n d" using s(2) None by auto
    have "n + length (dv_waiting d) + length evs < 2 ^ 31" using n(1) s(2) None assms(1) by simp
    from driver_run_ok [OF n(2) this, of env] show ?thesis
      using s None by (auto simp: turn_ok_def)
  qed
qed

definition sample_env :: "(unit, FlowControl, bytes) driver_env" where
  "sample_env =
     \<lparr>de_ops = dyn_ops unit_hpack, de_group_frames = group_frames \<lparr>split_headers = True, split_data = False\<rparr>,
      de_write_all = (\<lambda>bs w. (None, w @ bs)), de_flush = (\<lambda>w. (None, w)), de_to_str = Some\<rparr>"

definition sample_http_request :: http_request where
  "sample_http_request =
     \<lparr>rq_method = ascii ''GET'',
      rq_uri = \<lparr>uri_authority = Some (ascii ''a.b''), uri_scheme = None, uri_path_and_query = None\<rparr>,
      rq_headers = [], rq_body = None, rq_priority = None\<rparr>"

theorem driver_answers_every_request_witness:
  "let e = fst (client_with_policies (dyn_ops unit_hpack) chrome_144_h2 Immediate None);
       evs = [(Command (Some (CmdSendNativeRequest 1 sample_request)), \<lambda>_. False), (ReadEof, \<lambda>_. False)]
   in length evs < 2 ^ 31 - 1 \<and>
    (\<exists>r d out. driver_start sample_env e [] (Some sample_http_request) [] = Some (r, d, out) \<and>
    (case r of
       Some _ \<Rightarrow> answered out = mset (first_ids (Some sample_http_request))
     | None \<Rightarrow> \<exists>left d' out' taken. driver_run sample_env evs d = Some (left, d', out', taken) \<and>
         mset (first_ids (Some sample_http_request)) + mset taken = open_requests d' + answered out' \<and>
         (left \<longrightarrow> open_requests d' = {#})))"
  using driver_answers_every_request
    [of "[(Command (Some (CmdSendNativeRequest 1 sample_request)), \<lambda>_. False), (ReadEof, \<lambda>_. False)]"
      "fst (client_with_policies (dyn_ops unit_hpack) chrome_144_h2 Immediate None)" "dyn_ops unit_hpack" chrome_144_h2
      Immediate None sample_env "[]" "Some sample_http_request" "[]"]
  by (simp add: Let_def)


subsection \<open>Errors that end the connection\<close>

fun closing_error :: "wakeup \<Rightarrow> DriverError option" where
  "closing_error ReadEof = Some (DE_Io ''connection closed'')"
| "closing_error (ReadError e) = Some (DE_Io e)"
| "closing_error DeadlineReached = Some DE_Shutdown"
| "closing_error _ = None"

fun failed_headers :: "DriverError \<Rightarrow> notice list \<Rightarrow> u64 list" where
  "failed_headers err [] = []"
| "failed_headers err (HeadersSent i (Inl err') # out) = (if err' = err then [i] else []) @ failed_headers err out"
| "failed_headers err (_ # out) = failed_headers err out"

fun failed_bodies :: "DriverError \<Rightarrow> notice list \<Rightarrow> u64 list" where
  "failed_bodies err [] = []"
| "failed_bodies err (BodySent i (Inl err') # out) = (if err' = err then [i] else []) @ failed_bodies err out"
| "failed_bodies err (_ # out) = failed_bodies err out"

lemma failed_append [simp]:
  "failed_headers err (a @ b) = failed_headers err a @ failed_headers err b"
  "failed_bodies err (a @ b) = failed_bodies err a @ failed_bodies err b"
proof -
  show "failed_headers err (a @ b) = failed_headers err a @ failed_headers err b"
    by (induction err a rule: failed_headers.induct) simp_all
  show "failed_bodies err (a @ b) = failed_bodies err a @ failed_bodies err b"
    by (induction err a rule: failed_bodies.induct) simp_all
qed

lemma failed_fail_stream [simp]:
  "mset (failed_headers err (fail_stream err ps)) = unanswered ps" "failed_bodies err (fail_stream err ps) = [ps_id ps]"
  by (simp_all add: fail_stream_def send_headers_tx_def unanswered_def)

lemma failed_pending:
  "mset (failed_headers err (concat (map (\<lambda>(k, ps). fail_stream err ps) p))) = open_pending p"
  "failed_bodies err (concat (map (\<lambda>(k, ps). fail_stream err ps) p)) = map (ps_id \<circ> snd) p"
  by (induction p rule: open_pending.induct) simp_all

lemma failed_waiting:
  assumes "notify_waiting_error err qs = (qs', out)"
  shows "failed_headers err out = map queued_request_id qs" "failed_bodies err out = map queued_request_id qs"
proof -
  have "failed_headers err (snd (notify_waiting_error err qs)) = map queued_request_id qs"
    "failed_bodies err (snd (notify_waiting_error err qs)) = map queued_request_id qs"
    by (induction qs) (simp_all add: notify_waiting_error_def)
  then show "failed_headers err out = map queued_request_id qs" "failed_bodies err out = map queued_request_id qs"
    using assms by simp_all
qed

lemma fail_all_fails:
  assumes "fail_all err d = (d', out)"
  shows "mset (failed_headers err out) = open_requests d"
    "failed_bodies err out = map (ps_id \<circ> snd) (dv_pending d) @ map queued_request_id (dv_waiting d)"
proof -
  obtain qs out2 where w: "notify_waiting_error err (dv_waiting d) = (qs, out2)" by fastforce
  have "out = concat (map (\<lambda>(k, ps). fail_stream err ps) (dv_pending d)) @ out2"
    using assms w by (simp add: fail_all_def notify_all_error_def)
  then show "mset (failed_headers err out) = open_requests d"
    "failed_bodies err out = map (ps_id \<circ> snd) (dv_pending d) @ map queued_request_id (dv_waiting d)"
    using failed_waiting [OF w] by (simp_all add: failed_pending open_requests_def ac_simps)
qed

text \<open>
  C21. A connection that is closed by the peer, that fails, or that does not drain within the shutdown
  deadline ends the loop with nothing left open: exactly the open requests get the error as their response, and the
  body channel of every stream gets it too, also of those whose headers were delivered, so that a truncated body never looks
  like a complete one.
\<close>

theorem connection_loss_fails_requests:
  assumes "closing_error ev = Some err"
  shows "\<exists>d' out. driver_turn env gone ev d = Some (True, d', out) \<and> open_requests d' = {#} \<and>
    mset (failed_headers err out) = open_requests d \<and>
    failed_bodies err out = map (ps_id \<circ> snd) (dv_pending d) @ map queued_request_id (dv_waiting d)"
proof -
  obtain d' out where f: "fail_all err d = (d', out)" by fastforce
  then have "driver_turn env gone ev d = Some (True, d', out)"
    using assms by (cases ev rule: closing_error.cases) (simp_all add: driver_turn_def select_branch_def)
  moreover have "open_requests d' = {#}" using fail_all_answers [OF f] by (simp add: open_requests_def)
  ultimately show ?thesis using fail_all_fails [OF f] by blast
qed

theorem connection_loss_fails_requests_witness:
  "let d = (driver_new (fst (engine_client unit_hpack chrome_144_h2)) ([] :: bytes))
         \<lparr>dv_waiting := [QNativeRequest 4 sample_request],
          dv_pending := [(1, \<lparr>ps_id = 2, ps_headers_open = True\<rparr>), (3, \<lparr>ps_id = 3, ps_headers_open = False\<rparr>)]\<rparr>
   in closing_error ReadEof = Some (DE_Io ''connection closed'') \<and>
    (\<exists>d' out. driver_turn sample_env (\<lambda>_. False) ReadEof d = Some (True, d', out) \<and> open_requests d' = {#} \<and>
      mset (failed_headers (DE_Io ''connection closed'') out) = {#2, 4#} \<and>
      failed_bodies (DE_Io ''connection closed'') out = [2, 3, 4])"
  using connection_loss_fails_requests [of ReadEof "DE_Io ''connection closed''" sample_env "\<lambda>_. False"
      "(driver_new (fst (engine_client unit_hpack chrome_144_h2)) [])
         \<lparr>dv_waiting := [QNativeRequest 4 sample_request],
          dv_pending := [(1, \<lparr>ps_id = 2, ps_headers_open = True\<rparr>), (3, \<lparr>ps_id = 3, ps_headers_open = False\<rparr>)]\<rparr>"]
  by (simp add: Let_def open_requests_def unanswered_def add_mset_commute)


subsection \<open>Interim responses\<close>

text \<open>
  C34. Interim responses: any number of informational (1xx) header blocks leaves the request waiting, and
  the first other block is delivered, once, with its own status and headers.
\<close>

theorem interim_responses_skipped:
  assumes "map_of p k = Some ps" "ps_headers_open ps" "list_all (is_interim_status \<circ> unwrap_or 0 \<circ> get_status) interim"
    "\<not> is_interim_status (unwrap_or 0 (get_status hs))"
  shows "handle_events (map (\<lambda>h. EvResponseHeaders k h False) interim @ [EvResponseHeaders k hs es]) p =
    (if es then AList.delete k p else AList.update k (ps\<lparr>ps_headers_open := False\<rparr>) p,
     HeadersSent (ps_id ps) (Inr \<lparr>rh_status = unwrap_or 0 (get_status hs), rh_headers = hs\<rparr>) #
       (if es then [BodyDropped (ps_id ps)] else []))"
  using assms(3)
proof (induction interim)
  case Nil
  then show ?case using assms by (simp add: send_headers_tx_def delete_update_same)
next
  case (Cons h interim)
  have "handle_event (EvResponseHeaders k h False) p = (p, [])" using Cons.prems assms(1) by simp
  then show ?case using Cons by (simp del: handle_event.simps)
qed

theorem interim_responses_skipped_witness:
  "let p = [(1 :: u32, \<lparr>ps_id = 7, ps_headers_open = True\<rparr>)];
       early = [(ascii '':status'', ascii ''103'')]; final = [(ascii '':status'', ascii ''200'')]
   in list_all (is_interim_status \<circ> unwrap_or 0 \<circ> get_status) [early] \<and>
    \<not> is_interim_status (unwrap_or 0 (get_status final)) \<and>
    handle_events (map (\<lambda>h. EvResponseHeaders 1 h False) [early] @ [EvResponseHeaders 1 final True]) p =
      ([], [HeadersSent 7 (Inr \<lparr>rh_status = 200, rh_headers = final\<rparr>), BodyDropped 7])"
proof -
  have s: "get_status [(ascii '':status'', ascii ''103'')] = Some 103" "get_status [(ascii '':status'', ascii ''200'')] = Some 200"
    by (simp_all add: get_status_def get_pseudo_header_def parse_unsigned_def ascii_def)
  show ?thesis
    using interim_responses_skipped [of "[(1 :: u32, \<lparr>ps_id = 7, ps_headers_open = True\<rparr>)]" 1
        "\<lparr>ps_id = 7, ps_headers_open = True\<rparr>" "[[(ascii '':status'', ascii ''103'')]]" "[(ascii '':status'', ascii ''200'')]" True]
    by (simp add: Let_def s is_interim_status_def unwrap_or_def del: handle_events.simps)
qed


subsection \<open>Writing\<close>

definition log_writer :: "('d, 'f, bytes) driver_env \<Rightarrow> ('d, 'f, bytes) driver_env" where
  "log_writer env = env\<lparr>de_write_all := \<lambda>bs w. (None, w @ bs), de_flush := \<lambda>w. (None, w)\<rparr>"

lemma encode_frames_wire: "encode_frames fs out = out @ concat (map (\<lambda>f. encode f []) fs)"
  by (induction fs arbitrary: out) (simp_all add: encode_frames_def, metis append.assoc encode_buf)

lemma log_write_groups:
  "write_groups (log_writer env) gs w = (None, w @ concat (map (\<lambda>g. concat (map (\<lambda>f. encode f []) g)) gs))"
  by (induction gs arbitrary: w) (auto simp: write_and_flush_def log_writer_def encode_frames_wire)

lemma log_write_preface:
  "write_preface (log_writer env) i gs w =
     (None, w @ (if i = 0 \<and> gs \<noteq> [] then CONNECTION_PREFACE else []) @
            concat (map (\<lambda>g. concat (map (\<lambda>f. encode f []) g)) gs))"
  by (induction gs arbitrary: w i) (auto simp: write_and_flush_def log_writer_def encode_frames_wire)

text \<open>
  C23. The write policy decides how frames are distributed over writes and never what is written: over a
  socket that accepts everything, the bytes on the wire are the encoding of the frames in their order,
  preceded by the connection preface exactly once at the start.
\<close>

theorem wire_bytes_independent_of_grouping:
  assumes "de_group_frames env = group_frames policy"
  shows "encode_and_write_frames (log_writer env) frames w = (None, w @ encode_frames frames []) \<and>
    write_preface (log_writer env) 0 (de_group_frames (log_writer env) frames) w =
       (None, if frames = [] then w else w @ CONNECTION_PREFACE @ encode_frames frames [])"
proof -
  have g: "de_group_frames (log_writer env) = group_frames policy" using assms by (simp add: log_writer_def)
  have "group_frames policy frames = [] \<longleftrightarrow> frames = []"
    using wp.group_concat [of policy frames] wp.group_Nil [of policy] by auto
  then show ?thesis
    by (simp add: g encode_and_write_frames_def log_write_groups log_write_preface encode_frames_wire wp.group_map)
qed

theorem wire_bytes_independent_of_grouping_witness:
  "de_group_frames sample_env = group_frames \<lparr>split_headers = True, split_data = False\<rparr> \<and>
   encode_and_write_frames (log_writer sample_env) [make_settings_ack] [] = (None, encode_frames [make_settings_ack] []) \<and>
   write_preface (log_writer sample_env) 0 (de_group_frames (log_writer sample_env) [make_settings_ack]) [] =
     (None, CONNECTION_PREFACE @ encode_frames [make_settings_ack] [])"
  using wire_bytes_independent_of_grouping [of sample_env "\<lparr>split_headers = True, split_data = False\<rparr>" "[make_settings_ack]" "[]"]
  by (simp add: sample_env_def)


subsection \<open>The limit on concurrent streams\<close>

text \<open>What sending does to the number of active streams.\<close>

definition load_le :: "('d, 'f) H2Engine \<Rightarrow> ('d, 'f) H2Engine \<Rightarrow> bool" where
  "load_le e e' \<longleftrightarrow> active_stream_count (en_state e') \<le> active_stream_count (en_state e) \<and>
     cs_remote_settings (en_state e') = cs_remote_settings (en_state e)"

abbreviation active_in :: "(u32 \<times> H2Stream) list \<Rightarrow> nat" where
  "active_in ss \<equiv> length (filter (\<lambda>(k, s). is_active (st_state s)) ss)"

lemma active_update:
  "map_of ss k = Some s \<Longrightarrow> (is_active (st_state s') \<Longrightarrow> is_active (st_state s)) \<Longrightarrow>
   active_in (AList.update k s' ss) \<le> active_in ss"
  by (induction ss) (auto split: if_splits)

lemma active_update_new: "active_in (AList.update k s ss) \<le> Suc (active_in ss)"
  by (induction ss) (auto split: if_splits)

lemma active_modify:
  assumes "\<And>s. is_active (st_state (f s)) \<Longrightarrow> is_active (st_state s)"
  shows "active_stream_count (modify_stream k f c) \<le> active_stream_count c"
  using active_update [of "cs_streams c" k _ "f _"] assms
  by (auto simp: modify_stream_def active_stream_count_def get_stream_def put_stream_def split: option.split)

lemma remote_modify [simp]: "cs_remote_settings (modify_stream k f c) = cs_remote_settings c"
  by (simp add: modify_stream_def put_stream_def split: option.split)

lemma active_end_stream: "active_stream_count (end_stream_on k c) \<le> active_stream_count c"
  unfolding end_stream_on_def
  by (rule active_modify) (simp add: keep_def send_end_stream_def is_active_def split: StreamState.splits sum.splits)

lemma active_spend: "active_stream_count (spend k n c) \<le> active_stream_count c"
proof -
  have "active_stream_count (spend k n c) \<le> active_stream_count (c\<lparr>cs_send_window := cs_send_window c - int n\<rparr>)"
    unfolding spend_def by (rule active_modify) simp
  then show ?thesis by (simp add: active_stream_count_def)
qed

lemma load_sent_state: "load_le e (sent_state k xs es e)"
  using active_spend [of k _ "en_state e"] active_end_stream [of k "spend k _ (en_state e)"]
  by (auto simp: load_le_def sent_state_def Let_def end_stream_on_def spend_def intro: order_trans)

lemma load_trans: "load_le a b \<Longrightarrow> load_le b c \<Longrightarrow> load_le a c"
  by (simp add: load_le_def)

lemma load_build_headers:
  assumes "engine_inv e" "build_headers k hs es prio e = Some (frames, e')"
  shows "load_le e e'"
proof -
  obtain block c where b: "encoded_block hs e = (block, c)" by fastforce
  obtain enc where c: "c = (en_state e)\<lparr>cs_hpack_encoder := enc\<rparr>"
    using b by (cases "en_hpack_policy e")
      (auto simp: encoded_block_def encode_headers_with_policy_def conn_encode_headers_def split: prod.splits)
  have same: "active_stream_count c = active_stream_count (en_state e)" by (simp add: c active_stream_count_def)
  have "conn_inv (en_state e)" using assms(1) by (simp add: engine_inv_def)
  from build_headers_spec [OF this b, of k es prio] show ?thesis
    using assms(2) active_end_stream [of k c] encoded_block_keeps(2) [OF b]
    by (auto simp: load_le_def same end_stream_on_def)
qed

lemma load_build_parts:
  assumes "engine_inv e" "(do {
        (frames, e1) \<leftarrow> build_headers k hs es prio e;
        (case body of
           Some body_data \<Rightarrow>
             if body_data \<noteq> [] then do {
               (data_frames, e2) \<leftarrow> build_data k body_data True e1;
               Some (frames @ data_frames, e2)
             } else Some (frames, e1)
         | None \<Rightarrow> Some (frames, e1))
      }) = Some (frames', e')"
  shows "load_le e e'"
proof -
  obtain frames e1 where b: "build_headers k hs es prio e = Some (frames, e1)" "step_ok e e1 frames"
    using build_headers_ok [OF assms(1)] by blast
  have le: "load_le e e1" by (rule load_build_headers [OF assms(1) b(1)])
  have "conn_inv (en_state e1)" using b(2) by (simp add: step_ok_def engine_inv_def)
  note spec = build_data_spec [OF this]
  show ?thesis
    using assms(2) b(1) le load_trans [OF le load_sent_state]
    by (cases body) (auto simp: spec split: if_splits)
qed

lemma load_build_queued: "engine_inv e \<Longrightarrow> build_queued env k q e = Some (frames, e') \<Longrightarrow> load_le e e'"
  using load_build_parts [of e]
  by (cases q) (simp_all add: build_request_def build_native_request_def Let_def)

lemma load_open:
  assumes "engine_open_stream e = (k, e1)"
  shows "active_stream_count (en_state e1) \<le> Suc (active_stream_count (en_state e))"
    "cs_remote_settings (en_state e1) = cs_remote_settings (en_state e)"
  using assms active_update_new [of _ _ "cs_streams (en_state e)"]
  by (auto simp: engine_open_stream_def open_stream_def put_stream_def active_stream_count_def Let_def)

text \<open>
  C22. Dispatch respects the peer's \<^verbatim>\<open>SETTINGS_MAX_CONCURRENT_STREAMS\<close>: it never raises the number of active
  streams above the limit, and it leaves a request queued only when the limit is reached.
\<close>

theorem dispatch_respects_stream_limit:
  assumes "engine_inv e" "hs_max_concurrent_streams (cs_remote_settings (en_state e)) = Some m"
    "dispatch_loop env gone qs e w p = Some (r, qs', e', w', p', out)"
  shows "active_stream_count (en_state e') \<le> max (active_stream_count (en_state e)) (unat m) \<and>
    (r = None \<and> qs' \<noteq> [] \<longrightarrow> active_stream_count (en_state e') \<ge> unat m)"
  using assms
proof (induction qs arbitrary: e w p out)
  case (Cons q qs)
  show ?case
  proof (cases "engine_can_open_stream e")
    case False
    then show ?thesis using Cons.prems by (auto simp: engine_can_open_stream_def can_open_stream_def)
  next
    case can: True
    show ?thesis
    proof (cases "gone (queued_request_id q)")
      case True
      then obtain out' where "dispatch_loop env gone qs e w p = Some (r, qs', e', w', p', out')"
        using Cons.prems(3) can by (auto split: Option.bind_splits)
      then show ?thesis using Cons.IH [OF Cons.prems(1,2)] by blast
    next
      case False
      obtain k e1 where o: "engine_open_stream e = (k, e1)" by fastforce
      have inv1: "engine_inv e1" by (rule open_stream_ok(1) [OF Cons.prems(1) o])
      obtain frames e2 where b: "build_queued env k q e1 = Some (frames, e2)" "engine_inv e2"
        using build_queued_ok [OF inv1] by blast
      have lim: "active_stream_count (en_state e2) \<le> unat m"
        "hs_max_concurrent_streams (cs_remote_settings (en_state e2)) = Some m"
        using load_open [OF o] load_build_queued [OF inv1 b(1)] can Cons.prems(2)
        by (auto simp: load_le_def engine_can_open_stream_def can_open_stream_def)
      obtain we w1 where w: "encode_and_write_frames env frames w = (we, w1)" by fastforce
      show ?thesis
      proof (cases we)
        case (Some err)
        then have "e' = e2" "r \<noteq> None" using Cons.prems(3) can False o b(1) w by (auto simp: Let_def)
        then show ?thesis using lim by auto
      next
        case None
        let ?p = "AList.update k \<lparr>ps_id = queued_request_id q, ps_headers_open = True\<rparr> p"
        obtain out' where "dispatch_loop env gone qs e2 w1 ?p = Some (r, qs', e', w', p', out')"
          using Cons.prems(3) can False o b(1) w None by (auto simp: Let_def split: Option.bind_splits)
        from Cons.IH [OF b(2) lim(2) this] show ?thesis using lim(1) by auto
      qed
    qed
  qed
qed auto

theorem dispatch_respects_stream_limit_witness:
  "let e0 = fst (engine_client unit_hpack chrome_144_h2);
       e = e0\<lparr>en_state := (en_state e0)\<lparr>cs_remote_settings := settings_default\<lparr>hs_max_concurrent_streams := Some 1\<rparr>\<rparr>\<rparr>;
       qs = [QNativeRequest 1 sample_request, QNativeRequest 2 sample_request]
   in engine_inv e \<and>
    (\<exists>r qs' e' w' p' out. dispatch_loop sample_env (\<lambda>_. False) qs e [] [] = Some (r, qs', e', w', p', out) \<and>
      active_stream_count (en_state e') \<le> max (active_stream_count (en_state e)) 1 \<and>
      (r = None \<and> qs' \<noteq> [] \<longrightarrow> active_stream_count (en_state e') \<ge> 1))"
proof -
  define start where "start = fst (engine_client unit_hpack chrome_144_h2)"
  let ?e = "start\<lparr>en_state := (en_state start)\<lparr>cs_remote_settings := settings_default\<lparr>hs_max_concurrent_streams := Some 1\<rparr>\<rparr>\<rparr>"
  let ?qs = "[QNativeRequest 1 sample_request, QNativeRequest 2 sample_request]"
  have "engine_inv start" "ids_below 0 start"
    unfolding start_def engine_client_def by (rule engine_inv_new, rule ids_below_new)
  moreover have "settings_ok (settings_default\<lparr>hs_max_concurrent_streams := Some 1\<rparr>)"
    using settings_ok_default(1) by (simp add: settings_ok_def)
  ultimately have inv: "engine_inv ?e" and n: "unat (cs_next_stream_id (en_state ?e)) = 2 * 0 + 1"
    by (simp_all add: engine_inv_def conn_inv_def ids_below_def)
  have kb: "keys_below 0 []" by (simp add: keys_below_def)
  obtain r qs' e' w' p' out where d: "dispatch_loop sample_env (\<lambda>_. False) ?qs ?e [] [] = Some (r, qs', e', w', p', out)"
    using dispatch_loop_ok [OF inv n kb, of ?qs sample_env "\<lambda>_. False" "[]"] by auto
  from dispatch_respects_stream_limit [OF inv _ d, of 1] d inv show ?thesis
    unfolding Let_def start_def [symmetric] by auto
qed


end
