(* ===== verification/H2_Synthesis.thy ===== *)
theory H2_Synthesis
  imports H2_Conn "HOL-Library.Monad_Syntax" "HOL-Library.Multiset"
begin

text \<open>
  Randomised fingerprints, \<^verbatim>\<open>lkh2/src/synthesis.rs\<close>: the validation of a profile and the two synthesizers that
  recombine the presets. The random generator is a parameter, a function from its state to the next
  64-bit word and state. A panic (an empty list of bases, an index out of range) is \<open>None\<close>.
\<close>

subsection \<open>Validation\<close>

datatype InvalidH2Spec =
    PseudoHeaderOrderInvalid
  | DuplicateSetting u16
  | MaxFrameSizeOutOfRange u32
  | InitialWindowTooLarge u32
  | EnablePushNotBoolean u32
  | WindowUpdateTooLarge u32

fun invalid_spec_display :: "InvalidH2Spec \<Rightarrow> string" where
  "invalid_spec_display PseudoHeaderOrderInvalid = ''pseudo_header_order must be the four pseudo-headers, once each''"
| "invalid_spec_display (DuplicateSetting i) = ''duplicate SETTINGS id 0x'' @ show_hex4 (unat i)"
| "invalid_spec_display (MaxFrameSizeOutOfRange v) = ''MAX_FRAME_SIZE '' @ show_nat (unat v) @ '' out of range''"
| "invalid_spec_display (InitialWindowTooLarge v) = ''INITIAL_WINDOW_SIZE '' @ show_nat (unat v) @ '' > 2^31-1''"
| "invalid_spec_display (EnablePushNotBoolean v) = ''ENABLE_PUSH '' @ show_nat (unat v) @ '' not 0/1''"
| "invalid_spec_display (WindowUpdateTooLarge v) = ''WINDOW_UPDATE increment '' @ show_nat (unat v) @ '' too large''"

definition DEFAULT_CONN_WINDOW :: u32 where
  "DEFAULT_CONN_WINDOW = 65535"

definition MAX_WINDOW :: u32 where
  "MAX_WINDOW = 0x7fffffff"

fun count_pseudo :: "PseudoHeaderId list \<Rightarrow> u32 \<times> u32 \<times> u32 \<times> u32 \<Rightarrow> u32 \<times> u32 \<times> u32 \<times> u32" where
  "count_pseudo [] c = c"
| "count_pseudo (ph # phs) (m, a, s, p) =
     count_pseudo phs
       (case ph of PH_Method \<Rightarrow> (m + 1, a, s, p) | PH_Authority \<Rightarrow> (m, a + 1, s, p)
        | PH_Scheme \<Rightarrow> (m, a, s + 1, p) | PH_Path \<Rightarrow> (m, a, s, p + 1))"

fun validate_settings :: "u16 list \<Rightarrow> H2Setting list \<Rightarrow> InvalidH2Spec option" where
  "validate_settings seen [] = None"
| "validate_settings seen (s # ss) =
     (let i = setting_id_as_u16 (se_id s); v = se_value s in
      if i \<in> set seen then Some (DuplicateSetting i)
      else if i = 0x02 \<and> v > 1 then Some (EnablePushNotBoolean v)
      else if i = 0x04 \<and> v > MAX_WINDOW then Some (InitialWindowTooLarge v)
      else if i = 0x05 \<and> \<not> (16384 \<le> v \<and> v \<le> 16777215) then Some (MaxFrameSizeOutOfRange v)
      else validate_settings (i # seen) ss)"

definition validate :: "H2Profile \<Rightarrow> InvalidH2Spec + unit" where
  "validate profile =
     (if count_pseudo (pr_pseudo_header_order profile) (0, 0, 0, 0) \<noteq> (1, 1, 1, 1) then Inl PseudoHeaderOrderInvalid
      else case validate_settings [] (pr_settings profile) of
             Some err \<Rightarrow> Inl err
           | None \<Rightarrow>
               if pr_window_update profile > MAX_WINDOW - DEFAULT_CONN_WINDOW
               then Inl (WindowUpdateTooLarge (pr_window_update profile))
               else Inr ())"

subsection \<open>Recombination\<close>

definition h2_recombine :: "H2Profile list" where
  "h2_recombine =
     [chrome_131_h2, chrome_144_h2, chrome_145_h2, chrome_146_h2, chrome_147_h2, chrome_148_h2, chrome_149_h2,
      chrome_150_h2, chrome_151_h2, firefox_133_h2, firefox_147_h2, safari_18_h2, safari_26_h2]"

type_synonym 'r rng = "'r \<Rightarrow> u64 \<times> 'r"

definition slice_swap :: "nat \<Rightarrow> nat \<Rightarrow> 'a list \<Rightarrow> 'a list option" where
  "slice_swap i j v = (if i < length v \<and> j < length v then Some (v[i := v ! j, j := v ! i]) else None)"

text \<open>The loop index counts down to 1.\<close>

fun shuffle_loop :: "'r rng \<Rightarrow> nat \<Rightarrow> 'a list \<Rightarrow> 'r \<Rightarrow> ('a list \<times> 'r) option" where
  "shuffle_loop next_u64 0 v r = Some (v, r)"
| "shuffle_loop next_u64 (Suc i) v r =
     (let (x, r1) = next_u64 r; j = unat (x mod (word_of_nat (Suc i) + 1)) in
      do { v1 \<leftarrow> slice_swap (Suc i) j v; shuffle_loop next_u64 i v1 r1 })"

definition shuffle :: "'r rng \<Rightarrow> 'a list \<Rightarrow> 'r \<Rightarrow> ('a list \<times> 'r) option" where
  "shuffle next_u64 v r = shuffle_loop next_u64 (length v - 1) v r"

definition synthesize :: "'r rng \<Rightarrow> H2Profile list \<Rightarrow> 'r \<Rightarrow> (H2Profile \<times> 'r) option" where
  "synthesize next_u64 bases r =
     (let (x, r1) = next_u64 r in
      if bases = [] then None
      else let base = bases ! (unat x mod length bases) in do {
        (order, r2) \<leftarrow> shuffle next_u64 (pr_pseudo_header_order base) r1;
        (settings, r3) \<leftarrow> shuffle next_u64 (pr_settings base) r2;
        Some (base\<lparr>pr_pseudo_header_order := order, pr_settings := settings\<rparr>, r3)
      })"

definition rand_u32 :: "'r rng \<Rightarrow> u32 \<Rightarrow> u32 \<Rightarrow> 'r \<Rightarrow> u32 \<times> 'r" where
  "rand_u32 next_u64 lo hi r =
     (let (x, r1) = next_u64 r in (lo + ucast (x mod (ucast hi - ucast lo + 1)), r1))"

definition perturb :: "'r rng \<Rightarrow> H2Setting \<Rightarrow> 'r \<Rightarrow> u32 \<times> 'r" where
  "perturb next_u64 s r =
     (let i = setting_id_as_u16 (se_id s) in
      if i = 0x01 then rand_u32 next_u64 0 65536 r
      else if i = 0x03 then rand_u32 next_u64 64 1024 r
      else if i = 0x04 then rand_u32 next_u64 65535 16777216 r
      else if i = 0x05 then rand_u32 next_u64 16384 65536 r
      else if i = 0x06 then rand_u32 next_u64 16384 262144 r
      else (se_value s, r))"

fun perturb_loop :: "'r rng \<Rightarrow> H2Setting list \<Rightarrow> 'r \<Rightarrow> H2Setting list \<times> 'r" where
  "perturb_loop next_u64 [] r = ([], r)"
| "perturb_loop next_u64 (s # ss) r =
     (let (v, r1) = perturb next_u64 s r; (ss', r2) = perturb_loop next_u64 ss r1 in (s\<lparr>se_value := v\<rparr> # ss', r2))"

definition synthesize_full :: "'r rng \<Rightarrow> H2Profile list \<Rightarrow> 'r \<Rightarrow> (H2Profile \<times> 'r) option" where
  "synthesize_full next_u64 bases r = do {
     (p, r1) \<leftarrow> synthesize next_u64 bases r;
     let (settings, r2) = perturb_loop next_u64 (pr_settings p) r1;
     Some (p\<lparr>pr_settings := settings\<rparr>, r2)
   }"

subsection \<open>What validation means\<close>

definition value_fine :: "H2Setting \<Rightarrow> bool" where
  "value_fine s \<longleftrightarrow>
     (let i = setting_id_as_u16 (se_id s); v = se_value s in
      (i = 2 \<longrightarrow> v \<le> 1) \<and> (i = 4 \<longrightarrow> v \<le> MAX_WINDOW) \<and> (i = 5 \<longrightarrow> 16384 \<le> v \<and> v \<le> 16777215))"

abbreviation setting_ids :: "H2Setting list \<Rightarrow> u16 list" where
  "setting_ids ss \<equiv> map (setting_id_as_u16 \<circ> se_id) ss"

lemma validate_settings_iff:
  "validate_settings seen ss = None \<longleftrightarrow>
     distinct (setting_ids ss) \<and> set (setting_ids ss) \<inter> set seen = {} \<and> list_all value_fine ss"
proof (induction ss arbitrary: seen)
  case (Cons s ss)
  show ?case
    using Cons.IH [of "setting_id_as_u16 (se_id s) # seen"]
    by (auto simp: Let_def value_fine_def linorder_not_less)
qed simp

lemma count_pseudo_mset:
  "count_pseudo phs (m, a, s, p) =
     (m + word_of_nat (count (mset phs) PH_Method), a + word_of_nat (count (mset phs) PH_Authority),
      s + word_of_nat (count (mset phs) PH_Scheme), p + word_of_nat (count (mset phs) PH_Path))"
proof (induction phs arbitrary: m a s p)
  case (Cons ph phs)
  then show ?case by (cases ph) simp_all
qed simp

lemma validate_iff:
  "validate p = Inr () \<longleftrightarrow>
     count_pseudo (pr_pseudo_header_order p) (0, 0, 0, 0) = (1, 1, 1, 1) \<and>
     distinct (setting_ids (pr_settings p)) \<and> list_all value_fine (pr_settings p) \<and>
     pr_window_update p \<le> MAX_WINDOW - DEFAULT_CONN_WINDOW"
  using validate_settings_iff [of "[]" "pr_settings p"]
  by (auto simp: validate_def linorder_not_less split: option.split)

subsection \<open>Shuffling permutes\<close>

lemma slice_swap_mset: "slice_swap i j v = Some v' \<Longrightarrow> mset v' = mset v \<and> length v' = length v"
  using mset_swap [of i v j] by (auto simp: slice_swap_def mset_swap split: if_splits)

lemma shuffle_loop_ok:
  assumes "i < length v" "length v < 2 ^ 63" 
  shows "\<exists>v' r'. shuffle_loop next_u64 i v r = Some (v', r') \<and> mset v' = mset v"
  using assms
proof (induction i arbitrary: v r)
  case (Suc i)
  obtain x r1 where n: "next_u64 r = (x, r1)" by fastforce
  define w :: u64 where "w = word_of_nat (Suc i) + 1"
  have w: "w = word_of_nat (Suc (Suc i))" by (simp add: w_def)
  have "unat w = Suc (Suc i) mod 2 ^ 64" unfolding w by (subst unat_of_nat) simp
  then have "unat w = i + 2" using Suc.prems by simp
  then have j: "unat (x mod w) < length v"
    using Suc.prems(1) by (metis (no_types, opaque_lifting) Suc_leI add_2_eq_Suc' le_less_trans less_le_trans mod_less_divisor unat_mod zero_less_Suc)
  then obtain v1 where s: "slice_swap (Suc i) (unat (x mod w)) v = Some v1" using Suc.prems(1) by (simp add: slice_swap_def)
  note m = slice_swap_mset [OF s]
  then obtain v' r' where "shuffle_loop next_u64 i v1 r1 = Some (v', r')" "mset v' = mset v1"
    using Suc.IH [of v1 r1] Suc.prems by auto
  then show ?case using n s m by (simp add: w_def)
qed simp

lemma shuffle_ok:
  "length v < 2 ^ 63 \<Longrightarrow> \<exists>v' r'. shuffle next_u64 v r = Some (v', r') \<and> mset v' = mset v"
  using shuffle_loop_ok [of "length v - 1" v next_u64 r] by (cases v) (simp_all add: shuffle_def)

definition short :: "H2Profile \<Rightarrow> bool" where
  "short p \<longleftrightarrow> length (pr_pseudo_header_order p) < 2 ^ 63 \<and> length (pr_settings p) < 2 ^ 63"

text \<open>The result differs from one of the bases by the two orders only.\<close>

definition reordered :: "H2Profile \<Rightarrow> H2Profile \<Rightarrow> bool" where
  "reordered b p \<longleftrightarrow>
     mset (pr_pseudo_header_order p) = mset (pr_pseudo_header_order b) \<and> mset (pr_settings p) = mset (pr_settings b) \<and>
     p = b\<lparr>pr_pseudo_header_order := pr_pseudo_header_order p, pr_settings := pr_settings p\<rparr>"

lemma synthesize_ok:
  assumes "bases \<noteq> []" "list_all short bases"
  shows "\<exists>b p r'. b \<in> set bases \<and> synthesize next_u64 bases r = Some (p, r') \<and> reordered b p"
proof -
  obtain x r1 where n: "next_u64 r = (x, r1)" by fastforce
  define b where "b = bases ! (unat x mod length bases)"
  have b: "b \<in> set bases" using assms(1) by (simp add: b_def)
  then have sh: "length (pr_pseudo_header_order b) < 2 ^ 63" "length (pr_settings b) < 2 ^ 63"
    using assms(2) by (auto simp: list_all_iff short_def)
  obtain order r2 where 1: "shuffle next_u64 (pr_pseudo_header_order b) r1 = Some (order, r2)"
    "mset order = mset (pr_pseudo_header_order b)"
    using shuffle_ok [OF sh(1), of next_u64 r1] by blast
  obtain settings r3 where 2: "shuffle next_u64 (pr_settings b) r2 = Some (settings, r3)" "mset settings = mset (pr_settings b)"
    using shuffle_ok [OF sh(2), of next_u64 r2] by blast
  have "synthesize next_u64 bases r = Some (b\<lparr>pr_pseudo_header_order := order, pr_settings := settings\<rparr>, r3)"
    using assms(1) n 1 2 by (simp add: synthesize_def Let_def b_def)
  then show ?thesis using b 1 2 by (auto simp: reordered_def)
qed

lemma reordered_valid: "reordered b p \<Longrightarrow> validate p = Inr () \<longleftrightarrow> validate b = Inr ()"
proof -
  assume r: "reordered b p"
  have o: "mset (pr_pseudo_header_order p) = mset (pr_pseudo_header_order b)" and s: "mset (pr_settings p) = mset (pr_settings b)"
    and w: "pr_window_update p = pr_window_update b"
    using r by (auto simp: reordered_def) (metis H2Profile.select_convs(2) H2Profile.surjective H2Profile.update_convs(1,3))
  have "mset (setting_ids (pr_settings p)) = mset (setting_ids (pr_settings b))" using s by (metis mset_map)
  then have "distinct (setting_ids (pr_settings p)) = distinct (setting_ids (pr_settings b))" by (rule mset_eq_imp_distinct_iff)
  moreover have "list_all value_fine (pr_settings p) = list_all value_fine (pr_settings b)"
    using mset_eq_setD [OF s] by (simp add: list_all_iff)
  ultimately show ?thesis by (simp add: validate_iff count_pseudo_mset o w)
qed

lemma rand_u32_range:
  assumes "rand_u32 next_u64 lo hi r = (v, r')" "lo \<le> hi" "hi < 2 ^ 31"
  shows "lo \<le> v \<and> v \<le> hi"
proof -
  obtain x r1 where n: "next_u64 r = (x, r1)" by fastforce
  have u: "uint lo \<le> uint hi" "uint hi < 2147483648"
    using assms(2,3) by (simp_all add: word_le_def word_less_def)
  have lo: "0 \<le> uint lo" by simp
  have wide: "uint (ucast w :: u64) = uint w" for w :: u32
    using uint_bounded [of w] by (simp add: unsigned_ucast_eq take_bit_int_eq_self)
  define m :: u64 where "m = ucast hi - ucast lo + 1"
  have "uint m = (uint hi - uint lo + 1) mod 18446744073709551616"
    unfolding m_def by (simp add: uint_word_ariths wide mod_simps)
  also have "\<dots> = uint hi - uint lo + 1" using u lo by (intro mod_pos_pos_trivial) linarith+
  finally have m: "uint m = uint hi - uint lo + 1" .
  define k where "k = uint (x mod m)"
  have k: "0 \<le> k" "k \<le> uint hi - uint lo"
    using m u pos_mod_bound [of "uint m" "uint x"] by (simp_all add: k_def uint_mod)
  have small: "k < 4294967296" using k u lo by linarith
  have "uint (ucast (x mod m) :: u32) = k"
    using k(1) small by (simp add: unsigned_ucast_eq k_def take_bit_int_eq_self)
  moreover have "v = lo + ucast (x mod m)" using assms(1) n by (simp add: rand_u32_def m_def)
  ultimately have "uint v = (uint lo + k) mod 4294967296" by (simp add: uint_word_ariths)
  also have "\<dots> = uint lo + k" using u lo k by (intro mod_pos_pos_trivial) linarith+
  finally show ?thesis using k by (simp add: word_le_def)
qed

lemma perturb_fine:
  assumes "perturb next_u64 s r = (v, r')" "value_fine s"
  shows "value_fine (s\<lparr>se_value := v\<rparr>)"
proof -
  let ?i = "setting_id_as_u16 (se_id s)"
  have "v \<le> MAX_WINDOW" if "?i = 4"
    using assms(1) that rand_u32_range [of next_u64 65535 16777216 r v r']
    by (auto simp: perturb_def MAX_WINDOW_def intro: order_trans)
  moreover have "16384 \<le> v \<and> v \<le> 16777215" if "?i = 5"
    using assms(1) that rand_u32_range [of next_u64 16384 65536 r v r']
    by (auto simp: perturb_def intro: order_trans)
  moreover have "v \<le> 1" if "?i = 2" using assms that by (simp add: perturb_def value_fine_def)
  ultimately show ?thesis by (simp add: value_fine_def Let_def)
qed

lemma perturb_loop_ok:
  assumes "list_all value_fine ss" "perturb_loop next_u64 ss r = (ss', r')"
  shows "list_all value_fine ss'" "map se_id ss' = map se_id ss"
  using assms
proof (induction ss arbitrary: r ss' r')
  case (Cons s ss)
  { case 1 then show ?case using Cons.IH(1) perturb_fine [of next_u64 s r] by (auto split: prod.splits) }
  { case 2 then show ?case using Cons.IH(2) by (auto split: prod.splits) }
qed simp_all

lemma synthesize_full_ok:
  assumes "bases \<noteq> []" "list_all short bases" "list_all (\<lambda>b. validate b = Inr ()) bases"
  shows "\<exists>b q p r'. b \<in> set bases \<and> synthesize_full next_u64 bases r = Some (p, r') \<and> validate p = Inr () \<and>
    reordered b q \<and> p = q\<lparr>pr_settings := pr_settings p\<rparr> \<and> map se_id (pr_settings p) = map se_id (pr_settings q)"
proof -
  obtain b q r1 where s: "b \<in> set bases" "synthesize next_u64 bases r = Some (q, r1)" "reordered b q"
    using synthesize_ok [OF assms(1,2), of next_u64 r] by blast
  have q: "validate q = Inr ()" using reordered_valid [OF s(3)] s(1) assms(3) by (auto simp: list_all_iff)
  obtain ss r2 where l: "perturb_loop next_u64 (pr_settings q) r1 = (ss, r2)" by fastforce
  have fine: "list_all value_fine ss" "map se_id ss = map se_id (pr_settings q)"
    using q perturb_loop_ok [OF _ l] by (simp_all add: validate_iff)
  have "setting_ids ss = setting_ids (pr_settings q)" using fine(2) by (metis map_map)
  then have "validate (q\<lparr>pr_settings := ss\<rparr>) = Inr ()" using q fine(1) by (simp add: validate_iff)
  moreover have "synthesize_full next_u64 bases r = Some (q\<lparr>pr_settings := ss\<rparr>, r2)"
    using s(2) l by (simp add: synthesize_full_def)
  ultimately show ?thesis
    using s fine(2) by (intro exI [of _ b] exI [of _ q] exI [of _ "q\<lparr>pr_settings := ss\<rparr>"] exI [of _ r2]) simp
qed

subsection \<open>Validated settings are accepted\<close>

lemma fine_setting_accepted:
  assumes "value_fine s" "settings_ok h"
  shows "\<exists>h'. settings_apply (setting_parameter s) h = Inr h' \<and> settings_ok h'"
proof -
  have "settings_ok (h\<lparr>hs_initial_window_size := se_value s\<rparr>)" if "setting_id_as_u16 (se_id s) = 4"
    using assms that by (simp add: value_fine_def settings_ok_def MAX_WINDOW_def i32_max_def word_le_def)
  moreover have "settings_ok (h\<lparr>hs_max_frame_size := se_value s\<rparr>)" if "setting_id_as_u16 (se_id s) = 5"
    using assms that by (simp add: value_fine_def settings_ok_def Let_def)
  ultimately show ?thesis
    using assms
    by (auto simp: settings_apply_def settings_id_from_u16_def setting_parameter_def Let_def value_fine_def settings_ok_def
        MAX_WINDOW_def linorder_not_less split: if_splits)
qed

lemma fine_settings_accepted:
  assumes "list_all value_fine ss" "settings_ok h"
  shows "fst (remote_settings_loop (map setting_parameter ss) h) = None \<and>
    settings_ok (snd (remote_settings_loop (map setting_parameter ss) h))"
  using assms
proof (induction ss arbitrary: h)
  case (Cons s ss)
  obtain h' where "settings_apply (setting_parameter s) h = Inr h'" "settings_ok h'"
    using fine_setting_accepted [of s h] Cons.prems by auto
  then show ?case using Cons by simp
qed simp

lemma h2_recombine_valid: "list_all short h2_recombine" "list_all (\<lambda>b. validate b = Inr ()) h2_recombine"
proof -
  have "short b \<and> validate b = Inr ()"
    if "b \<in> {chrome_144_h2, chrome_145_h2, firefox_133_h2, firefox_147_h2, safari_18_h2, safari_26_h2}" for b
    using that
    by (auto simp: short_def validate_iff value_fine_def setting_def MAX_WINDOW_def DEFAULT_CONN_WINDOW_def
        chrome_144_h2_def chrome_145_h2_def firefox_133_h2_def firefox_147_h2_def safari_18_h2_def safari_26_h2_def)
  then show "list_all short h2_recombine" "list_all (\<lambda>b. validate b = Inr ()) h2_recombine"
    by (simp_all add: h2_recombine_def chrome_131_h2_def chrome_146_h2_def chrome_147_h2_def chrome_148_h2_def
        chrome_149_h2_def chrome_150_h2_def chrome_151_h2_def)
qed

text \<open>
  C37. Synthesised profiles are usable. From any non-empty list of valid bases, and whatever the random generator
  returns, the full synthesizer returns a profile: it passes the validation, has the pseudo-headers and the setting
  ids of one base in some order, and a peer's settings code accepts every one of its settings.
\<close>

theorem synthesized_profiles_valid:
  assumes "bases \<noteq> []" "list_all short bases" "list_all (\<lambda>b. validate b = Inr ()) bases"
  shows "\<exists>b p r'. b \<in> set bases \<and> synthesize_full next_u64 bases r = Some (p, r') \<and> validate p = Inr () \<and>
    mset (pr_pseudo_header_order p) = mset (pr_pseudo_header_order b) \<and>
    mset (map se_id (pr_settings p)) = mset (map se_id (pr_settings b)) \<and>
    fst (remote_settings_loop (map setting_parameter (pr_settings p)) settings_client) = None \<and>
    settings_ok (snd (remote_settings_loop (map setting_parameter (pr_settings p)) settings_client))"
proof -
  obtain b q p r' where s: "b \<in> set bases" "synthesize_full next_u64 bases r = Some (p, r')" "validate p = Inr ()"
    "reordered b q" "p = q\<lparr>pr_settings := pr_settings p\<rparr>" "map se_id (pr_settings p) = map se_id (pr_settings q)"
    using synthesize_full_ok [OF assms, of next_u64 r] by blast
  have "pr_pseudo_header_order p = pr_pseudo_header_order q" by (subst s(5)) simp
  moreover have "mset (map se_id (pr_settings p)) = mset (map se_id (pr_settings b))"
    using s(4) by (simp add: s(6) reordered_def)
  moreover have "list_all value_fine (pr_settings p)" using s(3) by (simp add: validate_iff)
  note fine_settings_accepted [OF this settings_ok_default(2)]
  ultimately show ?thesis using s(1-4) unfolding reordered_def by (intro exI [of _ b] exI [of _ p] exI [of _ r']) simp
qed

theorem synthesized_profiles_valid_witness:
  "let next_u64 = (\<lambda>x :: u64. (x, 6364136223846793005 * x + 1)) in
   list_all short h2_recombine \<and> list_all (\<lambda>b. validate b = Inr ()) h2_recombine \<and>
   (\<exists>b p r'. b \<in> set h2_recombine \<and> synthesize_full next_u64 h2_recombine 42 = Some (p, r') \<and> validate p = Inr () \<and>
    mset (pr_pseudo_header_order p) = mset (pr_pseudo_header_order b) \<and>
    mset (map se_id (pr_settings p)) = mset (map se_id (pr_settings b)) \<and>
    fst (remote_settings_loop (map setting_parameter (pr_settings p)) settings_client) = None \<and>
    settings_ok (snd (remote_settings_loop (map setting_parameter (pr_settings p)) settings_client)))"
  unfolding Let_def
  using synthesized_profiles_valid [OF _ h2_recombine_valid, of "\<lambda>x :: u64. (x, 6364136223846793005 * x + 1)" 42]
    h2_recombine_valid
  by (simp only: h2_recombine_def list.distinct simp_thms)

end
