(* ===== verification/Tls_Error.thy ===== *)
theory Tls_Error
  imports Prelude
begin

text \<open>
  Alerts and errors of the TLS engine, \<^verbatim>\<open>lktls/src/error.rs\<close>: the alert codes with their names and byte
  values, and the error type of all its operations. An I/O error is kept as its message.
\<close>

subsection \<open>Alerts\<close>

datatype AlertLevel = AL_Warning | AL_Fatal | AL_Unknown u8

definition alert_level_from_byte :: "u8 \<Rightarrow> AlertLevel" where
  "alert_level_from_byte b = (if b = 1 then AL_Warning else if b = 2 then AL_Fatal else AL_Unknown b)"

fun alert_level_as_byte :: "AlertLevel \<Rightarrow> u8" where
  "alert_level_as_byte AL_Warning = 1"
| "alert_level_as_byte AL_Fatal = 2"
| "alert_level_as_byte (AL_Unknown b) = b"

fun alert_level_display :: "AlertLevel \<Rightarrow> string" where
  "alert_level_display AL_Warning = ''warning''"
| "alert_level_display AL_Fatal = ''fatal''"
| "alert_level_display (AL_Unknown b) = ''unknown('' @ show_nat (unat b) @ '')''"

datatype AlertDescription =
    AD_CloseNotify | AD_UnexpectedMessage | AD_BadRecordMac | AD_DecryptionFailed
  | AD_RecordOverflow | AD_DecompressionFailure | AD_HandshakeFailure | AD_NoCertificate
  | AD_BadCertificate | AD_UnsupportedCertificate | AD_CertificateRevoked | AD_CertificateExpired
  | AD_CertificateUnknown | AD_IllegalParameter | AD_UnknownCa | AD_AccessDenied
  | AD_DecodeError | AD_DecryptError | AD_ExportRestriction | AD_ProtocolVersion
  | AD_InsufficientSecurity | AD_InternalError | AD_InappropriateFallback | AD_UserCanceled
  | AD_NoRenegotiation | AD_MissingExtension | AD_UnsupportedExtension | AD_CertificateUnobtainable
  | AD_UnrecognizedName | AD_BadCertificateStatusResponse | AD_BadCertificateHashValue | AD_UnknownPskIdentity
  | AD_CertificateRequired | AD_NoApplicationProtocol
  | AD_Unknown u8

definition alert_description_from_byte :: "u8 \<Rightarrow> AlertDescription" where
  "alert_description_from_byte b =
     (if b = 0 then AD_CloseNotify
      else if b = 10 then AD_UnexpectedMessage
      else if b = 20 then AD_BadRecordMac
      else if b = 21 then AD_DecryptionFailed
      else if b = 22 then AD_RecordOverflow
      else if b = 30 then AD_DecompressionFailure
      else if b = 40 then AD_HandshakeFailure
      else if b = 41 then AD_NoCertificate
      else if b = 42 then AD_BadCertificate
      else if b = 43 then AD_UnsupportedCertificate
      else if b = 44 then AD_CertificateRevoked
      else if b = 45 then AD_CertificateExpired
      else if b = 46 then AD_CertificateUnknown
      else if b = 47 then AD_IllegalParameter
      else if b = 48 then AD_UnknownCa
      else if b = 49 then AD_AccessDenied
      else if b = 50 then AD_DecodeError
      else if b = 51 then AD_DecryptError
      else if b = 60 then AD_ExportRestriction
      else if b = 70 then AD_ProtocolVersion
      else if b = 71 then AD_InsufficientSecurity
      else if b = 80 then AD_InternalError
      else if b = 86 then AD_InappropriateFallback
      else if b = 90 then AD_UserCanceled
      else if b = 100 then AD_NoRenegotiation
      else if b = 109 then AD_MissingExtension
      else if b = 110 then AD_UnsupportedExtension
      else if b = 111 then AD_CertificateUnobtainable
      else if b = 112 then AD_UnrecognizedName
      else if b = 113 then AD_BadCertificateStatusResponse
      else if b = 114 then AD_BadCertificateHashValue
      else if b = 115 then AD_UnknownPskIdentity
      else if b = 116 then AD_CertificateRequired
      else if b = 120 then AD_NoApplicationProtocol
      else AD_Unknown b)"

fun alert_description_as_byte :: "AlertDescription \<Rightarrow> u8" where
  "alert_description_as_byte AD_CloseNotify = 0"
| "alert_description_as_byte AD_UnexpectedMessage = 10"
| "alert_description_as_byte AD_BadRecordMac = 20"
| "alert_description_as_byte AD_DecryptionFailed = 21"
| "alert_description_as_byte AD_RecordOverflow = 22"
| "alert_description_as_byte AD_DecompressionFailure = 30"
| "alert_description_as_byte AD_HandshakeFailure = 40"
| "alert_description_as_byte AD_NoCertificate = 41"
| "alert_description_as_byte AD_BadCertificate = 42"
| "alert_description_as_byte AD_UnsupportedCertificate = 43"
| "alert_description_as_byte AD_CertificateRevoked = 44"
| "alert_description_as_byte AD_CertificateExpired = 45"
| "alert_description_as_byte AD_CertificateUnknown = 46"
| "alert_description_as_byte AD_IllegalParameter = 47"
| "alert_description_as_byte AD_UnknownCa = 48"
| "alert_description_as_byte AD_AccessDenied = 49"
| "alert_description_as_byte AD_DecodeError = 50"
| "alert_description_as_byte AD_DecryptError = 51"
| "alert_description_as_byte AD_ExportRestriction = 60"
| "alert_description_as_byte AD_ProtocolVersion = 70"
| "alert_description_as_byte AD_InsufficientSecurity = 71"
| "alert_description_as_byte AD_InternalError = 80"
| "alert_description_as_byte AD_InappropriateFallback = 86"
| "alert_description_as_byte AD_UserCanceled = 90"
| "alert_description_as_byte AD_NoRenegotiation = 100"
| "alert_description_as_byte AD_MissingExtension = 109"
| "alert_description_as_byte AD_UnsupportedExtension = 110"
| "alert_description_as_byte AD_CertificateUnobtainable = 111"
| "alert_description_as_byte AD_UnrecognizedName = 112"
| "alert_description_as_byte AD_BadCertificateStatusResponse = 113"
| "alert_description_as_byte AD_BadCertificateHashValue = 114"
| "alert_description_as_byte AD_UnknownPskIdentity = 115"
| "alert_description_as_byte AD_CertificateRequired = 116"
| "alert_description_as_byte AD_NoApplicationProtocol = 120"
| "alert_description_as_byte (AD_Unknown b) = b"

fun alert_description_name :: "AlertDescription \<Rightarrow> string" where
  "alert_description_name AD_CloseNotify = ''close_notify''"
| "alert_description_name AD_UnexpectedMessage = ''unexpected_message''"
| "alert_description_name AD_BadRecordMac = ''bad_record_mac''"
| "alert_description_name AD_DecryptionFailed = ''decryption_failed''"
| "alert_description_name AD_RecordOverflow = ''record_overflow''"
| "alert_description_name AD_DecompressionFailure = ''decompression_failure''"
| "alert_description_name AD_HandshakeFailure = ''handshake_failure''"
| "alert_description_name AD_NoCertificate = ''no_certificate''"
| "alert_description_name AD_BadCertificate = ''bad_certificate''"
| "alert_description_name AD_UnsupportedCertificate = ''unsupported_certificate''"
| "alert_description_name AD_CertificateRevoked = ''certificate_revoked''"
| "alert_description_name AD_CertificateExpired = ''certificate_expired''"
| "alert_description_name AD_CertificateUnknown = ''certificate_unknown''"
| "alert_description_name AD_IllegalParameter = ''illegal_parameter''"
| "alert_description_name AD_UnknownCa = ''unknown_ca''"
| "alert_description_name AD_AccessDenied = ''access_denied''"
| "alert_description_name AD_DecodeError = ''decode_error''"
| "alert_description_name AD_DecryptError = ''decrypt_error''"
| "alert_description_name AD_ExportRestriction = ''export_restriction''"
| "alert_description_name AD_ProtocolVersion = ''protocol_version''"
| "alert_description_name AD_InsufficientSecurity = ''insufficient_security''"
| "alert_description_name AD_InternalError = ''internal_error''"
| "alert_description_name AD_InappropriateFallback = ''inappropriate_fallback''"
| "alert_description_name AD_UserCanceled = ''user_canceled''"
| "alert_description_name AD_NoRenegotiation = ''no_renegotiation''"
| "alert_description_name AD_MissingExtension = ''missing_extension''"
| "alert_description_name AD_UnsupportedExtension = ''unsupported_extension''"
| "alert_description_name AD_CertificateUnobtainable = ''certificate_unobtainable''"
| "alert_description_name AD_UnrecognizedName = ''unrecognized_name''"
| "alert_description_name AD_BadCertificateStatusResponse = ''bad_certificate_status_response''"
| "alert_description_name AD_BadCertificateHashValue = ''bad_certificate_hash_value''"
| "alert_description_name AD_UnknownPskIdentity = ''unknown_psk_identity''"
| "alert_description_name AD_CertificateRequired = ''certificate_required''"
| "alert_description_name AD_NoApplicationProtocol = ''no_application_protocol''"
| "alert_description_name (AD_Unknown _) = ''unknown''"

definition alert_description_display :: "AlertDescription \<Rightarrow> string" where
  "alert_description_display d =
     alert_description_name d @ '' ('' @ show_nat (unat (alert_description_as_byte d)) @ '')''"

record TlsAlert =
  ta_level :: AlertLevel
  ta_description :: AlertDescription

definition alert_from_bytes :: "u8 \<Rightarrow> u8 \<Rightarrow> TlsAlert" where
  "alert_from_bytes level desc =
     \<lparr>ta_level = alert_level_from_byte level, ta_description = alert_description_from_byte desc\<rparr>"

definition is_fatal :: "TlsAlert \<Rightarrow> bool" where
  "is_fatal a \<longleftrightarrow> ta_level a = AL_Fatal"

definition is_close_notify :: "TlsAlert \<Rightarrow> bool" where
  "is_close_notify a \<longleftrightarrow> ta_description a = AD_CloseNotify"

definition alert_display :: "TlsAlert \<Rightarrow> string" where
  "alert_display a = alert_level_display (ta_level a) @ '' alert: '' @ alert_description_display (ta_description a)"

subsection \<open>Errors\<close>

datatype TlsError =
    TE_Io string
  | TE_InvalidProfile string
  | TE_HandshakeFailure string
  | TE_Alert TlsAlert
  | TE_LocalAlert TlsAlert string
  | TE_CryptoError string
  | TE_CertificateError string
  | TE_UnexpectedMessage string
  | TE_NotImplemented string

definition local_alert :: "AlertDescription \<Rightarrow> string \<Rightarrow> TlsError" where
  "local_alert description message = TE_LocalAlert \<lparr>ta_level = AL_Fatal, ta_description = description\<rparr> message"

fun as_alert :: "TlsError \<Rightarrow> TlsAlert option" where
  "as_alert (TE_Alert a) = Some a"
| "as_alert (TE_LocalAlert a _) = Some a"
| "as_alert _ = None"

fun is_alert :: "TlsError \<Rightarrow> bool" where
  "is_alert (TE_Alert _) = True"
| "is_alert (TE_LocalAlert _ _) = True"
| "is_alert _ = False"

subsection \<open>Codes\<close>

lemma alert_level_byte: "alert_level_as_byte (alert_level_from_byte b) = b"
  by (simp add: alert_level_from_byte_def)

lemma alert_description_byte: "alert_description_as_byte (alert_description_from_byte b) = b"
  by (simp add: alert_description_from_byte_def)

text \<open>A description that is not a raw code survives its byte.\<close>

lemma alert_description_code:
  "(\<forall>b. d \<noteq> AD_Unknown b) \<Longrightarrow> alert_description_from_byte (alert_description_as_byte d) = d"
  by (cases d) (simp_all add: alert_description_from_byte_def)

lemma alert_round_trip:
  "alert_level_as_byte (ta_level (alert_from_bytes l d)) = l"
  "alert_description_as_byte (ta_description (alert_from_bytes l d)) = d"
  "is_close_notify (alert_from_bytes l d) \<longleftrightarrow> d = 0" "is_fatal (alert_from_bytes l d) \<longleftrightarrow> l = 2"
  by (auto simp: alert_from_bytes_def alert_level_byte alert_description_byte is_close_notify_def is_fatal_def
      alert_level_from_byte_def alert_description_from_byte_def)

end
