(* ===== verification/Tls_Crypto.thy ===== *)
theory Tls_Crypto
  imports Tls_Error "HOL-Library.Monad_Syntax"
begin

text \<open>
  The cryptographic primitives under the TLS engine: what \<^verbatim>\<open>lktls/src/crypto/\<close> calls of aws-lc-rs, aes and
  cbc. They are parameters, the fields of a record; \<open>crypto_ok\<close> collects what the code relies on
  (documented lengths, and that opening inverts sealing), and \<open>toy_crypto\<close> is an instance that satisfies it.
  Also the algorithm identifiers of \<^verbatim>\<open>aead.rs\<close>, \<^verbatim>\<open>hkdf.rs\<close> and \<^verbatim>\<open>prf.rs\<close>.
\<close>

subsection \<open>Algorithms\<close>

datatype AeadAlgorithm = Aes128Gcm | Aes256Gcm | Chacha20Poly1305

fun key_len :: "AeadAlgorithm \<Rightarrow> nat" where
  "key_len Aes128Gcm = 16"
| "key_len Aes256Gcm = 32"
| "key_len Chacha20Poly1305 = 32"

definition nonce_len :: "AeadAlgorithm \<Rightarrow> nat" where
  "nonce_len a = 12"

definition tag_len :: "AeadAlgorithm \<Rightarrow> nat" where
  "tag_len a = 16"

definition aead_from_cipher_suite :: "u16 \<Rightarrow> AeadAlgorithm option" where
  "aead_from_cipher_suite suite =
     (if suite = 0x1301 then Some Aes128Gcm else if suite = 0x1302 then Some Aes256Gcm
      else if suite = 0x1303 then Some Chacha20Poly1305 else None)"

datatype HkdfAlgorithm = Hkdf_Sha256 | Hkdf_Sha384

fun hkdf_hash_len :: "HkdfAlgorithm \<Rightarrow> nat" where
  "hkdf_hash_len Hkdf_Sha256 = 32"
| "hkdf_hash_len Hkdf_Sha384 = 48"

datatype PrfAlgorithm = Prf_Sha256 | Prf_Sha384

fun prf_hash_len :: "PrfAlgorithm \<Rightarrow> nat" where
  "prf_hash_len Prf_Sha256 = 32"
| "prf_hash_len Prf_Sha384 = 48"

text \<open>The HMAC algorithms of aws-lc-rs that the engine names, with their output lengths.\<close>

datatype hmac_alg = HMAC_SHA1 | HMAC_SHA256 | HMAC_SHA384

fun hmac_len :: "hmac_alg \<Rightarrow> nat" where
  "hmac_len HMAC_SHA1 = 20"
| "hmac_len HMAC_SHA256 = 32"
| "hmac_len HMAC_SHA384 = 48"

fun prf_hmac_algorithm :: "PrfAlgorithm \<Rightarrow> hmac_alg" where
  "prf_hmac_algorithm Prf_Sha256 = HMAC_SHA256"
| "prf_hmac_algorithm Prf_Sha384 = HMAC_SHA384"

subsection \<open>Primitives\<close>

text \<open>
  \<open>co_key_ok\<close> tells whether \<^verbatim>\<open>UnboundKey::new\<close> accepts a key; sealing and opening take algorithm, key, nonce, associated
  data and text. \<open>co_fill\<close> draws random bytes from a generator state. \<open>co_expand_ok\<close> tells whether
  \<^verbatim>\<open>Prk::expand\<close> accepts the length, \<open>co_expand\<close> is \<^verbatim>\<open>Okm::fill\<close>.
\<close>

record 'r crypto_ops =
  co_key_ok :: "AeadAlgorithm \<Rightarrow> bytes \<Rightarrow> bool"
  co_seal :: "AeadAlgorithm \<Rightarrow> bytes \<Rightarrow> bytes \<Rightarrow> bytes \<Rightarrow> bytes \<Rightarrow> bytes option"
  co_open :: "AeadAlgorithm \<Rightarrow> bytes \<Rightarrow> bytes \<Rightarrow> bytes \<Rightarrow> bytes \<Rightarrow> bytes option"
  co_hmac :: "hmac_alg \<Rightarrow> bytes \<Rightarrow> bytes \<Rightarrow> bytes"
  co_hmac_verify :: "hmac_alg \<Rightarrow> bytes \<Rightarrow> bytes \<Rightarrow> bytes \<Rightarrow> bool"
  co_cbc_encrypt :: "bytes \<Rightarrow> bytes \<Rightarrow> bytes \<Rightarrow> bytes option"
  co_cbc_decrypt :: "bytes \<Rightarrow> bytes \<Rightarrow> bytes \<Rightarrow> bytes option"
  co_fill :: "nat \<Rightarrow> 'r \<Rightarrow> bytes option \<times> 'r"
  co_digest :: "HkdfAlgorithm \<Rightarrow> bytes \<Rightarrow> bytes"
  co_extract :: "HkdfAlgorithm \<Rightarrow> bytes \<Rightarrow> bytes \<Rightarrow> bytes"
  co_expand_ok :: "HkdfAlgorithm \<Rightarrow> nat \<Rightarrow> bool"
  co_expand :: "HkdfAlgorithm \<Rightarrow> bytes \<Rightarrow> bytes \<Rightarrow> nat \<Rightarrow> bytes option"

definition aead_ok :: "'r crypto_ops \<Rightarrow> bool" where
  "aead_ok ops \<longleftrightarrow>
     (\<forall>alg k. co_key_ok ops alg k \<longleftrightarrow> length k = key_len alg) \<and>
     (\<forall>alg k n a p. length k = key_len alg \<and> length n = 12 \<and> length p < 2 ^ 32 \<longrightarrow>
        (\<exists>c. co_seal ops alg k n a p = Some c \<and> length c = length p + 16 \<and> co_open ops alg k n a c = Some p))"

definition hmac_ok :: "'r crypto_ops \<Rightarrow> bool" where
  "hmac_ok ops \<longleftrightarrow>
     (\<forall>h k m. length (co_hmac ops h k m) = hmac_len h) \<and>
     (\<forall>h k m t. co_hmac_verify ops h k m t \<longleftrightarrow> t = co_hmac ops h k m)"

definition cbc_ok :: "'r crypto_ops \<Rightarrow> bool" where
  "cbc_ok ops \<longleftrightarrow>
     (\<forall>k iv d. (length k = 16 \<or> length k = 32) \<and> length iv = 16 \<and> 16 dvd length d \<longrightarrow>
        (\<exists>c. co_cbc_encrypt ops k iv d = Some c \<and> length c = length d \<and> co_cbc_decrypt ops k iv c = Some d))"

definition rng_ok :: "'r crypto_ops \<Rightarrow> bool" where
  "rng_ok ops \<longleftrightarrow> (\<forall>n r. \<exists>b r'. co_fill ops n r = (Some b, r') \<and> length b = n)"

definition hkdf_ok :: "'r crypto_ops \<Rightarrow> bool" where
  "hkdf_ok ops \<longleftrightarrow>
     (\<forall>alg n. co_expand_ok ops alg n \<longleftrightarrow> n \<le> 255 * hkdf_hash_len alg) \<and>
     (\<forall>alg prk info n. n \<le> 255 * hkdf_hash_len alg \<longrightarrow>
        (\<exists>out. co_expand ops alg prk info n = Some out \<and> length out = n))"

definition crypto_ok :: "'r crypto_ops \<Rightarrow> bool" where
  "crypto_ok ops \<longleftrightarrow> aead_ok ops \<and> hmac_ok ops \<and> cbc_ok ops \<and> rng_ok ops \<and> hkdf_ok ops"

lemma aead_key: "aead_ok ops \<Longrightarrow> co_key_ok ops alg k \<longleftrightarrow> length k = key_len alg"
  by (simp add: aead_ok_def)

lemma aead_seal:
  assumes "aead_ok ops" "length k = key_len alg" "length n = 12" "length p < 2 ^ 32"
  obtains c where "co_seal ops alg k n a p = Some c" "length c = length p + 16" "co_open ops alg k n a c = Some p"
  using assms unfolding aead_ok_def by blast

lemma hmac_facts:
  "hmac_ok ops \<Longrightarrow> length (co_hmac ops h k m) = hmac_len h"
  "hmac_ok ops \<Longrightarrow> co_hmac_verify ops h k m t \<longleftrightarrow> t = co_hmac ops h k m"
  by (simp_all add: hmac_ok_def)

lemma cbc_encrypt_ok:
  assumes "cbc_ok ops" "length k = 16 \<or> length k = 32" "length iv = 16" "16 dvd length d"
  obtains c where "co_cbc_encrypt ops k iv d = Some c" "length c = length d" "co_cbc_decrypt ops k iv c = Some d"
  using assms unfolding cbc_ok_def by blast

lemma rng_fill:
  assumes "rng_ok ops"
  obtains b r' where "co_fill ops n r = (Some b, r')" "length b = n"
  using assms unfolding rng_ok_def by blast

lemma hkdf_facts:
  assumes "hkdf_ok ops"
  shows "co_expand_ok ops alg n \<longleftrightarrow> n \<le> 255 * hkdf_hash_len alg"
    "n \<le> 255 * hkdf_hash_len alg \<Longrightarrow> \<exists>out. co_expand ops alg prk info n = Some out \<and> length out = n"
  using assms unfolding hkdf_ok_def by blast+

text \<open>
  The instance: not secure, but its derived bytes depend on all inputs, so that different salts, secrets and labels give
  different keys. \<open>toy_stream\<close> continues a polynomial hash of the input.
\<close>

definition toy_stream :: "bytes \<Rightarrow> nat \<Rightarrow> bytes" where
  "toy_stream m n = map (\<lambda>i. fold (\<lambda>b acc. acc * 5 + b) m (word_of_nat i)) [0..<n]"

lemma length_toy_stream [simp]: "length (toy_stream m n) = n"
  by (simp add: toy_stream_def)

definition toy_crypto :: "unit crypto_ops" where
  "toy_crypto =
     \<lparr>co_key_ok = (\<lambda>alg k. length k = key_len alg),
      co_seal = (\<lambda>alg k n a p. Some (p @ replicate 16 0)),
      co_open = (\<lambda>alg k n a c. if length c < 16 then None else Some (take (length c - 16) c)),
      co_hmac = (\<lambda>h k m. replicate (hmac_len h) 0),
      co_hmac_verify = (\<lambda>h k m t. t = replicate (hmac_len h) 0),
      co_cbc_encrypt = (\<lambda>k iv d. Some d),
      co_cbc_decrypt = (\<lambda>k iv d. Some d),
      co_fill = (\<lambda>n r. (Some (replicate n 0), r)),
      co_digest = (\<lambda>alg m. toy_stream m (hkdf_hash_len alg)),
      co_extract = (\<lambda>alg salt ikm. toy_stream (salt @ ikm) (hkdf_hash_len alg)),
      co_expand_ok = (\<lambda>alg n. n \<le> 255 * hkdf_hash_len alg),
      co_expand = (\<lambda>alg prk info n. Some (toy_stream (prk @ info) n))\<rparr>"

lemma toy_crypto_ok: "crypto_ok toy_crypto"
  by (simp add: crypto_ok_def aead_ok_def hmac_ok_def cbc_ok_def rng_ok_def hkdf_ok_def toy_crypto_def)

end
