(* ===== verification/Tls_Kdf.thy ===== *)
theory Tls_Kdf
  imports Tls_Crypto
begin

text \<open>
  Key derivation: the TLS 1.2 pseudo-random function and key block of \<^verbatim>\<open>lktls/src/crypto/prf.rs\<close>, the
  TLS 1.3 HKDF labels and secrets of \<^verbatim>\<open>hkdf.rs\<close>, and the QUIC packet keys of \<^verbatim>\<open>quic.rs\<close>. \<open>None\<close> stands for a
  loop that does not end or a slice out of range; both are shown not to happen.
\<close>

type_synonym 'a tls_result = "TlsError + 'a"

subsection \<open>The TLS 1.2 PRF\<close>

partial_function (option) p_hash_loop ::
  "(bytes \<Rightarrow> bytes) \<Rightarrow> bytes \<Rightarrow> nat \<Rightarrow> bytes \<Rightarrow> bytes \<Rightarrow> bytes option" where
  "p_hash_loop sign seed output_len result a =
     (if length result < output_len then
        let p_block = sign (a @ seed);
            remaining = output_len - length result;
            to_copy = min remaining (length p_block)
        in p_hash_loop sign seed output_len (result @ take to_copy p_block) (sign a)
      else Some result)"

definition p_hash :: "'r crypto_ops \<Rightarrow> PrfAlgorithm \<Rightarrow> bytes \<Rightarrow> bytes \<Rightarrow> nat \<Rightarrow> bytes tls_result option" where
  "p_hash ops algorithm secret seed output_len =
     (let sign = co_hmac ops (prf_hmac_algorithm algorithm) secret
      in map_option Inr (p_hash_loop sign seed output_len [] (sign seed)))"

definition tls_prf :: "'r crypto_ops \<Rightarrow> PrfAlgorithm \<Rightarrow> bytes \<Rightarrow> bytes \<Rightarrow> bytes \<Rightarrow> nat \<Rightarrow> bytes tls_result option" where
  "tls_prf ops algorithm secret label seed output_len = p_hash ops algorithm secret (label @ seed) output_len"

definition compute_master_secret ::
  "'r crypto_ops \<Rightarrow> PrfAlgorithm \<Rightarrow> bytes \<Rightarrow> bytes \<Rightarrow> bytes \<Rightarrow> bytes tls_result option" where
  "compute_master_secret ops algorithm pre_master_secret client_random server_random =
     tls_prf ops algorithm pre_master_secret (ascii ''master secret'') (client_random @ server_random) 48"

definition compute_extended_master_secret ::
  "'r crypto_ops \<Rightarrow> PrfAlgorithm \<Rightarrow> bytes \<Rightarrow> bytes \<Rightarrow> bytes tls_result option" where
  "compute_extended_master_secret ops algorithm pre_master_secret session_hash =
     tls_prf ops algorithm pre_master_secret (ascii ''extended master secret'') session_hash 48"

definition compute_verify_data ::
  "'r crypto_ops \<Rightarrow> PrfAlgorithm \<Rightarrow> bytes \<Rightarrow> bytes \<Rightarrow> bytes \<Rightarrow> bytes tls_result option" where
  "compute_verify_data ops algorithm master_secret finished_label handshake_hash =
     tls_prf ops algorithm master_secret finished_label handshake_hash 12"

record KeyBlock =
  kb_client_write_mac_key :: bytes
  kb_server_write_mac_key :: bytes
  kb_client_write_key :: bytes
  kb_server_write_key :: bytes
  kb_client_write_iv :: bytes
  kb_server_write_iv :: bytes

text \<open>\<^verbatim>\<open>&xs[a..b]\<close>; out of range it panics.\<close>

definition slice :: "'a list \<Rightarrow> nat \<Rightarrow> nat \<Rightarrow> 'a list option" where
  "slice xs a b = (if a \<le> b \<and> b \<le> length xs then Some (take (b - a) (drop a xs)) else None)"

definition split_key_block :: "bytes \<Rightarrow> nat \<Rightarrow> nat \<Rightarrow> nat \<Rightarrow> KeyBlock option" where
  "split_key_block bs mac_key_len enc_key_len iv_len = do {
     let offset = 0;
     client_write_mac_key \<leftarrow> slice bs offset (offset + mac_key_len);
     let offset = offset + mac_key_len;
     server_write_mac_key \<leftarrow> slice bs offset (offset + mac_key_len);
     let offset = offset + mac_key_len;
     client_write_key \<leftarrow> slice bs offset (offset + enc_key_len);
     let offset = offset + enc_key_len;
     server_write_key \<leftarrow> slice bs offset (offset + enc_key_len);
     let offset = offset + enc_key_len;
     client_write_iv \<leftarrow> slice bs offset (offset + iv_len);
     let offset = offset + iv_len;
     server_write_iv \<leftarrow> slice bs offset (offset + iv_len);
     Some \<lparr>kb_client_write_mac_key = client_write_mac_key, kb_server_write_mac_key = server_write_mac_key,
           kb_client_write_key = client_write_key, kb_server_write_key = server_write_key,
           kb_client_write_iv = client_write_iv, kb_server_write_iv = server_write_iv\<rparr>
   }"

definition expand_key_block ::
  "'r crypto_ops \<Rightarrow> PrfAlgorithm \<Rightarrow> bytes \<Rightarrow> bytes \<Rightarrow> bytes \<Rightarrow> nat \<Rightarrow> nat \<Rightarrow> nat \<Rightarrow> KeyBlock tls_result option" where
  "expand_key_block ops algorithm master_secret server_random client_random mac_key_len enc_key_len iv_len =
     (let total_len = 2 * mac_key_len + 2 * enc_key_len + 2 * iv_len in do {
        r \<leftarrow> tls_prf ops algorithm master_secret (ascii ''key expansion'') (server_random @ client_random) total_len;
        (case r of
           Inl e \<Rightarrow> Some (Inl e)
         | Inr key_block_bytes \<Rightarrow> map_option Inr (split_key_block key_block_bytes mac_key_len enc_key_len iv_len))
      })"

subsection \<open>HKDF\<close>

record HkdfPrk =
  prk_key :: bytes
  prk_algorithm :: HkdfAlgorithm

definition build_hkdf_label :: "bytes \<Rightarrow> bytes \<Rightarrow> nat \<Rightarrow> bytes" where
  "build_hkdf_label label context length' =
     (let full_label = ascii ''tls13 '' @ label in
      u16_to_be (word_of_nat length') @ [word_of_nat (length full_label)] @ full_label @
      [word_of_nat (length context)] @ context)"

definition hkdf_expand_label ::
  "'r crypto_ops \<Rightarrow> HkdfAlgorithm \<Rightarrow> bytes \<Rightarrow> bytes \<Rightarrow> bytes \<Rightarrow> nat \<Rightarrow> bytes tls_result" where
  "hkdf_expand_label ops algorithm secret label context length' =
     (if \<not> co_expand_ok ops algorithm length' then Inl (TE_CryptoError ''HKDF-Expand-Label failed'')
      else case co_expand ops algorithm secret (build_hkdf_label label context length') length' of
             None \<Rightarrow> Inl (TE_CryptoError ''HKDF-Expand fill failed'')
           | Some out \<Rightarrow> Inr out)"

definition derive_secret :: "'r crypto_ops \<Rightarrow> HkdfAlgorithm \<Rightarrow> bytes \<Rightarrow> bytes \<Rightarrow> bytes \<Rightarrow> bytes tls_result" where
  "derive_secret ops algorithm secret label transcript_hash =
     hkdf_expand_label ops algorithm secret label transcript_hash (hkdf_hash_len algorithm)"

definition expand_label :: "'r crypto_ops \<Rightarrow> HkdfPrk \<Rightarrow> bytes \<Rightarrow> bytes \<Rightarrow> nat \<Rightarrow> bytes tls_result" where
  "expand_label ops prk label context length' =
     hkdf_expand_label ops (prk_algorithm prk) (prk_key prk) label context length'"

definition prk_derive_secret :: "'r crypto_ops \<Rightarrow> HkdfPrk \<Rightarrow> bytes \<Rightarrow> bytes \<Rightarrow> bytes tls_result" where
  "prk_derive_secret ops prk label transcript_hash =
     expand_label ops prk label transcript_hash (hkdf_hash_len (prk_algorithm prk))"

definition hkdf_extract :: "'r crypto_ops \<Rightarrow> HkdfAlgorithm \<Rightarrow> bytes \<Rightarrow> bytes \<Rightarrow> HkdfPrk tls_result" where
  "hkdf_extract ops algorithm salt ikm =
     Inr \<lparr>prk_key = co_extract ops algorithm salt ikm, prk_algorithm = algorithm\<rparr>"

definition compute_empty_hash :: "'r crypto_ops \<Rightarrow> HkdfAlgorithm \<Rightarrow> bytes" where
  "compute_empty_hash ops algorithm = co_digest ops algorithm []"

definition derive_next :: "'r crypto_ops \<Rightarrow> HkdfPrk \<Rightarrow> bytes \<Rightarrow> HkdfPrk tls_result" where
  "derive_next ops prk ikm =
     (case expand_label ops prk (ascii ''derived'') (compute_empty_hash ops (prk_algorithm prk))
             (hkdf_hash_len (prk_algorithm prk)) of
        Inl e \<Rightarrow> Inl e
      | Inr salt_bytes \<Rightarrow> hkdf_extract ops (prk_algorithm prk) salt_bytes ikm)"

subsection \<open>QUIC keys\<close>

definition QUIC_V1_INITIAL_SALT :: bytes where
  "QUIC_V1_INITIAL_SALT =
     [0x38, 0x76, 0x2c, 0xf7, 0xf5, 0x59, 0x34, 0xb3, 0x4d, 0x17, 0x9a, 0xe6, 0xa4, 0xc8, 0x0c, 0xad,
      0xcc, 0xbb, 0x7f, 0x0a]"

datatype Side = Client | Server

record PacketKeys =
  pk_key :: bytes
  pk_iv :: bytes
  pk_hp_key :: bytes

record QuicKeys =
  qk_local_secret :: bytes
  qk_remote_secret :: bytes
  qk_local :: PacketKeys
  qk_remote :: PacketKeys
  qk_hkdf_algorithm :: HkdfAlgorithm
  qk_aead_algorithm :: AeadAlgorithm

definition result_bind :: "'a tls_result \<Rightarrow> ('a \<Rightarrow> 'b tls_result) \<Rightarrow> 'b tls_result" where
  "result_bind r f = (case r of Inl e \<Rightarrow> Inl e | Inr x \<Rightarrow> f x)"

definition derive_packet_keys ::
  "'r crypto_ops \<Rightarrow> bytes \<Rightarrow> HkdfAlgorithm \<Rightarrow> AeadAlgorithm \<Rightarrow> PacketKeys tls_result" where
  "derive_packet_keys ops secret hkdf_algorithm aead_algorithm =
     result_bind (hkdf_expand_label ops hkdf_algorithm secret (ascii ''quic key'') [] (key_len aead_algorithm)) (\<lambda>key.
     result_bind (hkdf_expand_label ops hkdf_algorithm secret (ascii ''quic iv'') [] (nonce_len aead_algorithm)) (\<lambda>iv.
     result_bind (hkdf_expand_label ops hkdf_algorithm secret (ascii ''quic hp'') [] (key_len aead_algorithm)) (\<lambda>hp_key.
     Inr \<lparr>pk_key = key, pk_iv = iv, pk_hp_key = hp_key\<rparr>)))"

definition derive_initial_keys :: "'r crypto_ops \<Rightarrow> bytes \<Rightarrow> Side \<Rightarrow> QuicKeys tls_result" where
  "derive_initial_keys ops dst_cid side =
     (let hkdf_algorithm = Hkdf_Sha256; aead_algorithm = Aes128Gcm in
      result_bind (hkdf_extract ops hkdf_algorithm QUIC_V1_INITIAL_SALT dst_cid) (\<lambda>initial_secret.
      result_bind (expand_label ops initial_secret (ascii ''client in'') [] (hkdf_hash_len hkdf_algorithm)) (\<lambda>client_secret.
      result_bind (expand_label ops initial_secret (ascii ''server in'') [] (hkdf_hash_len hkdf_algorithm)) (\<lambda>server_secret.
      result_bind (derive_packet_keys ops client_secret hkdf_algorithm aead_algorithm) (\<lambda>client.
      result_bind (derive_packet_keys ops server_secret hkdf_algorithm aead_algorithm) (\<lambda>server.
      let (local_secret, remote_secret, local, remote) =
            (case side of Client \<Rightarrow> (client_secret, server_secret, client, server)
             | Server \<Rightarrow> (server_secret, client_secret, server, client))
      in Inr \<lparr>qk_local_secret = local_secret, qk_remote_secret = remote_secret, qk_local = local, qk_remote = remote,
              qk_hkdf_algorithm = hkdf_algorithm, qk_aead_algorithm = aead_algorithm\<rparr>))))))"

subsection \<open>The PRF of RFC 5246\<close>

text \<open>\<open>rfc_a\<close> is \<open>A(i)\<close>, \<open>rfc_blocks\<close> the first \<open>n\<close> blocks of \<open>P_hash\<close>.\<close>

primrec rfc_a :: "(bytes \<Rightarrow> bytes) \<Rightarrow> bytes \<Rightarrow> nat \<Rightarrow> bytes" where
  "rfc_a sign seed 0 = seed"
| "rfc_a sign seed (Suc i) = sign (rfc_a sign seed i)"

definition rfc_blocks :: "(bytes \<Rightarrow> bytes) \<Rightarrow> bytes \<Rightarrow> nat \<Rightarrow> bytes" where
  "rfc_blocks sign seed n = concat (map (\<lambda>i. sign (rfc_a sign seed (Suc i) @ seed)) [0..<n])"

definition rfc_prf :: "(bytes \<Rightarrow> bytes) \<Rightarrow> bytes \<Rightarrow> bytes \<Rightarrow> nat \<Rightarrow> bytes" where
  "rfc_prf sign label seed n = take n (rfc_blocks sign (label @ seed) n)"

lemma length_rfc_blocks:
  assumes "\<And>m. length (sign m) = h"
  shows "length (rfc_blocks sign seed n) = n * h"
  by (induction n) (simp_all add: rfc_blocks_def assms)

lemma rfc_blocks_Suc:
  "rfc_blocks sign seed (Suc n) = rfc_blocks sign seed n @ sign (rfc_a sign seed (Suc n) @ seed)"
  by (simp add: rfc_blocks_def)

lemma rfc_blocks_prefix:
  "m \<le> n \<Longrightarrow> \<exists>zs. rfc_blocks sign seed n = rfc_blocks sign seed m @ zs"
proof (induction n)
  case (Suc n)
  then show ?case by (cases "m = Suc n") (auto simp: rfc_blocks_Suc)
qed simp

lemma p_hash_loop_spec:
  assumes h: "\<And>m. length (sign m) = h" "0 < h" and "i * h < n + h"
  shows "p_hash_loop sign seed n (take n (rfc_blocks sign seed i)) (rfc_a sign seed (Suc i)) = Some (take n (rfc_blocks sign seed n))"
  using assms(3)
proof (induction "n + h - i * h" arbitrary: i rule: less_induct)
  case less
  let ?r = "take n (rfc_blocks sign seed i)"
  have len: "length (rfc_blocks sign seed j) = j * h" for j by (rule length_rfc_blocks) (rule h(1))
  show ?case
  proof (cases "i * h < n")
    case False
    have "i \<le> n"
    proof (rule ccontr)
      assume "\<not> i \<le> n"
      then have "(n + 1) * h \<le> i * h" by (intro mult_le_mono1) simp
      moreover have "n \<le> n * h" using h(2) by simp
      ultimately show False using less.prems by simp
    qed
    then obtain zs where "rfc_blocks sign seed n = rfc_blocks sign seed i @ zs" using rfc_blocks_prefix by blast
    then have "take n (rfc_blocks sign seed n) = ?r" using False len [of i] by simp
    moreover have "\<not> length ?r < n" using False len by simp
    ultimately show ?thesis by (subst p_hash_loop.simps) simp
  next
    case True
    have r: "?r = rfc_blocks sign seed i" using True len [of i] by simp
    have step: "?r @ take (min (n - length ?r) (length (sign (rfc_a sign seed (Suc i) @ seed)))) (sign (rfc_a sign seed (Suc i) @ seed)) =
        take n (rfc_blocks sign seed (Suc i))"
      unfolding r rfc_blocks_Suc using True len [of i] h(1) by (simp add: min_def)
    have "p_hash_loop sign seed n (take n (rfc_blocks sign seed (Suc i))) (rfc_a sign seed (Suc (Suc i))) =
        Some (take n (rfc_blocks sign seed n))"
      using True h(2) by (intro less.hyps) auto
    then show ?thesis
      using True len [of i] by (subst p_hash_loop.simps) (simp only: Let_def step rfc_a.simps(2) [symmetric], simp)
  qed
qed

lemma prf_rfc:
  assumes "hmac_ok ops"
  shows "tls_prf ops alg secret label seed n =
    Some (Inr (rfc_prf (co_hmac ops (prf_hmac_algorithm alg) secret) label seed n))"
proof -
  have h: "length (co_hmac ops (prf_hmac_algorithm alg) secret m) = hmac_len (prf_hmac_algorithm alg)" for m
    by (rule hmac_facts(1) [OF assms])
  have pos: "0 < hmac_len (prf_hmac_algorithm alg)" by (cases alg) simp_all
  show ?thesis
    using p_hash_loop_spec [of "co_hmac ops (prf_hmac_algorithm alg) secret", OF h pos, of 0 n "label @ seed"] pos
    by (simp add: tls_prf_def p_hash_def rfc_prf_def rfc_blocks_def Let_def)
qed

lemma length_rfc_prf:
  assumes "hmac_ok ops"
  shows "length (rfc_prf (co_hmac ops (prf_hmac_algorithm alg) secret) label seed n) = n"
proof -
  have "length (rfc_blocks (co_hmac ops (prf_hmac_algorithm alg) secret) (label @ seed) n) = n * hmac_len (prf_hmac_algorithm alg)"
    by (rule length_rfc_blocks) (rule hmac_facts(1) [OF assms])
  moreover have "n \<le> n * hmac_len (prf_hmac_algorithm alg)" by (cases alg) simp_all
  ultimately show ?thesis by (simp add: rfc_prf_def)
qed

subsection \<open>Labels\<close>

lemma ascii_tls13 [simp]: "length (ascii ''tls13 '') = 6"
  by (simp add: ascii_def)

lemma byte_length: "n < 256 \<Longrightarrow> n' < 256 \<Longrightarrow> (word_of_nat n :: u8) = word_of_nat n' \<longleftrightarrow> n = n'"
  by (simp add: word_of_nat_eq_iff take_bit_eq_mod)

lemma u16_to_be_nat: "n < 65536 \<Longrightarrow> n' < 65536 \<Longrightarrow> u16_to_be (word_of_nat n) = u16_to_be (word_of_nat n') \<longleftrightarrow> n = n'"
  by (simp add: u16_to_be_inject word_of_nat_eq_iff take_bit_eq_mod)

subsection \<open>Properties\<close>

text \<open>
  C25. The TLS 1.2 key block is the one of RFC 5246: the pseudo-random loop returns, its output is the
  first bytes of the \<open>P_hash\<close> stream, no slice is out of range, and the six keys have the
  requested lengths and are, in the order of the RFC, exactly that output.
\<close>

theorem key_block_rfc5246:
  assumes "hmac_ok ops"
  shows "\<exists>kb. expand_key_block ops alg ms server_random client_random m k v = Some (Inr kb) \<and>
    kb_client_write_mac_key kb @ kb_server_write_mac_key kb @ kb_client_write_key kb @ kb_server_write_key kb @
      kb_client_write_iv kb @ kb_server_write_iv kb =
      rfc_prf (co_hmac ops (prf_hmac_algorithm alg) ms) (ascii ''key expansion'') (server_random @ client_random)
        (2 * m + 2 * k + 2 * v) \<and>
    map length [kb_client_write_mac_key kb, kb_server_write_mac_key kb, kb_client_write_key kb, kb_server_write_key kb,
      kb_client_write_iv kb, kb_server_write_iv kb] = [m, m, k, k, v, v]"
proof -
  let ?bs = "rfc_prf (co_hmac ops (prf_hmac_algorithm alg) ms) (ascii ''key expansion'') (server_random @ client_random)
    (2 * m + 2 * k + 2 * v)"
  have len: "length ?bs = 2 * m + 2 * k + 2 * v" by (rule length_rfc_prf [OF assms])
  obtain a r1 where a: "?bs = a @ r1" "length a = m" using take_drop_split [of m ?bs] len by auto
  obtain b r2 where b: "r1 = b @ r2" "length b = m" using take_drop_split [of m r1] len a by auto
  obtain c r3 where c: "r2 = c @ r3" "length c = k" using take_drop_split [of k r2] len a b by auto
  obtain d r4 where d: "r3 = d @ r4" "length d = k" using take_drop_split [of k r3] len a b c by auto
  obtain e f where e: "r4 = e @ f" "length e = v" using take_drop_split [of v r4] len a b c d by auto
  have bs: "?bs = a @ b @ c @ d @ e @ f" "map length [a, b, c, d, e, f] = [m, m, k, k, v, v]"
    using len a b c d e by simp_all
  have "split_key_block ?bs m k v =
      Some \<lparr>kb_client_write_mac_key = a, kb_server_write_mac_key = b, kb_client_write_key = c, kb_server_write_key = d,
            kb_client_write_iv = e, kb_server_write_iv = f\<rparr>"
    unfolding bs(1) using bs(2) by (simp add: split_key_block_def slice_def Let_def)
  then show ?thesis
    using bs by (simp add: expand_key_block_def prf_rfc [OF assms] Let_def)
qed

theorem key_block_rfc5246_witness:
  "hmac_ok toy_crypto \<and>
   (\<exists>kb. expand_key_block toy_crypto Prf_Sha256 [1] [2] [3] 20 16 4 = Some (Inr kb) \<and>
    kb_client_write_mac_key kb @ kb_server_write_mac_key kb @ kb_client_write_key kb @ kb_server_write_key kb @
      kb_client_write_iv kb @ kb_server_write_iv kb =
      rfc_prf (co_hmac toy_crypto HMAC_SHA256 [1]) (ascii ''key expansion'') [2, 3] 80 \<and>
    map length [kb_client_write_mac_key kb, kb_server_write_mac_key kb, kb_client_write_key kb, kb_server_write_key kb,
      kb_client_write_iv kb, kb_server_write_iv kb] = [20, 20, 16, 16, 4, 4])"
proof -
  have "hmac_ok toy_crypto" using toy_crypto_ok by (simp add: crypto_ok_def)
  then show ?thesis using key_block_rfc5246 [of toy_crypto Prf_Sha256 "[1]" "[2]" "[3]" 20 16 4] by simp
qed

text \<open>
  C26. HKDF labels separate domains: within the limits of the format (a label of at most 249 bytes, a context of at most
  255 bytes, an output of fewer than 65536 bytes) two derivations have the same HKDF info only when label,
  context and output length agree.
\<close>

theorem hkdf_labels_injective:
  assumes "length label \<le> 249" "length label' \<le> 249" "length context \<le> 255" "length context' \<le> 255"
    "n < 65536" "n' < 65536" "build_hkdf_label label context n = build_hkdf_label label' context' n'"
  shows "label = label' \<and> context = context' \<and> n = n'"
proof -
  have eq: "u16_to_be (word_of_nat n) = u16_to_be (word_of_nat n')"
    "(word_of_nat (6 + length label) :: u8) = word_of_nat (6 + length label')"
    "label @ word_of_nat (length context) # context = label' @ word_of_nat (length context') # context'"
    using assms(7) by (simp_all add: build_hkdf_label_def Let_def)
  have "n = n'" using eq(1) u16_to_be_nat [OF assms(5,6)] by simp
  moreover have "length label = length label'" using eq(2) byte_length [of "6 + length label" "6 + length label'"] assms(1,2) by simp
  ultimately show ?thesis using eq(3) by simp
qed

theorem hkdf_labels_injective_witness:
  "length (ascii ''c hs traffic'') \<le> 249 \<and> build_hkdf_label (ascii ''c hs traffic'') [7] 32 = build_hkdf_label (ascii ''c hs traffic'') [7] 32 \<and>
   build_hkdf_label (ascii ''c hs traffic'') [7] 32 \<noteq> build_hkdf_label (ascii ''s hs traffic'') [7] 32"
  using hkdf_labels_injective [of "ascii ''c hs traffic''" "ascii ''s hs traffic''" "[7]" "[7]" 32 32]
  by (auto simp: ascii_def)

lemma expand_label_ok:
  assumes "hkdf_ok ops" "n \<le> 255 * hkdf_hash_len alg"
  shows "\<exists>out. hkdf_expand_label ops alg secret label context n = Inr out \<and> length out = n"
  using hkdf_facts(1) [OF assms(1), of alg n] hkdf_facts(2) [OF assms, of secret "build_hkdf_label label context n"] assms(2)
  by (auto simp: hkdf_expand_label_def)

subsection \<open>The Initial keys of RFC 9001\<close>

text \<open>
  The specification: section 5.2 with the constants as the RFC prints them, the salt and, in appendix A.1, the
  \<^verbatim>\<open>HkdfLabel\<close> structures of the five derivations, byte by byte in hexadecimal.
\<close>

fun nibble :: "char \<Rightarrow> nat" where
  "nibble c = (if c \<in> set ''abcdef'' then of_char c - 87 else of_char c - 48)"

fun hex_bytes :: "string \<Rightarrow> bytes" where
  "hex_bytes (a # b # cs) = word_of_nat (16 * nibble a + nibble b) # hex_bytes cs"
| "hex_bytes _ = []"

definition rfc9001_salt :: bytes where
  "rfc9001_salt = hex_bytes ''38762cf7f55934b34d179ae6a4c80cadccbb7f0a''"

definition rfc9001_client_in :: bytes where
  "rfc9001_client_in = hex_bytes ''00200f746c73313320636c69656e7420696e00''"

definition rfc9001_server_in :: bytes where
  "rfc9001_server_in = hex_bytes ''00200f746c7331332073657276657220696e00''"

definition rfc9001_secret :: "'r crypto_ops \<Rightarrow> bytes \<Rightarrow> bytes \<Rightarrow> bytes option" where
  "rfc9001_secret ops dst_cid info =
     co_expand ops Hkdf_Sha256 (co_extract ops Hkdf_Sha256 rfc9001_salt dst_cid) info 32"

definition rfc9001_keys :: "'r crypto_ops \<Rightarrow> bytes \<Rightarrow> PacketKeys option" where
  "rfc9001_keys ops secret = do {
     key \<leftarrow> co_expand ops Hkdf_Sha256 secret (hex_bytes ''00100e746c7331332071756963206b657900'') 16;
     iv \<leftarrow> co_expand ops Hkdf_Sha256 secret (hex_bytes ''000c0d746c733133207175696320697600'') 12;
     hp \<leftarrow> co_expand ops Hkdf_Sha256 secret (hex_bytes ''00100d746c733133207175696320687000'') 16;
     Some \<lparr>pk_key = key, pk_iv = iv, pk_hp_key = hp\<rparr>
   }"

lemma rfc9001_labels:
  "build_hkdf_label (ascii ''client in'') [] 32 = rfc9001_client_in"
  "build_hkdf_label (ascii ''server in'') [] 32 = rfc9001_server_in"
  "build_hkdf_label (ascii ''quic key'') [] 16 = hex_bytes ''00100e746c7331332071756963206b657900''"
  "build_hkdf_label (ascii ''quic iv'') [] 12 = hex_bytes ''000c0d746c733133207175696320697600''"
  "build_hkdf_label (ascii ''quic hp'') [] 16 = hex_bytes ''00100d746c733133207175696320687000''"
  by (simp_all add: build_hkdf_label_def ascii_def u16_to_be_def rfc9001_client_in_def rfc9001_server_in_def)

lemma rfc9001_salt: "QUIC_V1_INITIAL_SALT = rfc9001_salt"
  by (simp add: QUIC_V1_INITIAL_SALT_def rfc9001_salt_def)

lemma expand_label_some:
  assumes "hkdf_ok ops" "n \<le> 8160" "co_expand ops Hkdf_Sha256 secret (build_hkdf_label label context n) n = Some out"
  shows "hkdf_expand_label ops Hkdf_Sha256 secret label context n = Inr out"
  using assms hkdf_facts(1) [OF assms(1), of Hkdf_Sha256 n] by (simp add: hkdf_expand_label_def)

lemma derive_packet_keys_rfc:
  assumes "hkdf_ok ops"
  obtains ks where "rfc9001_keys ops secret = Some ks"
    "derive_packet_keys ops secret Hkdf_Sha256 Aes128Gcm = Inr ks"
    "map length [pk_key ks, pk_iv ks, pk_hp_key ks] = [16, 12, 16]"
proof -
  have ex: "n \<le> 8160 \<Longrightarrow> \<exists>out. co_expand ops Hkdf_Sha256 secret info n = Some out \<and> length out = n" for info n
    using hkdf_facts(2) [OF assms, of n Hkdf_Sha256] by simp
  obtain key where k: "co_expand ops Hkdf_Sha256 secret (build_hkdf_label (ascii ''quic key'') [] 16) 16 = Some key" "length key = 16"
    using ex [of 16] by fastforce
  obtain iv where v: "co_expand ops Hkdf_Sha256 secret (build_hkdf_label (ascii ''quic iv'') [] 12) 12 = Some iv" "length iv = 12"
    using ex [of 12] by fastforce
  obtain hp where h: "co_expand ops Hkdf_Sha256 secret (build_hkdf_label (ascii ''quic hp'') [] 16) 16 = Some hp" "length hp = 16"
    using ex [of 16] by fastforce
  note parts = k(1) v(1) h(1)
  note lab = expand_label_some [OF assms _ k(1)] expand_label_some [OF assms _ v(1)] expand_label_some [OF assms _ h(1)]
  have "derive_packet_keys ops secret Hkdf_Sha256 Aes128Gcm = Inr \<lparr>pk_key = key, pk_iv = iv, pk_hp_key = hp\<rparr>"
    by (simp add: derive_packet_keys_def result_bind_def nonce_len_def lab)
  moreover have "rfc9001_keys ops secret = Some \<lparr>pk_key = key, pk_iv = iv, pk_hp_key = hp\<rparr>"
    using parts unfolding rfc9001_labels by (simp add: rfc9001_keys_def)
  ultimately show ?thesis using that k(2) v(2) h(2) by simp
qed

text \<open>
  C27. QUIC Initial keys are those of RFC 9001: neither side's derivation fails, the client protects with the keys of the
  \<^verbatim>\<open>client in\<close> secret and opens with those of the \<^verbatim>\<open>server in\<close> secret, the server does the reverse, and secrets, keys, IVs
  and header protection keys are the outputs of HKDF-SHA256 on exactly the salt and the info bytes that the RFC prints,
  with the lengths that AES-128-GCM needs.
\<close>

theorem quic_initial_keys_rfc9001:
  assumes "hkdf_ok ops"
  shows "\<exists>cs ss ck sk.
    rfc9001_secret ops dst_cid rfc9001_client_in = Some cs \<and> rfc9001_keys ops cs = Some ck \<and>
    rfc9001_secret ops dst_cid rfc9001_server_in = Some ss \<and> rfc9001_keys ops ss = Some sk \<and>
    derive_initial_keys ops dst_cid Client =
      Inr \<lparr>qk_local_secret = cs, qk_remote_secret = ss, qk_local = ck, qk_remote = sk,
           qk_hkdf_algorithm = Hkdf_Sha256, qk_aead_algorithm = Aes128Gcm\<rparr> \<and>
    derive_initial_keys ops dst_cid Server =
      Inr \<lparr>qk_local_secret = ss, qk_remote_secret = cs, qk_local = sk, qk_remote = ck,
           qk_hkdf_algorithm = Hkdf_Sha256, qk_aead_algorithm = Aes128Gcm\<rparr> \<and>
    map length [cs, ss, pk_key ck, pk_iv ck, pk_hp_key ck, pk_key sk, pk_iv sk, pk_hp_key sk] = [32, 32, 16, 12, 16, 16, 12, 16]"
proof -
  let ?prk = "co_extract ops Hkdf_Sha256 rfc9001_salt dst_cid"
  have ex: "\<exists>out. co_expand ops Hkdf_Sha256 ?prk info 32 = Some out \<and> length out = 32" for info
    using hkdf_facts(2) [OF assms, of 32 Hkdf_Sha256] by simp
  obtain cs where cs: "co_expand ops Hkdf_Sha256 ?prk (build_hkdf_label (ascii ''client in'') [] 32) 32 = Some cs" "length cs = 32"
    using ex by blast
  obtain ss where ss: "co_expand ops Hkdf_Sha256 ?prk (build_hkdf_label (ascii ''server in'') [] 32) 32 = Some ss" "length ss = 32"
    using ex by blast
  note lab = expand_label_some [OF assms _ cs(1)] expand_label_some [OF assms _ ss(1)]
  have secrets: "rfc9001_secret ops dst_cid rfc9001_client_in = Some cs" "rfc9001_secret ops dst_cid rfc9001_server_in = Some ss"
    using cs(1) ss(1) unfolding rfc9001_labels by (simp_all add: rfc9001_secret_def)
  obtain ck where ck: "rfc9001_keys ops cs = Some ck" "derive_packet_keys ops cs Hkdf_Sha256 Aes128Gcm = Inr ck"
    "map length [pk_key ck, pk_iv ck, pk_hp_key ck] = [16, 12, 16]"
    using derive_packet_keys_rfc [OF assms] by blast
  obtain sk where sk: "rfc9001_keys ops ss = Some sk" "derive_packet_keys ops ss Hkdf_Sha256 Aes128Gcm = Inr sk"
    "map length [pk_key sk, pk_iv sk, pk_hp_key sk] = [16, 12, 16]"
    using derive_packet_keys_rfc [OF assms] by blast
  show ?thesis
    using secrets cs(2) ss(2) ck sk
    by (simp add: derive_initial_keys_def hkdf_extract_def expand_label_def result_bind_def rfc9001_salt lab)
qed

theorem quic_initial_keys_rfc9001_witness:
  "hkdf_ok toy_crypto \<and>
   (\<exists>c. derive_initial_keys toy_crypto [1, 2, 3, 4] Client = Inr c \<and>
     rfc9001_secret toy_crypto [1, 2, 3, 4] rfc9001_client_in = Some (qk_local_secret c) \<and>
     rfc9001_secret toy_crypto [1, 2, 3, 4] rfc9001_server_in = Some (qk_remote_secret c)) \<and>
   rfc9001_secret toy_crypto [1, 2, 3, 4] rfc9001_client_in \<noteq> rfc9001_secret toy_crypto [1, 2, 3, 4] rfc9001_server_in"
proof -
  have "hkdf_ok toy_crypto" using toy_crypto_ok by (simp add: crypto_ok_def)
  moreover have "rfc9001_secret toy_crypto [1, 2, 3, 4] rfc9001_client_in \<noteq> rfc9001_secret toy_crypto [1, 2, 3, 4] rfc9001_server_in"
    by code_simp
  ultimately show ?thesis using quic_initial_keys_rfc9001 [of toy_crypto "[1, 2, 3, 4]"] by auto
qed

end
