(* ===== verification/Tls_Cipher.thy ===== *)
theory Tls_Cipher
  imports Tls_Kdf
begin

text \<open>
  Record protection: the AEAD wrapper of \<^verbatim>\<open>lktls/src/crypto/aead.rs\<close> and the TLS 1.2 cipher suites and ciphers
  (GCM, ChaCha20-Poly1305, CBC with HMAC) of \<^verbatim>\<open>tls12_cipher.rs\<close>. A pair of keys that are built from the same bytes
  is kept as those bytes. The random IV of CBC is drawn from the generator state that the operations pass on.
\<close>

subsection \<open>AEAD\<close>

record Aead =
  ae_algorithm :: AeadAlgorithm
  ae_key :: bytes
  ae_iv :: bytes

definition aead_new :: "'r crypto_ops \<Rightarrow> AeadAlgorithm \<Rightarrow> bytes \<Rightarrow> bytes \<Rightarrow> Aead tls_result" where
  "aead_new ops algorithm key iv =
     (if length key \<noteq> key_len algorithm
      then Inl (TE_CryptoError (''AEAD key length mismatch: expected '' @ show_nat (key_len algorithm) @ '', got '' @
             show_nat (length key)))
      else if length iv \<noteq> 12
      then Inl (TE_CryptoError (''AEAD IV length mismatch: expected 12, got '' @ show_nat (length iv)))
      else if \<not> co_key_ok ops algorithm key then Inl (TE_CryptoError ''Failed to create AEAD key'')
      else Inr \<lparr>ae_algorithm = algorithm, ae_key = key, ae_iv = iv\<rparr>)"

definition make_nonce :: "bytes \<Rightarrow> u64 \<Rightarrow> bytes" where
  "make_nonce iv seq_num = take 4 iv @ map2 (XOR) (drop 4 iv) (u64_to_be seq_num)"

definition aead_encrypt :: "'r crypto_ops \<Rightarrow> Aead \<Rightarrow> u64 \<Rightarrow> bytes \<Rightarrow> bytes \<Rightarrow> bytes tls_result" where
  "aead_encrypt ops a seq_num aad plaintext =
     (case co_seal ops (ae_algorithm a) (ae_key a) (make_nonce (ae_iv a) seq_num) aad plaintext of
        None \<Rightarrow> Inl (TE_CryptoError ''AEAD encryption failed'')
      | Some c \<Rightarrow> Inr c)"

definition aead_decrypt :: "'r crypto_ops \<Rightarrow> Aead \<Rightarrow> u64 \<Rightarrow> bytes \<Rightarrow> bytes \<Rightarrow> bytes tls_result" where
  "aead_decrypt ops a seq_num aad ciphertext =
     (case co_open ops (ae_algorithm a) (ae_key a) (make_nonce (ae_iv a) seq_num) aad ciphertext of
        None \<Rightarrow> Inl (TE_CryptoError ''AEAD decryption failed'')
      | Some p \<Rightarrow> Inr p)"

subsection \<open>TLS 1.2 cipher suites\<close>

datatype Tls12KeyExchange = Ecdhe | Rsa

datatype Tls12CipherSuite =
    EcdheEcdsaAes128GcmSha256 | EcdheRsaAes128GcmSha256 | EcdheEcdsaAes256GcmSha384
  | EcdheRsaAes256GcmSha384 | EcdheEcdsaChacha20Poly1305 | EcdheRsaChacha20Poly1305
  | EcdheRsaAes128CbcSha | EcdheRsaAes256CbcSha | EcdheRsaAes128CbcSha256
  | EcdheRsaAes256CbcSha384 | RsaAes256CbcSha | RsaAes128CbcSha
  | RsaAes256CbcSha256 | RsaAes128CbcSha256 | RsaAes128GcmSha256
  | RsaAes256GcmSha384

definition suite_from_code_point :: "u16 \<Rightarrow> Tls12CipherSuite option" where
  "suite_from_code_point code =
     (if code = 0xC02B then Some EcdheEcdsaAes128GcmSha256
      else if code = 0xC02F then Some EcdheRsaAes128GcmSha256
      else if code = 0xC02C then Some EcdheEcdsaAes256GcmSha384
      else if code = 0xC030 then Some EcdheRsaAes256GcmSha384
      else if code = 0xCCA9 then Some EcdheEcdsaChacha20Poly1305
      else if code = 0xCCA8 then Some EcdheRsaChacha20Poly1305
      else if code = 0xC013 then Some EcdheRsaAes128CbcSha
      else if code = 0xC014 then Some EcdheRsaAes256CbcSha
      else if code = 0xC027 then Some EcdheRsaAes128CbcSha256
      else if code = 0xC028 then Some EcdheRsaAes256CbcSha384
      else if code = 0x0035 then Some RsaAes256CbcSha
      else if code = 0x002F then Some RsaAes128CbcSha
      else if code = 0x003D then Some RsaAes256CbcSha256
      else if code = 0x003C then Some RsaAes128CbcSha256
      else if code = 0x009C then Some RsaAes128GcmSha256
      else if code = 0x009D then Some RsaAes256GcmSha384
      else None)"

fun suite_code_point :: "Tls12CipherSuite \<Rightarrow> u16" where
  "suite_code_point EcdheEcdsaAes128GcmSha256 = 0xC02B"
| "suite_code_point EcdheRsaAes128GcmSha256 = 0xC02F"
| "suite_code_point EcdheEcdsaAes256GcmSha384 = 0xC02C"
| "suite_code_point EcdheRsaAes256GcmSha384 = 0xC030"
| "suite_code_point EcdheEcdsaChacha20Poly1305 = 0xCCA9"
| "suite_code_point EcdheRsaChacha20Poly1305 = 0xCCA8"
| "suite_code_point EcdheRsaAes128CbcSha = 0xC013"
| "suite_code_point EcdheRsaAes256CbcSha = 0xC014"
| "suite_code_point EcdheRsaAes128CbcSha256 = 0xC027"
| "suite_code_point EcdheRsaAes256CbcSha384 = 0xC028"
| "suite_code_point RsaAes256CbcSha = 0x0035"
| "suite_code_point RsaAes128CbcSha = 0x002F"
| "suite_code_point RsaAes256CbcSha256 = 0x003D"
| "suite_code_point RsaAes128CbcSha256 = 0x003C"
| "suite_code_point RsaAes128GcmSha256 = 0x009C"
| "suite_code_point RsaAes256GcmSha384 = 0x009D"

definition key_exchange :: "Tls12CipherSuite \<Rightarrow> Tls12KeyExchange" where
  "key_exchange s =
     (if s \<in> {RsaAes256CbcSha, RsaAes128CbcSha, RsaAes256CbcSha256, RsaAes128CbcSha256, RsaAes128GcmSha256,
              RsaAes256GcmSha384} then Rsa else Ecdhe)"

definition is_aead :: "Tls12CipherSuite \<Rightarrow> bool" where
  "is_aead s \<longleftrightarrow>
     s \<in> {EcdheEcdsaAes128GcmSha256, EcdheRsaAes128GcmSha256, EcdheEcdsaAes256GcmSha384, EcdheRsaAes256GcmSha384,
          EcdheEcdsaChacha20Poly1305, EcdheRsaChacha20Poly1305, RsaAes128GcmSha256, RsaAes256GcmSha384}"

definition is_cbc :: "Tls12CipherSuite \<Rightarrow> bool" where
  "is_cbc s \<longleftrightarrow> \<not> is_aead s"

definition enc_key_len :: "Tls12CipherSuite \<Rightarrow> nat" where
  "enc_key_len s =
     (if s \<in> {EcdheEcdsaAes128GcmSha256, EcdheRsaAes128GcmSha256, EcdheRsaAes128CbcSha, EcdheRsaAes128CbcSha256,
              RsaAes128CbcSha, RsaAes128CbcSha256, RsaAes128GcmSha256} then 16 else 32)"

definition mac_key_len :: "Tls12CipherSuite \<Rightarrow> nat" where
  "mac_key_len s =
     (if is_aead s then 0
      else if s \<in> {EcdheRsaAes128CbcSha, EcdheRsaAes256CbcSha, RsaAes128CbcSha, RsaAes256CbcSha} then 20
      else if s \<in> {EcdheRsaAes128CbcSha256, RsaAes128CbcSha256, RsaAes256CbcSha256} then 32
      else if s = EcdheRsaAes256CbcSha384 then 48 else 0)"

definition fixed_iv_len :: "Tls12CipherSuite \<Rightarrow> nat" where
  "fixed_iv_len s =
     (if is_cbc s then 16
      else if s \<in> {EcdheEcdsaChacha20Poly1305, EcdheRsaChacha20Poly1305} then 12 else 4)"

definition prf_algorithm :: "Tls12CipherSuite \<Rightarrow> PrfAlgorithm" where
  "prf_algorithm s =
     (if s \<in> {EcdheEcdsaAes256GcmSha384, EcdheRsaAes256GcmSha384, EcdheRsaAes256CbcSha384, RsaAes256GcmSha384}
      then Prf_Sha384 else Prf_Sha256)"

definition hash_algorithm :: "Tls12CipherSuite \<Rightarrow> HkdfAlgorithm" where
  "hash_algorithm s =
     (if s \<in> {EcdheEcdsaAes256GcmSha384, EcdheRsaAes256GcmSha384, EcdheRsaAes256CbcSha384, RsaAes256GcmSha384}
      then Hkdf_Sha384 else Hkdf_Sha256)"

subsection \<open>TLS 1.2 GCM\<close>

record Tls12GcmCipher =
  gc_algorithm :: AeadAlgorithm
  gc_key :: bytes
  gc_implicit_iv :: bytes

definition gcm_new :: "'r crypto_ops \<Rightarrow> bytes \<Rightarrow> bytes \<Rightarrow> bool \<Rightarrow> Tls12GcmCipher tls_result" where
  "gcm_new ops key implicit_iv is_aes_256 =
     (let algo = (if is_aes_256 then Aes256Gcm else Aes128Gcm) in
      if \<not> co_key_ok ops algo key then Inl (TE_CryptoError ''Failed to create GCM opening key'')
      else Inr \<lparr>gc_algorithm = algo, gc_key = key, gc_implicit_iv = implicit_iv\<rparr>)"

definition gcm_encrypt :: "'r crypto_ops \<Rightarrow> Tls12GcmCipher \<Rightarrow> u64 \<Rightarrow> bytes \<Rightarrow> bytes \<Rightarrow> bytes tls_result" where
  "gcm_encrypt ops c seq_num aad plaintext =
     (let explicit_nonce = u64_to_be seq_num; nonce = gc_implicit_iv c @ explicit_nonce in
      case co_seal ops (gc_algorithm c) (gc_key c) nonce aad plaintext of
        None \<Rightarrow> Inl (TE_CryptoError ''TLS 1.2 GCM encryption failed'')
      | Some encrypt_buf \<Rightarrow> Inr (explicit_nonce @ encrypt_buf))"

definition gcm_decrypt :: "'r crypto_ops \<Rightarrow> Tls12GcmCipher \<Rightarrow> bytes \<Rightarrow> bytes \<Rightarrow> bytes tls_result" where
  "gcm_decrypt ops c aad ciphertext_with_nonce =
     (if length ciphertext_with_nonce < 8 + 16 then Inl (TE_CryptoError ''TLS 1.2 GCM record too short'')
      else let explicit_nonce = take 8 ciphertext_with_nonce;
               encrypted = drop 8 ciphertext_with_nonce;
               nonce = gc_implicit_iv c @ explicit_nonce
           in case co_open ops (gc_algorithm c) (gc_key c) nonce aad encrypted of
                None \<Rightarrow> Inl (TE_CryptoError ''TLS 1.2 GCM decryption failed'')
              | Some p \<Rightarrow> Inr p)"

subsection \<open>TLS 1.2 ChaCha20-Poly1305\<close>

record Tls12Chacha20Cipher =
  cc_key :: bytes
  cc_iv :: bytes

definition chacha_new :: "'r crypto_ops \<Rightarrow> bytes \<Rightarrow> bytes \<Rightarrow> Tls12Chacha20Cipher tls_result" where
  "chacha_new ops key iv =
     (if \<not> co_key_ok ops Chacha20Poly1305 key then Inl (TE_CryptoError ''Failed to create ChaCha20 key'')
      else Inr \<lparr>cc_key = key, cc_iv = iv\<rparr>)"

definition chacha_encrypt :: "'r crypto_ops \<Rightarrow> Tls12Chacha20Cipher \<Rightarrow> u64 \<Rightarrow> bytes \<Rightarrow> bytes \<Rightarrow> bytes tls_result" where
  "chacha_encrypt ops c seq_num aad plaintext =
     (case co_seal ops Chacha20Poly1305 (cc_key c) (make_nonce (cc_iv c) seq_num) aad plaintext of
        None \<Rightarrow> Inl (TE_CryptoError ''TLS 1.2 ChaCha20 encryption failed'')
      | Some buf \<Rightarrow> Inr buf)"

definition chacha_decrypt :: "'r crypto_ops \<Rightarrow> Tls12Chacha20Cipher \<Rightarrow> u64 \<Rightarrow> bytes \<Rightarrow> bytes \<Rightarrow> bytes tls_result" where
  "chacha_decrypt ops c seq_num aad ciphertext =
     (case co_open ops Chacha20Poly1305 (cc_key c) (make_nonce (cc_iv c) seq_num) aad ciphertext of
        None \<Rightarrow> Inl (TE_CryptoError ''TLS 1.2 ChaCha20 decryption failed'')
      | Some p \<Rightarrow> Inr p)"

subsection \<open>TLS 1.2 CBC with HMAC\<close>

datatype CbcMacAlgorithm = HmacSha1 | HmacSha256 | HmacSha384

fun mac_len :: "CbcMacAlgorithm \<Rightarrow> nat" where
  "mac_len HmacSha1 = 20"
| "mac_len HmacSha256 = 32"
| "mac_len HmacSha384 = 48"

fun cbc_hmac_algorithm :: "CbcMacAlgorithm \<Rightarrow> hmac_alg" where
  "cbc_hmac_algorithm HmacSha1 = HMAC_SHA1"
| "cbc_hmac_algorithm HmacSha256 = HMAC_SHA256"
| "cbc_hmac_algorithm HmacSha384 = HMAC_SHA384"

record Tls12CbcCipher =
  cb_enc_key :: bytes
  cb_mac_key :: bytes
  cb_mac_algorithm :: CbcMacAlgorithm
  cb_block_size :: nat

definition cbc_new :: "bytes \<Rightarrow> bytes \<Rightarrow> CbcMacAlgorithm \<Rightarrow> Tls12CbcCipher" where
  "cbc_new enc_key mac_key mac_algorithm =
     \<lparr>cb_enc_key = enc_key, cb_mac_key = mac_key, cb_mac_algorithm = mac_algorithm, cb_block_size = 16\<rparr>"

definition compute_mac :: "'r crypto_ops \<Rightarrow> Tls12CbcCipher \<Rightarrow> bytes \<Rightarrow> bytes \<Rightarrow> bytes" where
  "compute_mac ops c aad plaintext =
     co_hmac ops (cbc_hmac_algorithm (cb_mac_algorithm c)) (cb_mac_key c) (aad @ plaintext)"

definition cbc_encrypt_raw :: "'r crypto_ops \<Rightarrow> Tls12CbcCipher \<Rightarrow> bytes \<Rightarrow> bytes \<Rightarrow> bytes tls_result" where
  "cbc_encrypt_raw ops c iv data =
     (if length (cb_enc_key c) = 16 then
        (case co_cbc_encrypt ops (cb_enc_key c) iv data of
           None \<Rightarrow> Inl (TE_CryptoError ''AES-128-CBC encryption failed'') | Some ct \<Rightarrow> Inr ct)
      else if length (cb_enc_key c) = 32 then
        (case co_cbc_encrypt ops (cb_enc_key c) iv data of
           None \<Rightarrow> Inl (TE_CryptoError ''AES-256-CBC encryption failed'') | Some ct \<Rightarrow> Inr ct)
      else Inl (TE_CryptoError (''Invalid CBC key length: '' @ show_nat (length (cb_enc_key c)))))"

definition cbc_decrypt_raw :: "'r crypto_ops \<Rightarrow> Tls12CbcCipher \<Rightarrow> bytes \<Rightarrow> bytes \<Rightarrow> bytes tls_result" where
  "cbc_decrypt_raw ops c iv ciphertext =
     (if length (cb_enc_key c) = 16 then
        (case co_cbc_decrypt ops (cb_enc_key c) iv ciphertext of
           None \<Rightarrow> Inl (TE_CryptoError ''AES-128-CBC decryption failed'') | Some pt \<Rightarrow> Inr pt)
      else if length (cb_enc_key c) = 32 then
        (case co_cbc_decrypt ops (cb_enc_key c) iv ciphertext of
           None \<Rightarrow> Inl (TE_CryptoError ''AES-256-CBC decryption failed'') | Some pt \<Rightarrow> Inr pt)
      else Inl (TE_CryptoError (''Invalid CBC key length: '' @ show_nat (length (cb_enc_key c)))))"

text \<open>The plaintext with its MAC and padding.\<close>

definition cbc_pad :: "Tls12CbcCipher \<Rightarrow> bytes \<Rightarrow> bytes \<Rightarrow> bytes" where
  "cbc_pad c plaintext mac =
     (let content_len = length plaintext + length mac;
          padding_length = cb_block_size c - (content_len + 1) mod cb_block_size c;
          total_padding = padding_length + 1
      in plaintext @ mac @ replicate total_padding (word_of_nat padding_length))"

definition cbc_encrypt ::
  "'r crypto_ops \<Rightarrow> Tls12CbcCipher \<Rightarrow> bytes \<Rightarrow> bytes \<Rightarrow> 'r \<Rightarrow> bytes tls_result \<times> 'r" where
  "cbc_encrypt ops c aad plaintext r =
     (let data = cbc_pad c plaintext (compute_mac ops c aad plaintext) in
      case co_fill ops 16 r of
        (None, r1) \<Rightarrow> (Inl (TE_CryptoError ''Failed to generate CBC IV''), r1)
      | (Some iv, r1) \<Rightarrow> (result_bind (cbc_encrypt_raw ops c iv data) (\<lambda>encrypted. Inr (iv @ encrypted)), r1))"

text \<open>The difference to the padding byte, accumulated over all padding bytes.\<close>

fun padding_loop :: "u8 \<Rightarrow> bytes \<Rightarrow> u8 \<Rightarrow> u8" where
  "padding_loop p [] acc = acc"
| "padding_loop p (b # bs) acc = padding_loop p bs (acc OR (b XOR p))"

text \<open>The associated data with the plaintext length in place of the record length.\<close>

definition fix_aad :: "bytes \<Rightarrow> nat \<Rightarrow> bytes" where
  "fix_aad aad plaintext_end =
     (if 13 \<le> length aad
      then let pt_len = word_of_nat plaintext_end :: u16
           in aad[11 := ucast (drop_bit 8 pt_len), 12 := ucast pt_len]
      else aad)"

definition cbc_check :: "'r crypto_ops \<Rightarrow> Tls12CbcCipher \<Rightarrow> bytes \<Rightarrow> bytes \<Rightarrow> bytes tls_result" where
  "cbc_check ops c aad decrypted =
     (if decrypted = [] then Inl (TE_CryptoError ''Empty CBC plaintext'')
      else
        let padding_length = unat (last decrypted);
            total_padding = padding_length + 1;
            maclen = mac_len (cb_mac_algorithm c)
        in if length decrypted < total_padding + maclen
           then Inl (TE_CryptoError ''TLS 1.2 CBC record too short after decrypt'')
           else
             let pad_start = length decrypted - total_padding;
                 padding_ok = padding_loop (word_of_nat padding_length) (drop pad_start decrypted) 0;
                 content_end = length decrypted - total_padding;
                 plaintext_end = content_end - maclen;
                 plaintext = take plaintext_end decrypted;
                 received_mac = drop plaintext_end (take content_end decrypted);
                 mac_ok = co_hmac_verify ops (cbc_hmac_algorithm (cb_mac_algorithm c)) (cb_mac_key c)
                            (fix_aad aad plaintext_end @ plaintext) received_mac
             in if padding_ok \<noteq> 0 \<or> \<not> mac_ok
                then Inl (TE_CryptoError ''TLS 1.2 CBC MAC or padding verification failed'')
                else Inr plaintext)"

definition cbc_decrypt :: "'r crypto_ops \<Rightarrow> Tls12CbcCipher \<Rightarrow> bytes \<Rightarrow> bytes \<Rightarrow> bytes tls_result" where
  "cbc_decrypt ops c aad data =
     (if length data < 16 + cb_block_size c then Inl (TE_CryptoError ''TLS 1.2 CBC record too short'')
      else let iv = take 16 data; ciphertext = drop 16 data in
        if length ciphertext mod cb_block_size c \<noteq> 0
        then Inl (TE_CryptoError ''TLS 1.2 CBC ciphertext not block-aligned'')
        else result_bind (cbc_decrypt_raw ops c iv ciphertext) (cbc_check ops c aad))"

subsection \<open>Nonces and suites\<close>

lemma length_make_nonce: "length iv = 12 \<Longrightarrow> length (make_nonce iv seq) = 12"
  by (simp add: make_nonce_def)

lemma xor_list_inject:
  "length xs = length ks \<Longrightarrow> length ys = length ks \<Longrightarrow> map2 (XOR) ks xs = map2 (XOR) ks ys \<Longrightarrow> xs = (ys :: bytes)"
proof (induction ks arbitrary: xs ys)
  case (Cons k ks)
  obtain x xs' y ys' where e: "xs = x # xs'" "ys = y # ys'" using Cons.prems(1,2) by (cases xs; cases ys) auto
  have "k XOR (k XOR x) = k XOR (k XOR y)" using Cons.prems(3) e by simp
  then have "x = y" by (simp add: xor.assoc [symmetric])
  then show ?case using Cons e by simp
qed simp

lemma make_nonce_inject:
  assumes "length iv = 12"
  shows "make_nonce iv s = make_nonce iv s' \<longleftrightarrow> s = s'"
  using xor_list_inject [of "u64_to_be s" "drop 4 iv" "u64_to_be s'"] assms
  by (auto simp: make_nonce_def u64_to_be_inject)

lemma suite_code_points:
  "suite_from_code_point (suite_code_point s) = Some s"
  "suite_from_code_point n = Some s \<Longrightarrow> suite_code_point s = n"
proof -
  show "suite_from_code_point (suite_code_point s) = Some s"
    by (cases s) (simp_all add: suite_from_code_point_def)
  show "suite_from_code_point n = Some s \<Longrightarrow> suite_code_point s = n"
    by (auto simp: suite_from_code_point_def split: if_splits)
qed

subsection \<open>CBC padding and MAC\<close>

lemma word_or_zero: "(a :: u8) OR b = 0 \<longleftrightarrow> a = 0 \<and> b = 0"
proof
  assume or: "a OR b = 0"
  have "\<not> bit a n \<and> \<not> bit b n" for n
  proof -
    have "bit (a OR b) n = False" by (simp add: or)
    then show ?thesis by (simp add: bit_or_iff)
  qed
  then show "a = 0 \<and> b = 0" by (simp add: bit_eq_iff)
qed simp

lemma word_xor_zero: "(a :: u8) XOR b = 0 \<longleftrightarrow> a = b"
proof
  assume x: "a XOR b = 0"
  have "a = (a XOR b) XOR b" by (simp add: xor.assoc)
  also have "\<dots> = b" by (simp only: x xor.left_neutral)
  finally show "a = b" .
qed simp

lemma padding_loop_zero: "padding_loop p bs acc = 0 \<longleftrightarrow> acc = 0 \<and> bs = replicate (length bs) p"
  by (induction p bs acc rule: padding_loop.induct) (auto simp: word_or_zero word_xor_zero)

lemma mac_len_hmac: "hmac_len (cbc_hmac_algorithm m) = mac_len m"
  by (cases m) simp_all

lemma length_compute_mac: "hmac_ok ops \<Longrightarrow> length (compute_mac ops c aad p) = mac_len (cb_mac_algorithm c)"
  by (simp add: compute_mac_def hmac_facts(1) mac_len_hmac)

lemma cbc_pad_shape:
  assumes "cb_block_size c = 16"
  obtains n where "n < 256" "cbc_pad c p mac = p @ mac @ replicate (n + 1) (word_of_nat n)"
    "16 dvd length (cbc_pad c p mac)" "length (cbc_pad c p mac) \<le> length p + length mac + 17"
proof -
  let ?l = "length p + length mac"
  let ?n = "16 - (?l + 1) mod 16"
  have shape: "cbc_pad c p mac = p @ mac @ replicate (?n + 1) (word_of_nat ?n)"
    using assms by (simp add: cbc_pad_def Let_def)
  have "?l + 1 = 16 * ((?l + 1) div 16) + (?l + 1) mod 16" by simp
  moreover have "(?l + 1) mod 16 < 16" by (rule mod_less_divisor) simp
  moreover have "l + (16 - r + 1) = 16 * (q + 1)" if "l + 1 = 16 * q + r" "r < 16" for l q r :: nat
    using that by arith
  ultimately have "?l + (?n + 1) = 16 * ((?l + 1) div 16 + 1)" by blast
  moreover have "length (cbc_pad c p mac) = ?l + (?n + 1)" unfolding shape by simp
  ultimately show ?thesis using that [OF _ shape] by simp
qed

lemma cbc_check_accepts:
  assumes "hmac_ok ops" "n < 256"
    "d = p @ compute_mac ops c (fix_aad aad (length p)) p @ replicate (n + 1) (word_of_nat n)"
  shows "cbc_check ops c aad d = Inr p"
proof -
  have l: "last d = word_of_nat n" using assms(3) by simp
  have n: "unat (word_of_nat n :: u8) = n" using assms(2) by (simp add: unat_of_nat)
  have mac: "length (compute_mac ops c (fix_aad aad (length p)) p) = mac_len (cb_mac_algorithm c)"
    by (rule length_compute_mac [OF assms(1)])
  have len: "length d = length p + mac_len (cb_mac_algorithm c) + (n + 1)" using assms(3) mac by simp
  have "drop (length d - (n + 1)) d = replicate (n + 1) (word_of_nat n)" using len assms(3) mac by simp
  moreover have "take (length d - (n + 1)) d = p @ compute_mac ops c (fix_aad aad (length p)) p" using len assms(3) mac by simp
  moreover have "length d - (n + 1) - mac_len (cb_mac_algorithm c) = length p" "d \<noteq> []" using len by auto
  moreover have "take (length p) d = p" using assms(3) by simp
  ultimately show ?thesis
    using len by (simp add: cbc_check_def Let_def l n padding_loop_zero hmac_facts(2) [OF assms(1)] compute_mac_def)
qed

lemma cbc_check_sound:
  assumes "hmac_ok ops" "cbc_check ops c aad d = Inr p"
  shows "\<exists>n < 256. d = p @ compute_mac ops c (fix_aad aad (length p)) p @ replicate (n + 1) (word_of_nat n)"
proof -
  define n where "n = unat (last d)"
  define m where "m = mac_len (cb_mac_algorithm c)"
  have n: "n < 256" using unsigned_less [of "last d"] by (simp add: n_def)
  have ne: "d \<noteq> []" and len: "n + 1 + m \<le> length d"
    and pad: "padding_loop (word_of_nat n) (drop (length d - (n + 1)) d) 0 = 0"
    and p: "p = take (length d - (n + 1) - m) d"
    and mac: "co_hmac_verify ops (cbc_hmac_algorithm (cb_mac_algorithm c)) (cb_mac_key c)
      (fix_aad aad (length d - (n + 1) - m) @ p) (drop (length d - (n + 1) - m) (take (length d - (n + 1)) d))"
    using assms(2) by (auto simp: cbc_check_def Let_def n_def m_def split: if_splits)
  have lp: "length p = length d - (n + 1) - m" using p len by simp
  have "drop (length d - (n + 1)) d = replicate (n + 1) (word_of_nat n)"
    using pad len by (simp add: padding_loop_zero)
  moreover have "drop (length p) (take (length d - (n + 1)) d) = compute_mac ops c (fix_aad aad (length p)) p"
    using mac by (simp add: hmac_facts(2) [OF assms(1)] compute_mac_def lp)
  moreover have "d = take (length p) d @ drop (length p) (take k d) @ drop k d" if "length p \<le> k" for k
  proof -
    have "take k d = take (length p) d @ drop (length p) (take k d)"
      using append_take_drop_id [of "length p" "take k d"] that by (simp add: min.absorb1)
    moreover have "d = take k d @ drop k d" by simp
    ultimately show ?thesis by (metis append_assoc)
  qed
  then have "d = take (length p) d @ drop (length p) (take (length d - (n + 1)) d) @ drop (length d - (n + 1)) d"
    using lp by simp
  moreover have "take (length p) d = p" using p lp by simp
  ultimately have "d = p @ compute_mac ops c (fix_aad aad (length p)) p @ replicate (n + 1) (word_of_nat n)" by metis
  then show ?thesis using n by blast
qed

text \<open>
  C9. MAC-then-encrypt is checked exactly: whatever the decrypted bytes are, the CBC check accepts them with plaintext
  \<open>p\<close> if and only if they are \<open>p\<close>, the HMAC over the corrected header and \<open>p\<close>, and some number
  of padding bytes of the right value. The check looks at every padding byte.
\<close>

theorem cbc_check_exact:
  assumes "hmac_ok ops"
  shows "cbc_check ops c aad d = Inr p \<longleftrightarrow>
    (\<exists>n < 256. d = p @ compute_mac ops c (fix_aad aad (length p)) p @ replicate (n + 1) (word_of_nat n))"
  using cbc_check_accepts [OF assms] cbc_check_sound [OF assms] by blast

theorem cbc_check_exact_witness:
  "let c = cbc_new (replicate 16 0) [] HmacSha1; aad = replicate 13 0;
       d = [7] @ compute_mac toy_crypto c (fix_aad aad 1) [7] @ replicate (10 + 1) 10
   in hmac_ok toy_crypto \<and> cbc_check toy_crypto c aad d = Inr [7]"
proof -
  have "hmac_ok toy_crypto" using toy_crypto_ok by (simp add: crypto_ok_def)
  moreover have "\<exists>n < 256. [7] @ m @ replicate (10 + 1) 10 = [7] @ m @ replicate (n + 1) (word_of_nat n :: u8)" for m
    by (intro exI [of _ 10]) simp
  ultimately show ?thesis
    using cbc_check_exact [of toy_crypto "cbc_new (replicate 16 0) [] HmacSha1" "replicate 13 0" _ "[7]"]
    unfolding Let_def by (metis One_nat_def length_Cons list.size(3))
qed

end
