(* ===== verification/Tls_Record.thy ===== *)
theory Tls_Record
  imports Tls_Cipher
begin

text \<open>
  The TLS record layer, \<^verbatim>\<open>lktls/src/record/\<close>: headers (\<^verbatim>\<open>mod.rs\<close>), the writer that frames and protects
  (\<^verbatim>\<open>writer.rs\<close>) and the reader that parses and opens (\<^verbatim>\<open>reader.rs\<close>), before keys, with TLS 1.3 keys and with the three
  kinds of TLS 1.2 keys.
\<close>

subsection \<open>Headers\<close>

definition MAX_RECORD_PAYLOAD :: nat where
  "MAX_RECORD_PAYLOAD = 16384"

definition RECORD_HEADER_SIZE :: nat where
  "RECORD_HEADER_SIZE = 5"

definition APPLICATION_DATA :: u8 where
  "APPLICATION_DATA = 0x17"

record RecordHeader =
  rhd_content_type :: u8
  rhd_version :: u16
  rhd_length :: u16

text \<open>The argument has five bytes.\<close>

definition header_from_bytes :: "bytes \<Rightarrow> RecordHeader" where
  "header_from_bytes bs =
     \<lparr>rhd_content_type = bs ! 0, rhd_version = u16_of_be (bs ! 1) (bs ! 2), rhd_length = u16_of_be (bs ! 3) (bs ! 4)\<rparr>"

definition header_to_bytes :: "RecordHeader \<Rightarrow> bytes" where
  "header_to_bytes h = rhd_content_type h # u16_to_be (rhd_version h) @ u16_to_be (rhd_length h)"

datatype Tls12RecordCipher =
    RC_Gcm Tls12GcmCipher
  | RC_Chacha20 Tls12Chacha20Cipher
  | RC_Cbc Tls12CbcCipher

text \<open>\<open>seq_num(8) || content_type(1) || version(2) || length(2)\<close>; the last four bytes are given.\<close>

definition tls12_aad :: "u64 \<Rightarrow> u8 \<Rightarrow> bytes \<Rightarrow> bytes" where
  "tls12_aad seq_num ct tail = u64_to_be seq_num @ ct # tail"

subsection \<open>The writer\<close>

datatype FlushStrategy = FS_Immediate | FS_Coalesce

record RecordWriter =
  rw_seq_num :: u64
  rw_aead :: "Aead option"
  rw_tls12_cipher :: "Tls12RecordCipher option"
  rw_flush_strategy :: FlushStrategy
  rw_coalesce_buf :: bytes
  rw_first_record_sent :: bool

definition writer_new :: RecordWriter where
  "writer_new =
     \<lparr>rw_seq_num = 0, rw_aead = None, rw_tls12_cipher = None, rw_flush_strategy = FS_Immediate,
      rw_coalesce_buf = [], rw_first_record_sent = False\<rparr>"

definition mark_post_initial :: "RecordWriter \<Rightarrow> RecordWriter" where
  "mark_post_initial w = w\<lparr>rw_first_record_sent := True\<rparr>"

definition set_flush_strategy :: "FlushStrategy \<Rightarrow> RecordWriter \<Rightarrow> RecordWriter" where
  "set_flush_strategy s w = w\<lparr>rw_flush_strategy := s\<rparr>"

definition writer_flush :: "RecordWriter \<Rightarrow> bytes \<times> RecordWriter" where
  "writer_flush w = (rw_coalesce_buf w, w\<lparr>rw_coalesce_buf := []\<rparr>)"

definition writer_set_keys :: "Aead \<Rightarrow> RecordWriter \<Rightarrow> RecordWriter" where
  "writer_set_keys a w = w\<lparr>rw_aead := Some a, rw_tls12_cipher := None, rw_seq_num := 0\<rparr>"

definition writer_set_tls12_keys :: "Tls12RecordCipher \<Rightarrow> RecordWriter \<Rightarrow> RecordWriter" where
  "writer_set_tls12_keys c w = w\<lparr>rw_tls12_cipher := Some c, rw_aead := None, rw_seq_num := 0\<rparr>"

definition encode_plaintext_record :: "u8 \<Rightarrow> bytes \<Rightarrow> RecordWriter \<Rightarrow> bytes tls_result \<times> RecordWriter" where
  "encode_plaintext_record ct payload w =
     (if length payload > MAX_RECORD_PAYLOAD then (Inl (TE_Io ''record payload too large''), w)
      else
        let version = (if \<not> rw_first_record_sent w then 0x0301 else 0x0303);
            w1 = w\<lparr>rw_first_record_sent := True\<rparr>;
            header = \<lparr>rhd_content_type = ct, rhd_version = version, rhd_length = word_of_nat (length payload)\<rparr>
        in (Inr (header_to_bytes header @ payload), w1))"

text \<open>\<^verbatim>\<open>checked_add(1)\<close> on a sequence number.\<close>

definition seq_next :: "u64 \<Rightarrow> u64 option" where
  "seq_next s = (if unat s + 1 < 2 ^ 64 then Some (s + 1) else None)"

definition encode_tls13_encrypted_record ::
  "'r crypto_ops \<Rightarrow> Aead \<Rightarrow> u8 \<Rightarrow> bytes \<Rightarrow> RecordWriter \<Rightarrow> bytes tls_result \<times> RecordWriter" where
  "encode_tls13_encrypted_record ops aead ct payload w =
     (let inner = payload @ [ct];
          encrypted_len = length inner + tag_len (ae_algorithm aead);
          header_bytes = header_to_bytes
            \<lparr>rhd_content_type = APPLICATION_DATA, rhd_version = 0x0303, rhd_length = word_of_nat encrypted_len\<rparr>
      in case aead_encrypt ops aead (rw_seq_num w) header_bytes inner of
           Inl e \<Rightarrow> (Inl e, w)
         | Inr ciphertext \<Rightarrow>
             (case seq_next (rw_seq_num w) of
                None \<Rightarrow> (Inl (TE_CryptoError ''write sequence number overflow''), w)
              | Some s \<Rightarrow> (Inr (header_bytes @ ciphertext), w\<lparr>rw_seq_num := s\<rparr>)))"

definition tls12_encrypt ::
  "'r crypto_ops \<Rightarrow> Tls12RecordCipher \<Rightarrow> u64 \<Rightarrow> bytes \<Rightarrow> bytes \<Rightarrow> 'r \<Rightarrow> bytes tls_result \<times> 'r" where
  "tls12_encrypt ops cipher seq_num aad payload r =
     (case cipher of
        RC_Gcm gcm \<Rightarrow> (gcm_encrypt ops gcm seq_num aad payload, r)
      | RC_Chacha20 chacha \<Rightarrow> (chacha_encrypt ops chacha seq_num aad payload, r)
      | RC_Cbc cbc \<Rightarrow> cbc_encrypt ops cbc aad payload r)"

definition encode_tls12_encrypted_record ::
  "'r crypto_ops \<Rightarrow> Tls12RecordCipher \<Rightarrow> u8 \<Rightarrow> bytes \<Rightarrow> RecordWriter \<Rightarrow> 'r \<Rightarrow>
   bytes tls_result \<times> RecordWriter \<times> 'r" where
  "encode_tls12_encrypted_record ops cipher ct payload w r =
     (let payload_len = word_of_nat (length payload) :: u16;
          aad = tls12_aad (rw_seq_num w) ct [0x03, 0x03, ucast (drop_bit 8 payload_len), ucast payload_len]
      in case tls12_encrypt ops cipher (rw_seq_num w) aad payload r of
           (Inl e, r1) \<Rightarrow> (Inl e, w, r1)
         | (Inr ciphertext, r1) \<Rightarrow>
             (case seq_next (rw_seq_num w) of
                None \<Rightarrow> (Inl (TE_CryptoError ''write sequence number overflow''), w, r1)
              | Some s \<Rightarrow>
                  (Inr (header_to_bytes \<lparr>rhd_content_type = ct, rhd_version = 0x0303,
                          rhd_length = word_of_nat (length ciphertext)\<rparr> @ ciphertext),
                   w\<lparr>rw_seq_num := s\<rparr>, r1)))"

definition encode_single_record ::
  "'r crypto_ops \<Rightarrow> u8 \<Rightarrow> bytes \<Rightarrow> RecordWriter \<Rightarrow> 'r \<Rightarrow> bytes tls_result \<times> RecordWriter \<times> 'r" where
  "encode_single_record ops ct payload w r =
     (case rw_tls12_cipher w of
        Some cipher \<Rightarrow> encode_tls12_encrypted_record ops cipher ct payload w r
      | None \<Rightarrow>
          (case rw_aead w of
             Some aead \<Rightarrow> (let (res, w1) = encode_tls13_encrypted_record ops aead ct payload w in (res, w1, r))
           | None \<Rightarrow> (let (res, w1) = encode_plaintext_record ct payload w in (res, w1, r))))"

text \<open>The loop over the chunks; \<open>output\<close> collects what is returned at once.\<close>

fun write_chunks ::
  "'r crypto_ops \<Rightarrow> u8 \<Rightarrow> bytes list \<Rightarrow> bytes \<Rightarrow> RecordWriter \<Rightarrow> 'r \<Rightarrow> bytes tls_result \<times> RecordWriter \<times> 'r" where
  "write_chunks ops ct [] output w r = (Inr output, w, r)"
| "write_chunks ops ct (chunk # cs) output w r =
     (case encode_single_record ops ct chunk w r of
        (Inl e, w1, r1) \<Rightarrow> (Inl e, w1, r1)
      | (Inr rec, w1, r1) \<Rightarrow>
          (case rw_flush_strategy w1 of
             FS_Immediate \<Rightarrow> write_chunks ops ct cs (output @ rec) w1 r1
           | FS_Coalesce \<Rightarrow> write_chunks ops ct cs output (w1\<lparr>rw_coalesce_buf := rw_coalesce_buf w1 @ rec\<rparr>) r1))"

definition write_record ::
  "'r crypto_ops \<Rightarrow> u8 \<Rightarrow> bytes \<Rightarrow> RecordWriter \<Rightarrow> 'r \<Rightarrow> bytes tls_result \<times> RecordWriter \<times> 'r" where
  "write_record ops ct payload w r =
     write_chunks ops ct (if payload = [] then [[]] else chunks MAX_RECORD_PAYLOAD payload) [] w r"

subsection \<open>The reader\<close>

record PlaintextRecord =
  pl_content_type :: u8
  pl_payload :: bytes

record RecordReader =
  rr_buf :: bytes
  rr_seq_num :: u64
  rr_aead :: "Aead option"
  rr_tls12_cipher :: "Tls12RecordCipher option"

definition reader_new :: RecordReader where
  "reader_new = \<lparr>rr_buf = [], rr_seq_num = 0, rr_aead = None, rr_tls12_cipher = None\<rparr>"

definition reader_set_keys :: "Aead \<Rightarrow> RecordReader \<Rightarrow> RecordReader" where
  "reader_set_keys a rd = rd\<lparr>rr_aead := Some a, rr_tls12_cipher := None, rr_seq_num := 0\<rparr>"

definition reader_set_tls12_keys :: "Tls12RecordCipher \<Rightarrow> RecordReader \<Rightarrow> RecordReader" where
  "reader_set_tls12_keys c rd = rd\<lparr>rr_tls12_cipher := Some c, rr_aead := None, rr_seq_num := 0\<rparr>"

definition feed :: "bytes \<Rightarrow> RecordReader \<Rightarrow> RecordReader" where
  "feed data rd = rd\<lparr>rr_buf := rr_buf rd @ data\<rparr>"

definition buffered_len :: "RecordReader \<Rightarrow> nat" where
  "buffered_len rd = length (rr_buf rd)"

text \<open>The bytes of the header's version and of a length as the reader puts them into the associated data.\<close>

definition aad_tail :: "RecordHeader \<Rightarrow> nat \<Rightarrow> bytes" where
  "aad_tail header n =
     [ucast (drop_bit 8 (rhd_version header)), ucast (rhd_version header), word_of_nat (n div 256), word_of_nat n]"

definition gcm_open :: "'r crypto_ops \<Rightarrow> Tls12GcmCipher \<Rightarrow> u64 \<Rightarrow> RecordHeader \<Rightarrow> bytes \<Rightarrow> bytes tls_result" where
  "gcm_open ops gcm seq_num header raw_payload =
     (if length raw_payload < 8 + 16 then Inl (TE_CryptoError ''TLS 1.2 GCM record too short'')
      else gcm_decrypt ops gcm
             (tls12_aad seq_num (rhd_content_type header) (aad_tail header (length raw_payload - 8 - 16))) raw_payload)"

definition chacha_open ::
  "'r crypto_ops \<Rightarrow> Tls12Chacha20Cipher \<Rightarrow> u64 \<Rightarrow> RecordHeader \<Rightarrow> bytes \<Rightarrow> bytes tls_result" where
  "chacha_open ops chacha seq_num header raw_payload =
     (if length raw_payload < 16 then Inl (TE_CryptoError ''TLS 1.2 ChaCha20 record too short'')
      else chacha_decrypt ops chacha seq_num
             (tls12_aad seq_num (rhd_content_type header) (aad_tail header (length raw_payload - 16))) raw_payload)"

definition cbc_open :: "'r crypto_ops \<Rightarrow> Tls12CbcCipher \<Rightarrow> u64 \<Rightarrow> RecordHeader \<Rightarrow> bytes \<Rightarrow> bytes tls_result" where
  "cbc_open ops cbc seq_num header raw_payload =
     (let rpl = word_of_nat (length raw_payload) :: u16 in
      cbc_decrypt ops cbc
        (tls12_aad seq_num (rhd_content_type header)
           [ucast (drop_bit 8 (rhd_version header)), ucast (rhd_version header), ucast (drop_bit 8 rpl), ucast rpl])
        raw_payload)"

definition tls12_decrypt ::
  "'r crypto_ops \<Rightarrow> Tls12RecordCipher \<Rightarrow> u64 \<Rightarrow> RecordHeader \<Rightarrow> bytes \<Rightarrow> bytes tls_result" where
  "tls12_decrypt ops cipher seq_num header raw_payload =
     (case cipher of
        RC_Gcm gcm \<Rightarrow> gcm_open ops gcm seq_num header raw_payload
      | RC_Chacha20 chacha \<Rightarrow> chacha_open ops chacha seq_num header raw_payload
      | RC_Cbc cbc \<Rightarrow> cbc_open ops cbc seq_num header raw_payload)"

text \<open>\<^verbatim>\<open>rposition\<close> of the last byte that is not zero, from the end.\<close>

fun strip_zeros :: "bytes \<Rightarrow> bytes" where
  "strip_zeros [] = []"
| "strip_zeros (b # bs) = (if b = 0 then strip_zeros bs else b # bs)"

definition strip_inner_content_type :: "bytes \<Rightarrow> (u8 \<times> bytes) tls_result" where
  "strip_inner_content_type plaintext =
     (case strip_zeros (rev plaintext) of
        [] \<Rightarrow> Inl (TE_UnexpectedMessage ''Decrypted record has no content type'')
      | ct # rest \<Rightarrow> Inr (ct, rev rest))"

text \<open>Step 4 of \<^verbatim>\<open>next_record\<close>: what becomes of a payload that was taken from the buffer.\<close>

definition open_record ::
  "'r crypto_ops \<Rightarrow> RecordHeader \<Rightarrow> bytes \<Rightarrow> RecordReader \<Rightarrow> PlaintextRecord tls_result \<times> RecordReader" where
  "open_record ops header raw_payload rd =
     (let plain = (Inr \<lparr>pl_content_type = rhd_content_type header, pl_payload = raw_payload\<rparr>, rd) in
      case rr_tls12_cipher rd of
        Some cipher \<Rightarrow>
          (case tls12_decrypt ops cipher (rr_seq_num rd) header raw_payload of
             Inl e \<Rightarrow> (Inl e, rd)
           | Inr plaintext \<Rightarrow>
               (case seq_next (rr_seq_num rd) of
                  None \<Rightarrow> (Inl (TE_UnexpectedMessage ''record sequence number overflow''), rd)
                | Some s \<Rightarrow>
                    (Inr \<lparr>pl_content_type = rhd_content_type header, pl_payload = plaintext\<rparr>, rd\<lparr>rr_seq_num := s\<rparr>)))
      | None \<Rightarrow>
          (case rr_aead rd of
             None \<Rightarrow> plain
           | Some aead \<Rightarrow>
               if rhd_content_type header = APPLICATION_DATA then
                 (case aead_decrypt ops aead (rr_seq_num rd) (header_to_bytes header) raw_payload of
                    Inl e \<Rightarrow> (Inl e, rd)
                  | Inr plaintext \<Rightarrow>
                      (case seq_next (rr_seq_num rd) of
                         None \<Rightarrow> (Inl (TE_UnexpectedMessage ''record sequence number overflow''), rd)
                       | Some s \<Rightarrow>
                           (case strip_inner_content_type plaintext of
                              Inl e \<Rightarrow> (Inl e, rd\<lparr>rr_seq_num := s\<rparr>)
                            | Inr (inner_ct, inner_payload) \<Rightarrow>
                                (Inr \<lparr>pl_content_type = inner_ct, pl_payload = inner_payload\<rparr>,
                                 rd\<lparr>rr_seq_num := s\<rparr>))))
               else plain))"

definition max_record_len :: "RecordReader \<Rightarrow> nat" where
  "max_record_len rd =
     (if rr_aead rd \<noteq> None \<or> rr_tls12_cipher rd \<noteq> None then MAX_RECORD_PAYLOAD + 256 else MAX_RECORD_PAYLOAD)"

definition next_record ::
  "'r crypto_ops \<Rightarrow> RecordReader \<Rightarrow> PlaintextRecord option tls_result \<times> RecordReader" where
  "next_record ops rd =
     (if length (rr_buf rd) < RECORD_HEADER_SIZE then (Inr None, rd)
      else
        let header = header_from_bytes (take RECORD_HEADER_SIZE (rr_buf rd));
            payload_len = unat (rhd_length header);
            max_len = max_record_len rd;
            total_len = RECORD_HEADER_SIZE + payload_len
        in if payload_len > max_len
           then (Inl (TE_UnexpectedMessage (''TLS record too large: '' @ show_nat payload_len @ '' bytes (max '' @
                   show_nat max_len @ '')'')), rd)
           else if length (rr_buf rd) < total_len then (Inr None, rd)
           else
             let raw_payload = take payload_len (drop RECORD_HEADER_SIZE (rr_buf rd)) in
             (case open_record ops header raw_payload (rd\<lparr>rr_buf := drop total_len (rr_buf rd)\<rparr>) of
                (Inl e, rd1) \<Rightarrow> (Inl e, rd1)
              | (Inr rec, rd1) \<Rightarrow> (Inr (Some rec), rd1)))"

subsection \<open>Framing\<close>

lemma length_header_to_bytes [simp]: "length (header_to_bytes h) = 5"
  by (simp add: header_to_bytes_def)

lemma header_round_trip [simp]: "header_from_bytes (header_to_bytes h) = h"
  by (simp add: header_from_bytes_def header_to_bytes_def u16_to_be_def u16_of_to_be)

lemma lo_byte: "(ucast (word_of_nat n :: u16) :: u8) = word_of_nat n"
  by (rule word_unat_eq_iff [THEN iffD2]) (simp add: unsigned_ucast_eq unat_of_nat take_bit_eq_mod mod_mod_cancel)

lemma hi_byte:
  assumes "n < 65536"
  shows "(ucast (drop_bit 8 (word_of_nat n :: u16)) :: u8) = word_of_nat (n div 256)"
proof -
  have "unat (drop_bit 8 (word_of_nat n :: u16)) = drop_bit 8 (unat (word_of_nat n :: u16))" by (rule unat_drop_bit_eq)
  also have "\<dots> = n div 256" using assms by (simp add: unat_of_nat drop_bit_eq_div)
  finally have "unat (ucast (drop_bit 8 (word_of_nat n :: u16)) :: u8) = n div 256 mod 256"
    by (simp only: unsigned_ucast_eq take_bit_eq_mod) simp
  then show ?thesis by (simp add: word_unat_eq_iff unat_of_nat)
qed

lemma next_record_frame:
  assumes "rr_buf rd = header_to_bytes h @ raw @ rest" "rhd_length h = word_of_nat (length raw)"
    "length raw \<le> max_record_len rd"
  shows "next_record ops rd =
    (case open_record ops h raw (rd\<lparr>rr_buf := rest\<rparr>) of (Inl e, rd1) \<Rightarrow> (Inl e, rd1) | (Inr rec, rd1) \<Rightarrow> (Inr (Some rec), rd1))"
proof -
  have "length raw < 65536"
    using assms(3) by (simp add: max_record_len_def MAX_RECORD_PAYLOAD_def split: if_splits)
  then have "unat (rhd_length h) = length raw" by (simp add: assms(2) unat_of_nat)
  then show ?thesis
    using assms(1,3) by (simp add: next_record_def RECORD_HEADER_SIZE_def Let_def)
qed

subsection \<open>The contract of a TLS 1.2 record cipher\<close>

definition sealed_aad :: "u64 \<Rightarrow> u8 \<Rightarrow> bytes \<Rightarrow> bytes" where
  "sealed_aad seq ct p =
     (let n = word_of_nat (length p) :: u16 in tls12_aad seq ct [0x03, 0x03, ucast (drop_bit 8 n), ucast n])"

text \<open>
  What the record layer relies on, for each kind of cipher: a payload of legal size can be sealed, grows by at most 256 bytes, and the
  reader's branch opens it under the header that the writer puts before it.
\<close>

locale record_cipher =
  fixes good :: "'c \<Rightarrow> bool"
    and seal :: "'c \<Rightarrow> u64 \<Rightarrow> bytes \<Rightarrow> bytes \<Rightarrow> 'r \<Rightarrow> bytes tls_result \<times> 'r"
    and unseal :: "'c \<Rightarrow> u64 \<Rightarrow> RecordHeader \<Rightarrow> bytes \<Rightarrow> bytes tls_result"
  assumes seal_unseal: "good c \<Longrightarrow> length p \<le> MAX_RECORD_PAYLOAD \<Longrightarrow>
    \<exists>raw r'. seal c seq (sealed_aad seq ct p) p r = (Inr raw, r') \<and> length raw \<le> MAX_RECORD_PAYLOAD + 256 \<and>
      unseal c seq \<lparr>rhd_content_type = ct, rhd_version = 0x0303, rhd_length = word_of_nat (length raw)\<rparr> raw = Inr p"
begin

lemma seal_injective:
  assumes "good c" "length p \<le> MAX_RECORD_PAYLOAD" "length q \<le> MAX_RECORD_PAYLOAD"
    "fst (seal c seq (sealed_aad seq ct p) p r) = fst (seal c seq (sealed_aad seq ct q) q r)"
  shows "p = q"
  using seal_unseal [OF assms(1,2), of seq ct r] seal_unseal [OF assms(1,3), of seq ct r] assms(4) by auto

end

definition gcm_good :: "'r crypto_ops \<times> Tls12GcmCipher \<Rightarrow> bool" where
  "gcm_good = (\<lambda>(ops, c). aead_ok ops \<and> length (gc_key c) = key_len (gc_algorithm c) \<and> length (gc_implicit_iv c) = 4)"

definition chacha_good :: "'r crypto_ops \<times> Tls12Chacha20Cipher \<Rightarrow> bool" where
  "chacha_good = (\<lambda>(ops, c). aead_ok ops \<and> length (cc_key c) = 32 \<and> length (cc_iv c) = 12)"

definition cbc_good :: "'r crypto_ops \<times> Tls12CbcCipher \<Rightarrow> bool" where
  "cbc_good = (\<lambda>(ops, c). hmac_ok ops \<and> cbc_ok ops \<and> rng_ok ops \<and>
     (length (cb_enc_key c) = 16 \<or> length (cb_enc_key c) = 32) \<and> cb_block_size c = 16)"

lemma aad_tail_sealed:
  assumes "n < 65536"
  shows "aad_tail \<lparr>rhd_content_type = ct, rhd_version = 0x0303, rhd_length = l\<rparr> n =
    [0x03, 0x03, ucast (drop_bit 8 (word_of_nat n :: u16)), ucast (word_of_nat n :: u16)]"
  by (simp add: aad_tail_def hi_byte [OF assms] lo_byte)

interpretation gcm: record_cipher gcm_good "\<lambda>(ops, c) seq aad p r. (gcm_encrypt ops c seq aad p, r)"
  "\<lambda>(ops, c). gcm_open ops c"
proof unfold_locales
  fix oc :: "'a crypto_ops \<times> Tls12GcmCipher" and p :: bytes and seq ct and r :: 'b
  assume g: "gcm_good oc" and p: "length p \<le> MAX_RECORD_PAYLOAD"
  obtain ops c where oc: "oc = (ops, c)" by fastforce
  have len: "length (gc_implicit_iv c @ u64_to_be seq) = 12" "length (gc_key c) = key_len (gc_algorithm c)" "length p < 2 ^ 32"
    and ok: "aead_ok ops" and small: "length p < 65536"
    using g p by (simp_all add: oc gcm_good_def MAX_RECORD_PAYLOAD_def)
  obtain b where b: "co_seal ops (gc_algorithm c) (gc_key c) (gc_implicit_iv c @ u64_to_be seq) (sealed_aad seq ct p) p = Some b"
    "length b = length p + 16"
    "co_open ops (gc_algorithm c) (gc_key c) (gc_implicit_iv c @ u64_to_be seq) (sealed_aad seq ct p) b = Some p"
    using aead_seal [OF ok len(2,1,3)] by metis
  have "gcm_open ops c seq \<lparr>rhd_content_type = ct, rhd_version = 0x0303, rhd_length = l\<rparr> (u64_to_be seq @ b) = Inr p" for l
    using b by (simp add: gcm_open_def gcm_decrypt_def aad_tail_sealed [OF small] sealed_aad_def Let_def)
  then show "\<exists>raw r'. (case oc of (ops, c) \<Rightarrow> \<lambda>seq aad p r. (gcm_encrypt ops c seq aad p, r)) seq (sealed_aad seq ct p) p r = (Inr raw, r') \<and>
      length raw \<le> MAX_RECORD_PAYLOAD + 256 \<and>
      (case oc of (ops, c) \<Rightarrow> gcm_open ops c) seq
        \<lparr>rhd_content_type = ct, rhd_version = 0x0303, rhd_length = word_of_nat (length raw)\<rparr> raw = Inr p"
    using b p by (simp add: oc gcm_encrypt_def Let_def MAX_RECORD_PAYLOAD_def)
qed

interpretation chacha: record_cipher chacha_good "\<lambda>(ops, c) seq aad p r. (chacha_encrypt ops c seq aad p, r)"
  "\<lambda>(ops, c). chacha_open ops c"
proof unfold_locales
  fix oc :: "'a crypto_ops \<times> Tls12Chacha20Cipher" and p :: bytes and seq ct and r :: 'b
  assume g: "chacha_good oc" and p: "length p \<le> MAX_RECORD_PAYLOAD"
  obtain ops c where oc: "oc = (ops, c)" by fastforce
  have len: "length (make_nonce (cc_iv c) seq) = 12" "length (cc_key c) = key_len Chacha20Poly1305" "length p < 2 ^ 32"
    and ok: "aead_ok ops" and small: "length p < 65536"
    using g p by (simp_all add: oc chacha_good_def MAX_RECORD_PAYLOAD_def length_make_nonce)
  obtain b where b: "co_seal ops Chacha20Poly1305 (cc_key c) (make_nonce (cc_iv c) seq) (sealed_aad seq ct p) p = Some b"
    "length b = length p + 16"
    "co_open ops Chacha20Poly1305 (cc_key c) (make_nonce (cc_iv c) seq) (sealed_aad seq ct p) b = Some p"
    using aead_seal [OF ok len(2,1,3)] by metis
  have "chacha_open ops c seq \<lparr>rhd_content_type = ct, rhd_version = 0x0303, rhd_length = l\<rparr> b = Inr p" for l
    using b by (simp add: chacha_open_def chacha_decrypt_def aad_tail_sealed [OF small] sealed_aad_def Let_def)
  then show "\<exists>raw r'. (case oc of (ops, c) \<Rightarrow> \<lambda>seq aad p r. (chacha_encrypt ops c seq aad p, r)) seq (sealed_aad seq ct p) p r = (Inr raw, r') \<and>
      length raw \<le> MAX_RECORD_PAYLOAD + 256 \<and>
      (case oc of (ops, c) \<Rightarrow> chacha_open ops c) seq
        \<lparr>rhd_content_type = ct, rhd_version = 0x0303, rhd_length = word_of_nat (length raw)\<rparr> raw = Inr p"
    using b p by (simp add: oc chacha_encrypt_def MAX_RECORD_PAYLOAD_def)
qed

lemma fix_aad_sealed:
  "fix_aad (tls12_aad seq ct [a, b, x, y]) (length p) =
     tls12_aad seq ct [a, b, ucast (drop_bit 8 (word_of_nat (length p) :: u16)), ucast (word_of_nat (length p) :: u16)]"
  by (simp add: fix_aad_def tls12_aad_def Let_def list_update_append eval_nat_numeral)

lemma cbc_encrypt_raw_ok:
  assumes "cbc_ok ops" "length (cb_enc_key c) = 16 \<or> length (cb_enc_key c) = 32" "length iv = 16" "16 dvd length d"
  obtains e where "cbc_encrypt_raw ops c iv d = Inr e" "length e = length d" "cbc_decrypt_raw ops c iv e = Inr d"
proof -
  obtain e where "co_cbc_encrypt ops (cb_enc_key c) iv d = Some e" "length e = length d"
    "co_cbc_decrypt ops (cb_enc_key c) iv e = Some d"
    using cbc_encrypt_ok [OF assms] by blast
  then show ?thesis using that [of e] assms(2) by (auto simp: cbc_encrypt_raw_def cbc_decrypt_raw_def)
qed

interpretation cbc: record_cipher cbc_good "\<lambda>(ops, c) seq aad p r. cbc_encrypt ops c aad p r" "\<lambda>(ops, c). cbc_open ops c"
proof unfold_locales
  fix oc :: "'a crypto_ops \<times> Tls12CbcCipher" and p :: bytes and seq ct r
  assume g: "cbc_good oc" and p: "length p \<le> MAX_RECORD_PAYLOAD"
  obtain ops c where oc: "oc = (ops, c)" by fastforce
  have ok: "hmac_ok ops" "cbc_ok ops" "rng_ok ops" "length (cb_enc_key c) = 16 \<or> length (cb_enc_key c) = 32"
    "cb_block_size c = 16"
    using g by (simp_all add: oc cbc_good_def)
  have three: "(771 :: u8) = 3" by simp
  let ?mac = "compute_mac ops c (sealed_aad seq ct p) p"
  have mac: "length ?mac \<le> 48" using length_compute_mac [OF ok(1)] by (cases "cb_mac_algorithm c") simp_all
  obtain n where n: "n < 256" "cbc_pad c p ?mac = p @ ?mac @ replicate (n + 1) (word_of_nat n)"
    "16 dvd length (cbc_pad c p ?mac)" "length (cbc_pad c p ?mac) \<le> length p + length ?mac + 17"
    using cbc_pad_shape [OF ok(5)] by blast
  obtain iv r' where iv: "co_fill ops 16 r = (Some iv, r')" "length iv = 16" using rng_fill [OF ok(3)] by blast
  obtain e where e: "cbc_encrypt_raw ops c iv (cbc_pad c p ?mac) = Inr e" "length e = length (cbc_pad c p ?mac)"
    "cbc_decrypt_raw ops c iv e = Inr (cbc_pad c p ?mac)"
    using cbc_encrypt_raw_ok [OF ok(2,4) iv(2) n(3)] by blast
  have "0 < length (cbc_pad c p ?mac)" using n(2) by simp
  then have "16 \<le> length e" "length e mod 16 = 0" using n(3) e(2) by (auto dest: dvd_imp_le)
  moreover have "cbc_check ops c (tls12_aad seq ct [0x03, 0x03, x, y]) (cbc_pad c p ?mac) = Inr p" for x y
    using cbc_check_accepts [OF ok(1) n(1), of "cbc_pad c p ?mac" p c "tls12_aad seq ct [0x03, 0x03, x, y]"] n(2)
    by (simp add: fix_aad_sealed sealed_aad_def Let_def)
  ultimately have "cbc_open ops c seq \<lparr>rhd_content_type = ct, rhd_version = 0x0303, rhd_length = l\<rparr> (iv @ e) = Inr p" for l
    using iv(2) ok(5) e(3) by (simp add: cbc_open_def cbc_decrypt_def result_bind_def Let_def three)
  moreover have "length (iv @ e) \<le> MAX_RECORD_PAYLOAD + 256" using iv(2) e(2) n(4) mac p by simp
  ultimately show "\<exists>raw r'. (case oc of (ops, c) \<Rightarrow> \<lambda>seq aad p r. cbc_encrypt ops c aad p r) seq (sealed_aad seq ct p) p r = (Inr raw, r') \<and>
      length raw \<le> MAX_RECORD_PAYLOAD + 256 \<and>
      (case oc of (ops, c) \<Rightarrow> cbc_open ops c) seq
        \<lparr>rhd_content_type = ct, rhd_version = 0x0303, rhd_length = word_of_nat (length raw)\<rparr> raw = Inr p"
    using iv(1) e(1) by (simp add: oc cbc_encrypt_def result_bind_def Let_def)
qed

subsection \<open>One record\<close>

definition aead_good :: "'r crypto_ops \<Rightarrow> Aead \<Rightarrow> bool" where
  "aead_good ops a \<longleftrightarrow> aead_ok ops \<and> length (ae_key a) = key_len (ae_algorithm a) \<and> length (ae_iv a) = 12"

definition cipher_good :: "'r crypto_ops \<Rightarrow> Tls12RecordCipher \<Rightarrow> bool" where
  "cipher_good ops cipher =
     (case cipher of RC_Gcm c \<Rightarrow> gcm_good (ops, c) | RC_Chacha20 c \<Rightarrow> chacha_good (ops, c) | RC_Cbc c \<Rightarrow> cbc_good (ops, c))"

definition protection_ok :: "'r crypto_ops \<Rightarrow> RecordWriter \<Rightarrow> bool" where
  "protection_ok ops w =
     (case rw_tls12_cipher w of
        Some cipher \<Rightarrow> cipher_good ops cipher
      | None \<Rightarrow> (case rw_aead w of Some a \<Rightarrow> aead_good ops a | None \<Rightarrow> True))"

text \<open>Writer and reader have the same keys and are at the same record.\<close>

definition linked :: "RecordWriter \<Rightarrow> RecordReader \<Rightarrow> bool" where
  "linked w rd \<longleftrightarrow>
     rw_seq_num w = rr_seq_num rd \<and> rw_aead w = rr_aead rd \<and> rw_tls12_cipher w = rr_tls12_cipher rd"

lemma tls12_seal_unseal:
  assumes "cipher_good ops cipher" "length p \<le> MAX_RECORD_PAYLOAD"
  shows "\<exists>raw r'. tls12_encrypt ops cipher seq (sealed_aad seq ct p) p r = (Inr raw, r') \<and> length raw \<le> MAX_RECORD_PAYLOAD + 256 \<and>
    tls12_decrypt ops cipher seq \<lparr>rhd_content_type = ct, rhd_version = 0x0303, rhd_length = word_of_nat (length raw)\<rparr> raw = Inr p"
proof (cases cipher)
  case (RC_Gcm c)
  then show ?thesis using gcm.seal_unseal [of "(ops, c)" p seq ct r] assms
    by (auto simp: cipher_good_def tls12_encrypt_def tls12_decrypt_def)
next
  case (RC_Chacha20 c)
  then show ?thesis using chacha.seal_unseal [of "(ops, c)" p seq ct r] assms
    by (auto simp: cipher_good_def tls12_encrypt_def tls12_decrypt_def)
next
  case (RC_Cbc c)
  then show ?thesis using cbc.seal_unseal [of "(ops, c)" p seq ct r] assms
    by (auto simp: cipher_good_def tls12_encrypt_def tls12_decrypt_def)
qed

lemma aead_seal_unseal:
  assumes "aead_good ops a" "length p \<le> MAX_RECORD_PAYLOAD"
  shows "\<exists>raw. aead_encrypt ops a seq aad (p @ [ct]) = Inr raw \<and> length raw = length p + 17 \<and>
    aead_decrypt ops a seq aad raw = Inr (p @ [ct])"
proof -
  have len: "aead_ok ops" "length (ae_key a) = key_len (ae_algorithm a)" "length (make_nonce (ae_iv a) seq) = 12"
    "length (p @ [ct]) < 2 ^ 32"
    using assms by (simp_all add: aead_good_def length_make_nonce MAX_RECORD_PAYLOAD_def)
  obtain raw where "co_seal ops (ae_algorithm a) (ae_key a) (make_nonce (ae_iv a) seq) aad (p @ [ct]) = Some raw"
    "length raw = length (p @ [ct]) + 16"
    "co_open ops (ae_algorithm a) (ae_key a) (make_nonce (ae_iv a) seq) aad raw = Some (p @ [ct])"
    using aead_seal [OF len] by blast
  then show ?thesis by (simp add: aead_encrypt_def aead_decrypt_def)
qed

lemma strip_inner: "ct \<noteq> 0 \<Longrightarrow> strip_inner_content_type (p @ [ct]) = Inr (ct, p)"
  by (simp add: strip_inner_content_type_def)

lemma seq_next_small: "unat s + 1 < 2 ^ 64 \<Longrightarrow> seq_next s = Some (s + 1) \<and> unat (s + 1) = unat s + 1"
  by (simp add: seq_next_def unat_word_ariths)

text \<open>What one call of the writer did, as the next call of a linked reader sees it.\<close>

definition record_passes ::
  "'r crypto_ops \<Rightarrow> bytes \<Rightarrow> PlaintextRecord \<Rightarrow> RecordWriter \<Rightarrow> RecordWriter \<Rightarrow> RecordReader \<Rightarrow> bool" where
  "record_passes ops bs rec w w' rd \<longleftrightarrow>
     rw_flush_strategy w' = rw_flush_strategy w \<and> rw_coalesce_buf w' = rw_coalesce_buf w \<and>
     rw_aead w' = rw_aead w \<and> rw_tls12_cipher w' = rw_tls12_cipher w \<and> unat (rw_seq_num w') \<le> unat (rw_seq_num w) + 1 \<and>
     (\<forall>rest. \<exists>rd'. next_record ops (rd\<lparr>rr_buf := bs @ rest\<rparr>) = (Inr (Some rec), rd') \<and> rr_buf rd' = rest \<and> linked w' rd')"

lemma tls12_record_passes:
  assumes "cipher_good ops cipher" "rw_tls12_cipher w = Some cipher" "linked w rd" "length p \<le> MAX_RECORD_PAYLOAD"
    "unat (rw_seq_num w) + 1 < 2 ^ 64"
  shows "\<exists>bs w' r'. encode_tls12_encrypted_record ops cipher ct p w r = (Inr bs, w', r') \<and>
    record_passes ops bs \<lparr>pl_content_type = ct, pl_payload = p\<rparr> w w' rd"
proof -
  let ?s = "rw_seq_num w"
  obtain raw r' where raw: "tls12_encrypt ops cipher ?s (sealed_aad ?s ct p) p r = (Inr raw, r')"
    "length raw \<le> MAX_RECORD_PAYLOAD + 256"
    "tls12_decrypt ops cipher ?s \<lparr>rhd_content_type = ct, rhd_version = 0x0303, rhd_length = word_of_nat (length raw)\<rparr> raw = Inr p"
    using tls12_seal_unseal [OF assms(1,4)] by blast
  let ?h = "\<lparr>rhd_content_type = ct, rhd_version = 0x0303, rhd_length = word_of_nat (length raw)\<rparr>"
  note sn = seq_next_small [OF assms(5)]
  have enc: "encode_tls12_encrypted_record ops cipher ct p w r = (Inr (header_to_bytes ?h @ raw), w\<lparr>rw_seq_num := ?s + 1\<rparr>, r')"
    using raw(1) sn by (simp add: encode_tls12_encrypted_record_def sealed_aad_def Let_def)
  have rd: "rr_seq_num rd = ?s" "rr_tls12_cipher rd = Some cipher" "rr_aead rd = rw_aead w"
    using assms(2,3) by (auto simp: linked_def)
  have next_rec: "next_record ops (rd\<lparr>rr_buf := (header_to_bytes ?h @ raw) @ rest\<rparr>) =
      (Inr (Some \<lparr>pl_content_type = ct, pl_payload = p\<rparr>), rd\<lparr>rr_buf := rest, rr_seq_num := ?s + 1\<rparr>)" for rest
    using next_record_frame [of "rd\<lparr>rr_buf := (header_to_bytes ?h @ raw) @ rest\<rparr>" ?h raw rest ops] raw(2,3) sn rd
    by (simp add: max_record_len_def open_record_def)
  have "record_passes ops (header_to_bytes ?h @ raw) \<lparr>pl_content_type = ct, pl_payload = p\<rparr> w (w\<lparr>rw_seq_num := ?s + 1\<rparr>) rd"
    unfolding record_passes_def next_rec using sn rd assms(2) by (simp add: linked_def)
  then show ?thesis using enc by blast
qed

lemma tls13_record_passes:
  assumes "aead_good ops a" "rw_tls12_cipher w = None" "rw_aead w = Some a" "linked w rd" "length p \<le> MAX_RECORD_PAYLOAD"
    "unat (rw_seq_num w) + 1 < 2 ^ 64" "ct \<noteq> 0"
  shows "\<exists>bs w'. encode_tls13_encrypted_record ops a ct p w = (Inr bs, w') \<and>
    record_passes ops bs \<lparr>pl_content_type = ct, pl_payload = p\<rparr> w w' rd"
proof -
  let ?s = "rw_seq_num w"
  let ?h = "\<lparr>rhd_content_type = APPLICATION_DATA, rhd_version = 0x0303, rhd_length = word_of_nat (length p + 17)\<rparr>"
  obtain raw where raw: "aead_encrypt ops a ?s (header_to_bytes ?h) (p @ [ct]) = Inr raw" "length raw = length p + 17"
    "aead_decrypt ops a ?s (header_to_bytes ?h) raw = Inr (p @ [ct])"
    using aead_seal_unseal [OF assms(1,5)] by blast
  note sn = seq_next_small [OF assms(6)]
  have enc: "encode_tls13_encrypted_record ops a ct p w = (Inr (header_to_bytes ?h @ raw), w\<lparr>rw_seq_num := ?s + 1\<rparr>)"
    using raw(1) sn by (simp add: encode_tls13_encrypted_record_def tag_len_def Let_def ac_simps)
  have rd: "rr_seq_num rd = ?s" "rr_tls12_cipher rd = None" "rr_aead rd = Some a"
    using assms(2,3,4) by (auto simp: linked_def)
  have next_rec: "next_record ops (rd\<lparr>rr_buf := (header_to_bytes ?h @ raw) @ rest\<rparr>) =
      (Inr (Some \<lparr>pl_content_type = ct, pl_payload = p\<rparr>), rd\<lparr>rr_buf := rest, rr_seq_num := ?s + 1\<rparr>)" for rest
    using next_record_frame [of "rd\<lparr>rr_buf := (header_to_bytes ?h @ raw) @ rest\<rparr>" ?h raw rest ops] raw(2,3) sn rd
      assms(5) strip_inner [OF assms(7)]
    by (simp add: max_record_len_def open_record_def)
  have "record_passes ops (header_to_bytes ?h @ raw) \<lparr>pl_content_type = ct, pl_payload = p\<rparr> w (w\<lparr>rw_seq_num := ?s + 1\<rparr>) rd"
    unfolding record_passes_def next_rec using sn rd assms(2,3) by (simp add: linked_def)
  then show ?thesis using enc by blast
qed

lemma plaintext_record_passes:
  assumes "rw_tls12_cipher w = None" "rw_aead w = None" "linked w rd" "length p \<le> MAX_RECORD_PAYLOAD"
  shows "\<exists>bs w'. encode_plaintext_record ct p w = (Inr bs, w') \<and>
    record_passes ops bs \<lparr>pl_content_type = ct, pl_payload = p\<rparr> w w' rd"
proof -
  let ?h = "\<lparr>rhd_content_type = ct, rhd_version = (if \<not> rw_first_record_sent w then 0x0301 else 0x0303),
    rhd_length = word_of_nat (length p)\<rparr>"
  let ?w = "w\<lparr>rw_first_record_sent := True\<rparr>"
  have enc: "encode_plaintext_record ct p w = (Inr (header_to_bytes ?h @ p), ?w)"
    using assms(4) by (simp add: encode_plaintext_record_def Let_def)
  have rd: "rr_seq_num rd = rw_seq_num w" "rr_tls12_cipher rd = None" "rr_aead rd = None"
    using assms(1,2,3) by (auto simp: linked_def)
  have next_rec: "next_record ops (rd\<lparr>rr_buf := (header_to_bytes ?h @ p) @ rest\<rparr>) =
      (Inr (Some \<lparr>pl_content_type = ct, pl_payload = p\<rparr>), rd\<lparr>rr_buf := rest\<rparr>)" for rest
    using next_record_frame [of "rd\<lparr>rr_buf := (header_to_bytes ?h @ p) @ rest\<rparr>" ?h p rest ops] rd assms(4)
    by (simp add: max_record_len_def open_record_def Let_def)
  have "record_passes ops (header_to_bytes ?h @ p) \<lparr>pl_content_type = ct, pl_payload = p\<rparr> w ?w rd"
    unfolding record_passes_def next_rec using rd assms(1,2) by (simp add: linked_def)
  then show ?thesis using enc by blast
qed

lemma single_record_passes:
  assumes "protection_ok ops w" "linked w rd" "length p \<le> MAX_RECORD_PAYLOAD" "unat (rw_seq_num w) + 1 < 2 ^ 64" "ct \<noteq> 0"
  shows "\<exists>bs w' r'. encode_single_record ops ct p w r = (Inr bs, w', r') \<and>
    record_passes ops bs \<lparr>pl_content_type = ct, pl_payload = p\<rparr> w w' rd"
proof (cases "rw_tls12_cipher w")
  case (Some cipher)
  then show ?thesis
    using tls12_record_passes [OF _ Some assms(2,3,4), of ops ct r] assms(1) by (simp add: protection_ok_def encode_single_record_def)
next
  case no12: None
  show ?thesis
  proof (cases "rw_aead w")
    case None
    obtain bs w' where "encode_plaintext_record ct p w = (Inr bs, w')"
      "record_passes ops bs \<lparr>pl_content_type = ct, pl_payload = p\<rparr> w w' rd"
      using plaintext_record_passes [OF no12 None assms(2,3), of ct ops] by blast
    then show ?thesis using no12 None by (simp add: encode_single_record_def)
  next
    case (Some a)
    obtain bs w' where "encode_tls13_encrypted_record ops a ct p w = (Inr bs, w')"
      "record_passes ops bs \<lparr>pl_content_type = ct, pl_payload = p\<rparr> w w' rd"
      using tls13_record_passes [OF _ no12 Some assms(2,3,4,5), of ops] assms(1) no12 Some by (auto simp: protection_ok_def)
    then show ?thesis using no12 Some by (simp add: encode_single_record_def)
  qed
qed

subsection \<open>Sessions\<close>

text \<open>A sequence of calls of the writer, with the bytes that it returns.\<close>

fun write_all ::
  "'r crypto_ops \<Rightarrow> (u8 \<times> bytes) list \<Rightarrow> RecordWriter \<Rightarrow> 'r \<Rightarrow> bytes tls_result \<times> RecordWriter \<times> 'r" where
  "write_all ops [] w r = (Inr [], w, r)"
| "write_all ops ((ct, payload) # ms) w r =
     (case write_record ops ct payload w r of
        (Inl e, w1, r1) \<Rightarrow> (Inl e, w1, r1)
      | (Inr out, w1, r1) \<Rightarrow>
          (case write_all ops ms w1 r1 of
             (Inl e, w2, r2) \<Rightarrow> (Inl e, w2, r2)
           | (Inr out', w2, r2) \<Rightarrow> (Inr (out @ out'), w2, r2)))"

lemma next_record_shorter:
  assumes "next_record ops rd = (Inr (Some rec), rd')"
  shows "length (rr_buf rd') < length (rr_buf rd)"
proof -
  have "rr_buf (snd (open_record ops h raw x)) = rr_buf x" for h raw x
    by (simp add: open_record_def Let_def split: option.split sum.split prod.split)
  then have "open_record ops h raw x = (y, x') \<Longrightarrow> rr_buf x' = rr_buf x" for h raw x y x' by (metis snd_conv)
  then show ?thesis
    using assms by (auto simp: next_record_def RECORD_HEADER_SIZE_def Let_def split: if_splits prod.splits sum.splits)
qed

text \<open>The reader's loop: all complete records, and the error that stopped it.\<close>

function read_all ::
  "'r crypto_ops \<Rightarrow> RecordReader \<Rightarrow> PlaintextRecord list \<times> TlsError option \<times> RecordReader" where
  "read_all ops rd =
     (case next_record ops rd of
        (Inl e, rd1) \<Rightarrow> ([], Some e, rd1)
      | (Inr None, rd1) \<Rightarrow> ([], None, rd1)
      | (Inr (Some rec), rd1) \<Rightarrow> (let (recs, res, rd2) = read_all ops rd1 in (rec # recs, res, rd2)))"
  by pat_completeness auto
termination
  by (relation "measure (\<lambda>(ops, rd). length (rr_buf rd))") (auto dest!: sym [of _ "next_record _ _"] next_record_shorter)

declare read_all.simps [simp del]

text \<open>The same when the bytes arrive in pieces, reading after each.\<close>

fun feed_all ::
  "'r crypto_ops \<Rightarrow> bytes list \<Rightarrow> RecordReader \<Rightarrow> PlaintextRecord list \<times> TlsError option \<times> RecordReader" where
  "feed_all ops [] rd = ([], None, rd)"
| "feed_all ops (piece # pieces) rd =
     (case read_all ops (feed piece rd) of
        (recs, Some e, rd1) \<Rightarrow> (recs, Some e, rd1)
      | (recs, None, rd1) \<Rightarrow> (let (recs', res, rd2) = feed_all ops pieces rd1 in (recs @ recs', res, rd2)))"

lemma open_record_feed:
  "open_record ops h raw (feed b rd) = map_prod id (feed b) (open_record ops h raw rd)"
  by (simp add: open_record_def feed_def Let_def split: option.split sum.split prod.split)

lemma next_record_feed:
  assumes "next_record ops rd = (res, rd1)" "res \<noteq> Inr None"
  shows "next_record ops (feed b rd) = (res, feed b rd1)"
proof (cases "length (rr_buf rd) < 5")
  case True
  then show ?thesis using assms by (auto simp: next_record_def RECORD_HEADER_SIZE_def)
next
  case False
  define h where "h = header_from_bytes (take 5 (rr_buf rd))"
  have f: "rr_buf (feed b rd) = rr_buf rd @ b" "max_record_len (feed b rd) = max_record_len rd"
    by (simp_all add: feed_def max_record_len_def)
  have upd: "(feed b rd)\<lparr>rr_buf := x @ b\<rparr> = feed b (rd\<lparr>rr_buf := x\<rparr>)" for x by (simp add: feed_def)
  show ?thesis
  proof (cases "unat (rhd_length h) > max_record_len rd")
    case True
    then show ?thesis using assms(1) False f by (auto simp: next_record_def RECORD_HEADER_SIZE_def Let_def h_def)
  next
    case fits: False
    show ?thesis
    proof (cases "length (rr_buf rd) < 5 + unat (rhd_length h)")
      case True
      then show ?thesis using assms False fits by (auto simp: next_record_def RECORD_HEADER_SIZE_def Let_def h_def)
    next
      case all: False
      let ?n = "unat (rhd_length h)"
      have "next_record ops rd =
          (case open_record ops h (take ?n (drop 5 (rr_buf rd))) (rd\<lparr>rr_buf := drop (5 + ?n) (rr_buf rd)\<rparr>) of
             (Inl e, rd1) \<Rightarrow> (Inl e, rd1) | (Inr rec, rd1) \<Rightarrow> (Inr (Some rec), rd1))"
        using False fits all by (simp add: next_record_def RECORD_HEADER_SIZE_def Let_def h_def)
      moreover have "next_record ops (feed b rd) =
          (case open_record ops h (take ?n (drop 5 (rr_buf rd))) (feed b (rd\<lparr>rr_buf := drop (5 + ?n) (rr_buf rd)\<rparr>)) of
             (Inl e, rd1) \<Rightarrow> (Inl e, rd1) | (Inr rec, rd1) \<Rightarrow> (Inr (Some rec), rd1))"
        using False fits all by (simp add: next_record_def RECORD_HEADER_SIZE_def Let_def h_def [symmetric] f upd [symmetric])
      ultimately show ?thesis
        using assms(1) by (auto simp: open_record_feed split: prod.splits sum.splits)
    qed
  qed
qed

lemma next_record_waits: "next_record ops rd = (Inr None, rd1) \<Longrightarrow> rd1 = rd"
  by (auto simp: next_record_def Let_def split: if_splits prod.splits sum.splits)

lemma read_all_feed:
  "read_all ops rd = (recs, None, rd1) \<Longrightarrow>
   read_all ops (feed b rd) = (let (recs', res, rd2) = read_all ops (feed b rd1) in (recs @ recs', res, rd2)) \<and>
   next_record ops rd1 = (Inr None, rd1)"
  "read_all ops rd = (recs, Some e, rd1) \<Longrightarrow> \<exists>rd2. read_all ops (feed b rd) = (recs, Some e, rd2)"
proof (induction ops rd arbitrary: recs rd1 rule: read_all.induct)
  case (1 ops rd)
  obtain res rd' where n: "next_record ops rd = (res, rd')" by fastforce
  consider (err) x where "res = Inl x" | (wait) "res = Inr None" | (rec) x where "res = Inr (Some x)"
    by (metis not_None_eq sum.exhaust)
  note cases = this
  { case 1
    from cases show ?case
    proof cases
      case err
      then show ?thesis using 1 n by (subst (asm) read_all.simps) simp
    next
      case wait
      then have "recs = []" "rd1 = rd" "rd' = rd" using 1 n next_record_waits by (subst (asm) read_all.simps, auto)+
      then show ?thesis using n wait by simp
    next
      case (rec x)
      obtain recs2 res2 rd2 where r: "read_all ops rd' = (recs2, res2, rd2)" by (metis surj_pair)
      have e: "recs = x # recs2" "res2 = None" "rd2 = rd1" using 1 n rec r by (subst (asm) read_all.simps, simp)+
      have IH: "read_all ops (feed b rd') = (let (recs', res, rd2) = read_all ops (feed b rd1) in (recs2 @ recs', res, rd2))"
        "next_record ops rd1 = (Inr None, rd1)"
        using "1.IH"(1) [OF n [symmetric]] rec r e by auto
      have "next_record ops (feed b rd) = (Inr (Some x), feed b rd')" using next_record_feed [OF n] rec by simp
      then show ?thesis using IH e by (subst read_all.simps) (simp add: split_beta Let_def)
    qed }
  { case 2
    from cases show ?case
    proof cases
      case (err x)
      then have "recs = []" "e = x" using 2 n by (subst (asm) read_all.simps, simp)+
      moreover have "next_record ops (feed b rd) = (Inl x, feed b rd')" using next_record_feed [OF n] err by simp
      ultimately show ?thesis by (subst read_all.simps) simp
    next
      case wait
      then show ?thesis using 2 n by (subst (asm) read_all.simps) simp
    next
      case (rec x)
      obtain recs2 res2 rd2 where r: "read_all ops rd' = (recs2, res2, rd2)" by (metis surj_pair)
      have e: "recs = x # recs2" "res2 = Some e" "rd2 = rd1" using 2 n rec r by (subst (asm) read_all.simps, simp)+
      obtain rd3 where IH: "read_all ops (feed b rd') = (recs2, Some e, rd3)"
        using "1.IH"(2) [OF n [symmetric] rec refl, of recs2 rd1] r e by auto
      have "next_record ops (feed b rd) = (Inr (Some x), feed b rd')" using next_record_feed [OF n] rec by simp
      then show ?thesis using IH e by (subst read_all.simps) simp
    qed }
qed

lemma feed_feed: "feed b (feed a rd) = feed (a @ b) rd"
  by (simp add: feed_def)

lemma feed_all_read_all:
  assumes "next_record ops rd = (Inr None, rd)" "read_all ops (feed (concat pieces) rd) = (recs, None, rd')"
  shows "feed_all ops pieces rd = (recs, None, rd')"
  using assms
proof (induction pieces arbitrary: rd recs)
  case Nil
  have "feed [] rd = rd" by (simp add: feed_def)
  then show ?case using Nil by (subst (asm) read_all.simps) simp
next
  case (Cons p ps)
  obtain recs1 res1 rd1 where r: "read_all ops (feed p rd) = (recs1, res1, rd1)" by (metis surj_pair)
  have total: "read_all ops (feed (concat ps) (feed p rd)) = (recs, None, rd')" using Cons.prems(2) by (simp add: feed_feed)
  have none: "res1 = None"
  proof (cases res1)
    case (Some e)
    then show ?thesis using read_all_feed(2) [OF r [unfolded Some], of "concat ps"] total by auto
  qed simp
  obtain recs2 res2 rd2 where r2: "read_all ops (feed (concat ps) rd1) = (recs2, res2, rd2)" by (metis surj_pair)
  have "recs = recs1 @ recs2" "res2 = None" "rd2 = rd'"
    using read_all_feed(1) [OF r [unfolded none], of "concat ps"] total r2 by auto
  moreover have "next_record ops rd1 = (Inr None, rd1)" using read_all_feed(1) [OF r [unfolded none]] by blast
  ultimately show ?case using Cons.IH [of rd1 recs2] r none r2 by simp
qed

fun reads :: "'r crypto_ops \<Rightarrow> PlaintextRecord list \<Rightarrow> RecordReader \<Rightarrow> RecordReader \<Rightarrow> bool" where
  "reads ops [] rd rd' \<longleftrightarrow> rd' = rd"
| "reads ops (x # xs) rd rd' \<longleftrightarrow> (\<exists>rd1. next_record ops rd = (Inr (Some x), rd1) \<and> reads ops xs rd1 rd')"

lemma reads_append: "reads ops (xs @ ys) rd rd' \<longleftrightarrow> (\<exists>rd1. reads ops xs rd rd1 \<and> reads ops ys rd1 rd')"
  by (induction xs arbitrary: rd) auto

lemma reads_read_all: "reads ops xs rd rd' \<Longrightarrow> rr_buf rd' = [] \<Longrightarrow> read_all ops rd = (xs, None, rd')"
proof (induction xs arbitrary: rd)
  case Nil
  then have "next_record ops rd = (Inr None, rd)" by (simp add: next_record_def RECORD_HEADER_SIZE_def)
  then show ?case using Nil by (subst read_all.simps) simp
next
  case (Cons x xs)
  then show ?case by (subst read_all.simps) auto
qed

text \<open>The records of a call, and what several calls did, as a linked reader sees it.\<close>

definition fragments :: "u8 \<times> bytes \<Rightarrow> PlaintextRecord list" where
  "fragments m =
     map (\<lambda>c. \<lparr>pl_content_type = fst m, pl_payload = c\<rparr>)
       (if snd m = [] then [[]] else chunks MAX_RECORD_PAYLOAD (snd m))"

definition session_passes ::
  "'r crypto_ops \<Rightarrow> bytes \<Rightarrow> PlaintextRecord list \<Rightarrow> RecordWriter \<Rightarrow> RecordWriter \<Rightarrow> RecordReader \<Rightarrow> bool" where
  "session_passes ops bs recs w w' rd \<longleftrightarrow>
     rw_flush_strategy w' = rw_flush_strategy w \<and>
     rw_coalesce_buf w' = rw_coalesce_buf w @ (if rw_flush_strategy w = FS_Immediate then [] else bs) \<and>
     rw_aead w' = rw_aead w \<and> rw_tls12_cipher w' = rw_tls12_cipher w \<and>
     unat (rw_seq_num w') \<le> unat (rw_seq_num w) + length recs \<and>
     (\<forall>rest. \<exists>rd'. reads ops recs (rd\<lparr>rr_buf := bs @ rest\<rparr>) rd' \<and> rr_buf rd' = rest \<and> linked w' rd')"

lemma linked_buf: "linked w (rd\<lparr>rr_buf := x\<rparr>) \<longleftrightarrow> linked w rd"
  by (simp add: linked_def)

lemma session_passes_append:
  assumes "session_passes ops bs xs w w1 rd" "\<And>rd1. linked w1 rd1 \<Longrightarrow> session_passes ops bs' ys w1 w2 rd1"
  shows "session_passes ops (bs @ bs') (xs @ ys) w w2 rd"
proof -
  have "\<exists>rd'. reads ops (xs @ ys) (rd\<lparr>rr_buf := (bs @ bs') @ rest\<rparr>) rd' \<and> rr_buf rd' = rest \<and> linked w2 rd'" for rest
  proof -
    obtain rd1 where 1: "reads ops xs (rd\<lparr>rr_buf := bs @ bs' @ rest\<rparr>) rd1" "rr_buf rd1 = bs' @ rest" "linked w1 rd1"
      using assms(1) unfolding session_passes_def by blast
    have "rd1\<lparr>rr_buf := bs' @ rest\<rparr> = rd1" using 1(2) by simp
    then obtain rd' where "reads ops ys rd1 rd'" "rr_buf rd' = rest" "linked w2 rd'"
      using assms(2) [OF 1(3)] unfolding session_passes_def by metis
    then show ?thesis using 1(1) by (auto simp: reads_append)
  qed
  moreover obtain rd1 where "linked w1 rd1" using assms(1) unfolding session_passes_def by blast
  then have "session_passes ops bs' ys w1 w2 rd1" by (rule assms(2))
  ultimately show ?thesis using assms(1) unfolding session_passes_def by auto
qed

lemma write_chunks_passes:
  assumes "protection_ok ops w" "linked w rd" "\<And>c. c \<in> set cs \<Longrightarrow> length c \<le> MAX_RECORD_PAYLOAD"
    "unat (rw_seq_num w) + length cs < 2 ^ 64" "ct \<noteq> 0"
  shows "\<exists>bs w' r'. write_chunks ops ct cs out w r = (Inr (out @ (if rw_flush_strategy w = FS_Immediate then bs else [])), w', r') \<and>
    (\<forall>rd. linked w rd \<longrightarrow> session_passes ops bs (map (\<lambda>c. \<lparr>pl_content_type = ct, pl_payload = c\<rparr>) cs) w w' rd)"
  using assms
proof (induction cs arbitrary: out w r rd)
  case Nil
  have "session_passes ops [] [] w w rd" if "linked w rd" for rd
    using that by (simp add: session_passes_def linked_buf)
  then show ?case by (intro exI [of _ "[]"] exI [of _ w] exI [of _ r]) simp
next
  case (Cons c cs)
  let ?rec = "\<lparr>pl_content_type = ct, pl_payload = c\<rparr>"
  have c: "length c \<le> MAX_RECORD_PAYLOAD" "unat (rw_seq_num w) + 1 < 2 ^ 64" using Cons.prems(3,4) by auto
  obtain bs w1 r1 where e: "encode_single_record ops ct c w r = (Inr bs, w1, r1)" "record_passes ops bs ?rec w w1 rd"
    using single_record_passes [OF Cons.prems(1,2) c Cons.prems(5), of r] by blast
  define w2 where "w2 = (if rw_flush_strategy w = FS_Immediate then w1 else w1\<lparr>rw_coalesce_buf := rw_coalesce_buf w1 @ bs\<rparr>)"
  have one: "session_passes ops bs [?rec] w w2 rd'" if l: "linked w rd'" for rd'
  proof -
    have "record_passes ops bs ?rec w w1 rd'"
      using single_record_passes [OF Cons.prems(1) l c Cons.prems(5), of r] e(1) by auto
    then show ?thesis by (auto simp: session_passes_def record_passes_def w2_def linked_def)
  qed
  obtain rd2 where rd2: "linked w2 rd2" using one [OF Cons.prems(2)] unfolding session_passes_def by blast
  have w2: "protection_ok ops w2" "unat (rw_seq_num w2) + length cs < 2 ^ 64" "rw_flush_strategy w2 = rw_flush_strategy w"
    using e(2) Cons.prems(1,4) by (auto simp: record_passes_def protection_ok_def w2_def split: option.splits)
  let ?out = "if rw_flush_strategy w = FS_Immediate then out @ bs else out"
  obtain bs' w' r' where IH: "write_chunks ops ct cs ?out w2 r1 =
      (Inr (?out @ (if rw_flush_strategy w2 = FS_Immediate then bs' else [])), w', r')"
    "\<And>rd. linked w2 rd \<Longrightarrow> session_passes ops bs' (map (\<lambda>c. \<lparr>pl_content_type = ct, pl_payload = c\<rparr>) cs) w2 w' rd"
    using Cons.IH [OF w2(1) rd2 _ w2(2) Cons.prems(5), of ?out r1] Cons.prems(3) by auto
  have "rw_flush_strategy w1 = rw_flush_strategy w" using e(2) by (simp add: record_passes_def)
  then have "write_chunks ops ct (c # cs) out w r =
      (Inr (out @ (if rw_flush_strategy w = FS_Immediate then bs @ bs' else [])), w', r')"
    using e(1) IH(1) w2(3) by (cases "rw_flush_strategy w") (simp_all add: w2_def)
  moreover have "session_passes ops (bs @ bs') (map (\<lambda>c. \<lparr>pl_content_type = ct, pl_payload = c\<rparr>) (c # cs)) w w' rd'" if "linked w rd'" for rd'
    using session_passes_append [OF one [OF that] IH(2)] by simp
  ultimately show ?case by blast
qed

lemma protection_ok_cong:
  "protection_ok ops w \<Longrightarrow> rw_aead w' = rw_aead w \<Longrightarrow> rw_tls12_cipher w' = rw_tls12_cipher w \<Longrightarrow> protection_ok ops w'"
  by (simp add: protection_ok_def split: option.splits)

lemma write_record_passes:
  assumes "protection_ok ops w" "linked w rd" "unat (rw_seq_num w) + length (fragments (ct, payload)) < 2 ^ 64" "ct \<noteq> 0"
  shows "\<exists>bs w' r'. write_record ops ct payload w r = (Inr (if rw_flush_strategy w = FS_Immediate then bs else []), w', r') \<and>
    (\<forall>rd. linked w rd \<longrightarrow> session_passes ops bs (fragments (ct, payload)) w w' rd)"
proof -
  let ?cs = "if payload = [] then [[]] else chunks MAX_RECORD_PAYLOAD payload"
  have "length c \<le> MAX_RECORD_PAYLOAD" if "c \<in> set ?cs" for c
    using that chunks_bounds [of c MAX_RECORD_PAYLOAD payload] by (auto simp: MAX_RECORD_PAYLOAD_def split: if_splits)
  then show ?thesis
    using write_chunks_passes [OF assms(1,2), of ?cs ct "[]" r] assms(3,4)
    by (auto simp: write_record_def fragments_def split: if_splits)
qed

lemma write_all_passes:
  assumes "protection_ok ops w" "linked w rd" "unat (rw_seq_num w) + length (concat (map fragments ms)) < 2 ^ 64"
    "list_all (\<lambda>m. fst m \<noteq> 0) ms"
  shows "\<exists>bs w' r'. write_all ops ms w r = (Inr (if rw_flush_strategy w = FS_Immediate then bs else []), w', r') \<and>
    (\<forall>rd. linked w rd \<longrightarrow> session_passes ops bs (concat (map fragments ms)) w w' rd)"
  using assms
proof (induction ms arbitrary: w r rd)
  case Nil
  have "session_passes ops [] [] w w rd" if "linked w rd" for rd
    using that by (simp add: session_passes_def linked_buf)
  then show ?case by (intro exI [of _ "[]"] exI [of _ w] exI [of _ r]) simp
next
  case (Cons m ms)
  obtain ct payload where m: "m = (ct, payload)" by (cases m)
  obtain bs w1 r1 where e: "write_record ops ct payload w r = (Inr (if rw_flush_strategy w = FS_Immediate then bs else []), w1, r1)"
    and s: "\<And>rd. linked w rd \<Longrightarrow> session_passes ops bs (fragments m) w w1 rd"
    using write_record_passes [OF Cons.prems(1,2), of ct payload r] Cons.prems(3,4) m by auto
  have w1: "rw_flush_strategy w1 = rw_flush_strategy w" "protection_ok ops w1"
    "unat (rw_seq_num w1) + length (concat (map fragments ms)) < 2 ^ 64"
    using s [OF Cons.prems(2)] protection_ok_cong [OF Cons.prems(1), of w1] Cons.prems(3)
    by (auto simp: session_passes_def)
  obtain rd1 where rd1: "linked w1 rd1" using s [OF Cons.prems(2)] unfolding session_passes_def by blast
  obtain bs' w' r' where IH: "write_all ops ms w1 r1 = (Inr (if rw_flush_strategy w1 = FS_Immediate then bs' else []), w', r')"
    "\<And>rd. linked w1 rd \<Longrightarrow> session_passes ops bs' (concat (map fragments ms)) w1 w' rd"
    using Cons.IH [OF w1(2) rd1 w1(3), of r1] Cons.prems(4) by auto
  have "write_all ops (m # ms) w r = (Inr (if rw_flush_strategy w = FS_Immediate then bs @ bs' else []), w', r')"
    using e IH(1) w1(1) m by simp
  moreover have "session_passes ops (bs @ bs') (concat (map fragments (m # ms))) w w' rd'" if "linked w rd'" for rd'
    using session_passes_append [OF s [OF that] IH(2)] by simp
  ultimately show ?case by blast
qed

text \<open>
  C6. The record layer is transparent. A writer and a reader share their keys (no protection, TLS 1.3 AEAD, or any of the
  three TLS 1.2 protections) and their sequence number, and the reader's buffer and the coalescing buffer are empty. Any
  sequence of \<^verbatim>\<open>write_record\<close> calls whose records stay below the sequence number limit succeeds under both flush
  strategies, and the bytes that leave (the output, or what \<^verbatim>\<open>flush\<close> later returns), cut into pieces in any way and fed to
  the reader, come out as exactly the written messages, split into records of at most 16384 bytes, in order, with their
  content types; no error is raised, nothing is left in the reader's buffer and the two ends stay in step.
\<close>
theorem record_session_round_trip:
  assumes "protection_ok ops w" "linked w rd" "rr_buf rd = []" "rw_coalesce_buf w = []"
    and "list_all (\<lambda>m. fst m \<noteq> 0) ms" "unat (rw_seq_num w) + length (concat (map fragments ms)) < 2 ^ 64"
  shows "\<exists>out w' r'. write_all ops ms w r = (Inr out, w', r') \<and>
    (concat pieces = out @ fst (writer_flush w') \<longrightarrow>
      (\<exists>rd'. feed_all ops pieces rd = (concat (map fragments ms), None, rd') \<and> linked w' rd' \<and> rr_buf rd' = []))"
proof -
  obtain bs w' r' where e: "write_all ops ms w r = (Inr (if rw_flush_strategy w = FS_Immediate then bs else []), w', r')"
    "session_passes ops bs (concat (map fragments ms)) w w' rd"
    using write_all_passes [OF assms(1,2,6,5), of r] assms(2) by blast
  have out: "(if rw_flush_strategy w = FS_Immediate then bs else []) @ fst (writer_flush w') = bs"
    using e(2) assms(4) by (cases "rw_flush_strategy w") (auto simp: session_passes_def writer_flush_def)
  obtain rd' where rd': "reads ops (concat (map fragments ms)) (rd\<lparr>rr_buf := bs @ []\<rparr>) rd'" "rr_buf rd' = []" "linked w' rd'"
    using e(2) unfolding session_passes_def by blast
  have "read_all ops (feed bs rd) = (concat (map fragments ms), None, rd')"
    using reads_read_all [OF rd'(1,2)] assms(3) by (simp add: feed_def)
  moreover have "next_record ops rd = (Inr None, rd)" using assms(3) by (simp add: next_record_def RECORD_HEADER_SIZE_def)
  ultimately have "feed_all ops pieces rd = (concat (map fragments ms), None, rd')" if "concat pieces = bs"
    using feed_all_read_all [of ops rd pieces] that by simp
  then show ?thesis using e(1) out rd'(2,3) by auto
qed

definition demo_aead :: Aead where
  "demo_aead = \<lparr>ae_algorithm = Aes128Gcm, ae_key = replicate 16 7, ae_iv = replicate 12 1\<rparr>"

theorem record_session_round_trip_witness:
  "protection_ok toy_crypto (writer_set_keys demo_aead writer_new) \<and>
   linked (writer_set_keys demo_aead writer_new) (reader_set_keys demo_aead reader_new) \<and>
   (\<exists>out w' r'. write_all toy_crypto [(22, [1, 2]), (23, [])] (writer_set_keys demo_aead writer_new) () = (Inr out, w', r') \<and>
     (\<exists>rd'. feed_all toy_crypto [take 9 out, drop 9 out] (reader_set_keys demo_aead reader_new) =
        ([\<lparr>pl_content_type = 22, pl_payload = [1, 2]\<rparr>, \<lparr>pl_content_type = 23, pl_payload = []\<rparr>], None, rd') \<and>
      linked w' rd' \<and> rr_buf rd' = []))"
proof -
  let ?w = "writer_set_keys demo_aead writer_new" and ?rd = "reader_set_keys demo_aead reader_new"
    and ?ms = "[(22, [1, 2]), (23, [])] :: (u8 \<times> bytes) list"
  have f: "concat (map fragments ?ms) =
      [\<lparr>pl_content_type = 22, pl_payload = [1, 2]\<rparr>, \<lparr>pl_content_type = 23, pl_payload = []\<rparr>]"
    by (simp add: fragments_def MAX_RECORD_PAYLOAD_def chunks.simps)
  have p: "protection_ok toy_crypto ?w"
    using toy_crypto_ok
    by (simp add: crypto_ok_def protection_ok_def writer_set_keys_def aead_good_def demo_aead_def writer_new_def)
  have l: "linked ?w ?rd"
    by (simp add: linked_def writer_set_keys_def reader_set_keys_def writer_new_def reader_new_def)
  have e: "rr_buf ?rd = []" "rw_coalesce_buf ?w = []" "rw_seq_num ?w = 0"
    by (simp_all add: writer_set_keys_def reader_set_keys_def writer_new_def reader_new_def)
  have n: "unat (rw_seq_num ?w) + length (concat (map fragments ?ms)) < 2 ^ 64" unfolding f e(3) by simp
  obtain out w' r' where o: "write_all toy_crypto ?ms ?w () = (Inr out, w', r')"
    using record_session_round_trip [OF p l e(1,2) _ n, of "()" "[]"] by auto
  have "fst (writer_flush w') = []"
  proof -
    have "session_passes toy_crypto bs recs ?w w' ?rd \<Longrightarrow> rw_coalesce_buf w' = []" for bs recs
      by (simp add: session_passes_def writer_set_keys_def writer_new_def)
    then show ?thesis using write_all_passes [OF p l n, of "()"] o l by (auto simp: writer_flush_def)
  qed
  then have "concat [take 9 out, drop 9 out] = out @ fst (writer_flush w')" by simp
  moreover have "list_all (\<lambda>m. fst m \<noteq> 0) ?ms" by simp
  ultimately have "\<exists>rd'. feed_all toy_crypto [take 9 out, drop 9 out] ?rd = (concat (map fragments ?ms), None, rd') \<and>
      linked w' rd' \<and> rr_buf rd' = []"
    using record_session_round_trip [OF p l e(1,2) _ n, of "()" "[take 9 out, drop 9 out]"] unfolding o by blast
  then show ?thesis using o p l unfolding f by blast
qed

end
