(* ===== verification/Tls_ServerHello.thy ===== *)
theory Tls_ServerHello
  imports Tls_Kdf
begin

text \<open>
  The ServerHello parser of \<^verbatim>\<open>lktls/src/handshake/server_hello.rs\<close>: the message with its extensions, the detection of
  a HelloRetryRequest, the quick detection of the negotiated version and the check of the downgrade sentinels. Positions
  are \<^verbatim>\<open>usize\<close> offsets into the message, as in the code; a message has fewer than \<open>2 ^ 63\<close> bytes, so the
  \<^verbatim>\<open>checked_add\<close> on the end of the extensions never fails.
\<close>

subsection \<open>Data\<close>

definition HRR_RANDOM :: bytes where
  "HRR_RANDOM =
     [0xCF, 0x21, 0xAD, 0x74, 0xE5, 0x9A, 0x61, 0x11, 0xBE, 0x1D, 0x8C, 0x02, 0x1E, 0x65, 0xB8, 0x91,
      0xC2, 0xA2, 0x11, 0x16, 0x7A, 0xBB, 0x8C, 0x5E, 0x07, 0x9E, 0x09, 0xE2, 0xC8, 0xA8, 0x33, 0x9C]"

record ServerHelloExtensions =
  sx_supported_version :: "u16 option"
  sx_key_share :: "(u16 \<times> bytes) option"
  sx_selected_group :: "u16 option"
  sx_cookie :: "bytes option"
  sx_selected_psk_identity :: "u16 option"
  sx_ech_confirmation :: "bytes option"

record ServerHello =
  sh_legacy_version :: u16
  sh_random :: bytes
  sh_session_id :: bytes
  sh_cipher_suite :: u16
  sh_compression_method :: u8
  sh_extensions :: ServerHelloExtensions
  sh_is_hello_retry_request :: bool

definition extensions_default :: ServerHelloExtensions where
  "extensions_default =
     \<lparr>sx_supported_version = None, sx_key_share = None, sx_selected_group = None, sx_cookie = None,
      sx_selected_psk_identity = None, sx_ech_confirmation = None\<rparr>"

definition negotiated_version :: "ServerHello \<Rightarrow> u16" where
  "negotiated_version sh =
     (case sx_supported_version (sh_extensions sh) of Some v \<Rightarrow> v | None \<Rightarrow> sh_legacy_version sh)"

definition is_tls13 :: "ServerHello \<Rightarrow> bool" where
  "is_tls13 sh \<longleftrightarrow> negotiated_version sh = 0x0304"

subsection \<open>Parsing\<close>

text \<open>\<^verbatim>\<open>u16::from_be_bytes([data[pos], data[pos + 1]])\<close>; the callers have checked the bounds.\<close>

definition u16_at :: "bytes \<Rightarrow> nat \<Rightarrow> u16" where
  "u16_at data pos = u16_of_be (data ! pos) (data ! (pos + 1))"

text \<open>The \<^verbatim>\<open>match\<close> on the type of an extension.\<close>

definition parse_extension ::
  "bool \<Rightarrow> u16 \<Rightarrow> bytes \<Rightarrow> ServerHelloExtensions \<Rightarrow> ServerHelloExtensions tls_result" where
  "parse_extension hrr ext_type ext_data exts =
     (if ext_type = 0x002b \<and> length ext_data = 2 then Inr (exts\<lparr>sx_supported_version := Some (u16_at ext_data 0)\<rparr>)
      else if ext_type = 0x002b \<and> hrr
      then Inl (local_alert AD_DecodeError ''HRR supported_versions must be exactly 2 bytes'')
      else if ext_type = 0x0033 then
        if hrr then
          if length ext_data \<noteq> 2
          then Inl (local_alert AD_DecodeError ''HRR key_share must contain exactly one selected group'')
          else Inr (exts\<lparr>sx_selected_group := Some (u16_at ext_data 0)\<rparr>)
        else if length ext_data \<ge> 4 then
          let group = u16_at ext_data 0; key_len = unat (u16_at ext_data 2) in
          if 4 + key_len \<le> length ext_data
          then Inr (exts\<lparr>sx_key_share := Some (group, take key_len (drop 4 ext_data))\<rparr>)
          else Inr exts
        else Inr exts
      else if ext_type = 0x002c \<and> hrr \<and> length ext_data \<ge> 2 then
        let cookie_len = unat (u16_at ext_data 0) in
        if 2 + cookie_len \<noteq> length ext_data
        then Inl (local_alert AD_DecodeError ''HRR cookie length does not match extension length'')
        else Inr (exts\<lparr>sx_cookie := Some (drop 2 ext_data)\<rparr>)
      else if ext_type = 0x002c \<and> hrr
      then Inl (local_alert AD_DecodeError ''HRR cookie extension is too short'')
      else if ext_type = 0x0029 \<and> hrr
      then Inl (local_alert AD_UnsupportedExtension ''pre_shared_key is not permitted in HelloRetryRequest'')
      else if ext_type = 0x0029 \<and> length ext_data \<ge> 2
      then Inr (exts\<lparr>sx_selected_psk_identity := Some (u16_at ext_data 0)\<rparr>)
      else if ext_type = 0xFE0D \<and> hrr \<and> length ext_data = 8
      then Inr (exts\<lparr>sx_ech_confirmation := Some ext_data\<rparr>)
      else if ext_type = 0xFE0D \<and> hrr
      then Inl (local_alert AD_DecodeError ''HRR ECH confirmation must be exactly 8 bytes'')
      else if hrr
      then Inl (local_alert AD_UnsupportedExtension
                 (''extension 0x'' @ show_hex4 (unat ext_type) @ '' is not permitted in HelloRetryRequest''))
      else Inr exts)"

definition duplicate_extension :: "u16 \<Rightarrow> TlsError" where
  "duplicate_extension ext_type =
     local_alert AD_IllegalParameter (''duplicate HelloRetryRequest extension 0x'' @ show_hex4 (unat ext_type))"

text \<open>The \<^verbatim>\<open>while\<close> loop over the extensions; the result has the position at which it stops.\<close>

function extension_loop ::
  "bool \<Rightarrow> bytes \<Rightarrow> nat \<Rightarrow> nat \<Rightarrow> u16 list \<Rightarrow> ServerHelloExtensions \<Rightarrow> (nat \<times> ServerHelloExtensions) tls_result" where
  "extension_loop hrr data pos ext_end seen exts =
     (if pos + 4 \<le> ext_end then
        let ext_type = u16_at data pos;
            ext_len = unat (u16_at data (pos + 2));
            pos1 = pos + 4
        in if pos1 + ext_len > ext_end
           then Inl (local_alert AD_DecodeError ''ServerHello extension exceeds extensions block'')
           else
             let ext_data = take ext_len (drop pos1 data) in
             if hrr \<and> ext_type \<in> set seen then Inl (duplicate_extension ext_type)
             else
               (case parse_extension hrr ext_type ext_data exts of
                  Inl e \<Rightarrow> Inl e
                | Inr exts1 \<Rightarrow>
                    extension_loop hrr data (pos1 + ext_len) ext_end (if hrr then seen @ [ext_type] else seen) exts1)
      else Inr (pos, exts))"
  by pat_completeness auto
termination
  by (relation "measure (\<lambda>(hrr, data, pos, ext_end, seen, exts). ext_end - pos)") auto

declare extension_loop.simps [simp del]

text \<open>The part of \<^verbatim>\<open>parse_server_hello\<close> from the extensions on.\<close>

definition parse_extensions :: "bool \<Rightarrow> bytes \<Rightarrow> nat \<Rightarrow> ServerHelloExtensions tls_result" where
  "parse_extensions hrr data pos =
     (if pos + 2 \<le> length data then
        let ext_total = unat (u16_at data pos);
            pos1 = pos + 2;
            ext_end = pos1 + ext_total
        in if ext_end > length data
           then Inl (local_alert AD_DecodeError ''ServerHello extensions exceed message length'')
           else if hrr \<and> ext_end \<noteq> length data
           then Inl (local_alert AD_DecodeError ''HelloRetryRequest has trailing bytes after extensions'')
           else
             (case extension_loop hrr data pos1 ext_end [] extensions_default of
                Inl e \<Rightarrow> Inl e
              | Inr (pos2, exts) \<Rightarrow>
                  if hrr \<and> pos2 \<noteq> ext_end
                  then Inl (local_alert AD_DecodeError ''truncated HelloRetryRequest extension header'')
                  else Inr exts)
      else if hrr then Inl (local_alert AD_MissingExtension ''HelloRetryRequest missing extensions'')
      else Inr extensions_default)"

definition parse_server_hello :: "bytes \<Rightarrow> ServerHello tls_result" where
  "parse_server_hello data =
     (if 2 > length data then Inl (TE_UnexpectedMessage ''ServerHello too short for version'')
      else let legacy_version = u16_at data 0 in
      if 2 + 32 > length data then Inl (TE_UnexpectedMessage ''ServerHello too short for random'')
      else let random = take 32 (drop 2 data); hrr = (random = HRR_RANDOM) in
      if 34 + 1 > length data then Inl (TE_UnexpectedMessage ''ServerHello too short for session ID length'')
      else let session_id_len = unat (data ! 34) in
      if 35 + session_id_len > length data then Inl (TE_UnexpectedMessage ''ServerHello too short for session ID'')
      else let session_id = take session_id_len (drop 35 data); pos = 35 + session_id_len in
      if pos + 2 > length data then Inl (TE_UnexpectedMessage ''ServerHello too short for cipher suite'')
      else let cipher_suite = u16_at data pos in
      if pos + 2 + 1 > length data then Inl (TE_UnexpectedMessage ''ServerHello too short for compression method'')
      else let compression_method = data ! (pos + 2) in
      (case parse_extensions hrr data (pos + 3) of
         Inl e \<Rightarrow> Inl e
       | Inr extensions \<Rightarrow>
           Inr \<lparr>sh_legacy_version = legacy_version, sh_random = random, sh_session_id = session_id,
                sh_cipher_suite = cipher_suite, sh_compression_method = compression_method,
                sh_extensions = extensions, sh_is_hello_retry_request = hrr\<rparr>))"

subsection \<open>Version detection and downgrade\<close>

definition DOWNGRADE_SENTINEL_TLS12 :: bytes where
  "DOWNGRADE_SENTINEL_TLS12 = [0x44, 0x4F, 0x57, 0x4E, 0x47, 0x52, 0x44, 0x01]"

definition DOWNGRADE_SENTINEL_TLS11 :: bytes where
  "DOWNGRADE_SENTINEL_TLS11 = [0x44, 0x4F, 0x57, 0x4E, 0x47, 0x52, 0x44, 0x00]"

text \<open>\<^verbatim>\<open>{:02x}\<close> of a byte.\<close>

definition show_hex2 :: "nat \<Rightarrow> string" where
  "show_hex2 n = map hex_digit [n div 16 mod 16, n mod 16]"

function detect_loop :: "bytes \<Rightarrow> nat \<Rightarrow> nat \<Rightarrow> u16 \<Rightarrow> u16" where
  "detect_loop body offset ext_end legacy_version =
     (if offset + 4 \<le> ext_end \<and> offset + 4 \<le> length body then
        let ext_type = u16_at body offset;
            ext_len = unat (u16_at body (offset + 2));
            offset1 = offset + 4
        in if offset1 + ext_len > length body then legacy_version
           else if ext_type = 0x002B \<and> ext_len \<ge> 2 then u16_at body offset1
           else detect_loop body (offset1 + ext_len) ext_end legacy_version
      else legacy_version)"
  by pat_completeness auto
termination
  by (relation "measure (\<lambda>(body, offset, ext_end, v). ext_end - offset)") auto

declare detect_loop.simps [simp del]

definition detect_version_from_server_hello :: "bytes \<Rightarrow> u16 tls_result" where
  "detect_version_from_server_hello payload =
     (if length payload < 4 then Inl (TE_HandshakeFailure ''ServerHello too short'')
      else if payload ! 0 \<noteq> 0x02
      then Inl (TE_HandshakeFailure (''expected ServerHello (type 0x02), got 0x'' @ show_hex2 (unat (payload ! 0))))
      else
        let body = drop 4 payload in
        if length body < 38 then Inl (TE_HandshakeFailure ''ServerHello body too short'')
        else
          let legacy_version = u16_at body 0;
              session_id_len = unat (body ! 34);
              ext_start = 35 + session_id_len + 3
          in if ext_start > length body then Inr legacy_version
             else if ext_start + 2 > length body then Inr legacy_version
             else
               let ext_total_len = unat (u16_at body ext_start);
                   offset = ext_start + 2;
                   ext_end = offset + ext_total_len
               in Inr (detect_loop body offset ext_end legacy_version))"

text \<open>The message has an em dash, here as its three UTF-8 bytes.\<close>

definition check_downgrade_sentinel :: "bytes \<Rightarrow> unit tls_result" where
  "check_downgrade_sentinel sh_payload =
     (if length sh_payload < 4 + 2 + 32 then Inr ()
      else
        let random = take 32 (drop 6 sh_payload);
            last8 = take 8 (drop 24 random)
        in if last8 = DOWNGRADE_SENTINEL_TLS12 \<or> last8 = DOWNGRADE_SENTINEL_TLS11
           then Inl (TE_HandshakeFailure (''ServerHello contains TLS 1.3 downgrade sentinel in random '' @
                  map char_of [226, 128, 148 :: nat] @ '' possible downgrade attack''))
           else Inr ())"

subsection \<open>The extension block as a list\<close>

text \<open>The grammar: an extension on the wire, and a message with a given extension block.\<close>

definition ext_bytes :: "u16 \<times> bytes \<Rightarrow> bytes" where
  "ext_bytes x = u16_to_be (fst x) @ u16_to_be (word_of_nat (length (snd x))) @ snd x"

definition hello_prefix :: "u16 \<Rightarrow> bytes \<Rightarrow> bytes \<Rightarrow> u16 \<Rightarrow> u8 \<Rightarrow> bytes" where
  "hello_prefix version random session_id cipher_suite compression =
     u16_to_be version @ random @ word_of_nat (length session_id) # session_id @ u16_to_be cipher_suite @ [compression]"

definition hello_body :: "u16 \<Rightarrow> bytes \<Rightarrow> bytes \<Rightarrow> u16 \<Rightarrow> u8 \<Rightarrow> bytes \<Rightarrow> bytes" where
  "hello_body version random session_id cipher_suite compression block =
     hello_prefix version random session_id cipher_suite compression @ u16_to_be (word_of_nat (length block)) @ block"

text \<open>The loop on the list of extensions.\<close>

fun ext_fold ::
  "bool \<Rightarrow> u16 list \<Rightarrow> (u16 \<times> bytes) list \<Rightarrow> ServerHelloExtensions \<Rightarrow> ServerHelloExtensions tls_result" where
  "ext_fold hrr seen [] exts = Inr exts"
| "ext_fold hrr seen ((t, d) # xs) exts =
     (if hrr \<and> t \<in> set seen then Inl (duplicate_extension t)
      else case parse_extension hrr t d exts of
             Inl e \<Rightarrow> Inl e
           | Inr exts1 \<Rightarrow> ext_fold hrr (if hrr then seen @ [t] else seen) xs exts1)"

lemma u16_at_drop: "u16_at (drop n xs) k = u16_at xs (n + k)" if "n + k + 1 < length xs"
  using that by (simp add: u16_at_def)

lemma u16_at_append: "u16_at (u16_to_be w @ ys) 0 = w" "u16_at (xs @ ys) (length xs + k) = u16_at ys k"
  by (simp_all add: u16_at_def u16_to_be_def u16_of_to_be nth_append)

lemma u16_of_be_inverse: "u16_to_be (u16_of_be a b) = [a, b]"
proof -
  have "(ucast (drop_bit 8 (u16_of_be a b)) :: u8) = a"
    by (rule bit_word_eqI) (auto simp: u16_of_be_def bit_simps dest: bit_imp_le_length)
  moreover have "(ucast (u16_of_be a b) :: u8) = b"
    by (rule bit_word_eqI) (auto simp: u16_of_be_def bit_simps)
  ultimately show ?thesis by (simp add: u16_to_be_def)
qed

lemma u16_at_bytes: "n + 2 \<le> length xs \<Longrightarrow> u16_to_be (u16_at xs n) = take 2 (drop n xs)"
  by (auto simp: u16_at_def u16_of_be_inverse take_Suc_conv_app_nth numeral_2_eq_2 Cons_nth_drop_Suc [symmetric])

lemma length_ext_bytes [simp]: "length (ext_bytes x) = 4 + length (snd x)"
  by (simp add: ext_bytes_def)

lemma extension_loop_block:
  assumes "list_all (\<lambda>x. length (snd x) < 65536) xs"
  shows "extension_loop hrr (pre @ concat (map ext_bytes xs) @ post) (length pre)
      (length pre + length (concat (map ext_bytes xs))) seen exts =
    (case ext_fold hrr seen xs exts of
       Inl e \<Rightarrow> Inl e | Inr exts' \<Rightarrow> Inr (length pre + length (concat (map ext_bytes xs)), exts'))"
  using assms
proof (induction xs arbitrary: pre seen exts)
  case Nil
  then show ?case by (subst extension_loop.simps) simp
next
  case (Cons x xs)
  obtain t d where x: "x = (t, d)" by (cases x)
  define data where "data = pre @ concat (map ext_bytes (x # xs)) @ post"
  define ext_end where "ext_end = length pre + length (concat (map ext_bytes (x # xs)))"
  have len: "unat (word_of_nat (length d) :: u16) = length d" using Cons.prems x by (simp add: unat_of_nat)
  have data: "data = pre @ u16_to_be t @ u16_to_be (word_of_nat (length d)) @ d @ concat (map ext_bytes xs) @ post"
    by (simp add: data_def x ext_bytes_def)
  have t: "u16_at data (length pre) = t" unfolding data using u16_at_append(2) [of pre _ 0] by (simp add: u16_at_append(1))
  have l: "u16_at data (length pre + 2) = word_of_nat (length d)"
    unfolding data using u16_at_append(2) [of pre _ 2] u16_at_append(2) [of "u16_to_be t" _ 0] by (simp add: u16_at_append(1))
  have d: "take (length d) (drop (length pre + 4) data) = d" unfolding data by simp
  have e: "length pre + 4 \<le> ext_end" "\<not> ext_end < length pre + 4 + length d" by (simp_all add: ext_end_def x)
  have IH: "extension_loop hrr data (length pre + 4 + length d) ext_end seen' exts' =
      (case ext_fold hrr seen' xs exts' of Inl e \<Rightarrow> Inl e | Inr y \<Rightarrow> Inr (ext_end, y))" for seen' exts'
    using Cons.IH [of "pre @ ext_bytes x" seen' exts'] Cons.prems
    by (simp add: data_def ext_end_def x add.assoc split: sum.split)
  have "extension_loop hrr data (length pre) ext_end seen exts =
      (case ext_fold hrr seen (x # xs) exts of Inl e \<Rightarrow> Inl e | Inr y \<Rightarrow> Inr (ext_end, y))"
    by (subst extension_loop.simps) (simp only: t l d len Let_def e if_True if_False x ext_fold.simps IH split: sum.split, simp)
  then show ?case by (simp only: data_def ext_end_def)
qed

lemma extension_loop_parsed:
  assumes "extension_loop hrr data pos ext_end seen exts = Inr (ext_end, exts')" "pos \<le> ext_end" "ext_end \<le> length data"
  shows "\<exists>xs. take (ext_end - pos) (drop pos data) = concat (map ext_bytes xs) \<and>
    ext_fold hrr seen xs exts = Inr exts' \<and> list_all (\<lambda>x. length (snd x) < 65536) xs"
  using assms
proof (induction hrr data pos ext_end seen exts rule: extension_loop.induct)
  case (1 hrr data pos ext_end seen exts)
  show ?case
  proof (cases "pos + 4 \<le> ext_end")
    case False
    then have "pos = ext_end \<and> exts' = exts" using "1.prems"(1) by (subst (asm) extension_loop.simps) auto
    then show ?thesis by (intro exI [of _ "[]"]) simp
  next
    case True
    define t where "t = u16_at data pos"
    define n where "n = unat (u16_at data (pos + 2))"
    define d where "d = take n (drop (pos + 4) data)"
    have step: "\<not> pos + 4 + n > ext_end" "\<not> (hrr \<and> t \<in> set seen)"
      "\<exists>exts1. parse_extension hrr t d exts = Inr exts1 \<and>
        extension_loop hrr data (pos + 4 + n) ext_end (if hrr then seen @ [t] else seen) exts1 = Inr (ext_end, exts')"
      using "1.prems"(1) True
      by (subst (asm) (1) extension_loop.simps; auto simp: Let_def t_def n_def d_def split: if_splits sum.splits)+
    then obtain exts1 where e: "parse_extension hrr t d exts = Inr exts1"
      "extension_loop hrr data (pos + 4 + n) ext_end (if hrr then seen @ [t] else seen) exts1 = Inr (ext_end, exts')" by blast
    obtain xs where xs: "take (ext_end - (pos + 4 + n)) (drop (pos + 4 + n) data) = concat (map ext_bytes xs)"
      "ext_fold hrr (if hrr then seen @ [t] else seen) xs exts1 = Inr exts'" "list_all (\<lambda>x. length (snd x) < 65536) xs"
      using "1.IH" [OF True t_def n_def refl step(1) d_def step(2) e(1) e(2)] step(1) "1.prems"(3) by auto
    have "take 4 (drop pos data) = u16_to_be t @ u16_to_be (u16_at data (pos + 2))"
      using True "1.prems"(3) u16_at_bytes [of pos data] u16_at_bytes [of "pos + 2" data]
      by (simp add: t_def take_add [of 2 2, simplified])
    moreover have "take (4 + n) (drop pos data) = take 4 (drop pos data) @ d"
      using take_add [of 4 n "drop pos data"] by (simp add: d_def add.commute)
    moreover have "word_of_nat (length d) = u16_at data (pos + 2)"
      using step(1) "1.prems"(3) by (simp add: d_def n_def)
    ultimately have "take (4 + n) (drop pos data) = ext_bytes (t, d)" by (simp add: ext_bytes_def)
    moreover have "take (ext_end - pos) (drop pos data) =
        take (4 + n) (drop pos data) @ take (ext_end - (pos + 4 + n)) (drop (pos + 4 + n) data)"
      using step(1) take_add [of "4 + n" "ext_end - (pos + 4 + n)" "drop pos data"] by (simp add: add_ac)
    moreover have "n < 65536" using unsigned_less [of "u16_at data (pos + 2)", where 'a = nat] by (simp add: n_def)
    ultimately show ?thesis
      using xs e(1) step(2) by (intro exI [of _ "(t, d) # xs"]) (simp add: d_def)
  qed
qed

subsection \<open>HelloRetryRequest\<close>

text \<open>
  The extensions and lengths that the code admits in a HelloRetryRequest, and the fields that they give. The types are
  those that RFC 8446 and ECH allow; the RFC also wants a cookie of at least one byte, and the code admits an empty one.
\<close>

definition hrr_extension_ok :: "u16 \<times> bytes \<Rightarrow> bool" where
  "hrr_extension_ok x =
     (let (t, d) = x in
      t = 0x002b \<and> length d = 2 \<or>
      t = 0x0033 \<and> length d = 2 \<or>
      t = 0x002c \<and> (\<exists>cookie. d = u16_to_be (word_of_nat (length cookie)) @ cookie \<and> length cookie < 65536) \<or>
      t = 0xFE0D \<and> length d = 8)"

definition hrr_fields :: "(u16 \<times> bytes) list \<Rightarrow> ServerHelloExtensions \<Rightarrow> ServerHelloExtensions" where
  "hrr_fields xs exts = exts\<lparr>
     sx_supported_version := (case map_of xs 0x002b of Some d \<Rightarrow> Some (u16_at d 0) | None \<Rightarrow> sx_supported_version exts),
     sx_selected_group := (case map_of xs 0x0033 of Some d \<Rightarrow> Some (u16_at d 0) | None \<Rightarrow> sx_selected_group exts),
     sx_cookie := (case map_of xs 0x002c of Some d \<Rightarrow> Some (drop 2 d) | None \<Rightarrow> sx_cookie exts),
     sx_ech_confirmation := (case map_of xs 0xFE0D of Some d \<Rightarrow> Some d | None \<Rightarrow> sx_ech_confirmation exts)\<rparr>"

lemma cookie_form:
  "(\<exists>cookie. d = u16_to_be (word_of_nat (length cookie)) @ cookie \<and> length cookie < 65536) \<longleftrightarrow>
   2 \<le> length d \<and> 2 + unat (u16_at d 0) = length d"
proof
  assume "\<exists>cookie. d = u16_to_be (word_of_nat (length cookie)) @ cookie \<and> length cookie < 65536"
  then show "2 \<le> length d \<and> 2 + unat (u16_at d 0) = length d" by (auto simp: u16_at_append unat_of_nat)
next
  assume d: "2 \<le> length d \<and> 2 + unat (u16_at d 0) = length d"
  then have "length (drop 2 d) = unat (u16_at d 0)" by auto
  moreover have "d = u16_to_be (u16_at d 0) @ drop 2 d" using d u16_at_bytes [of 0 d] by simp
  moreover have "unat (u16_at d 0) < 65536" using unsigned_less [of "u16_at d 0", where 'a = nat] by simp
  ultimately show "\<exists>cookie. d = u16_to_be (word_of_nat (length cookie)) @ cookie \<and> length cookie < 65536"
    by (intro exI [of _ "drop 2 d"]) simp
qed

lemma parse_extension_hrr:
  "parse_extension True t d exts = Inr exts' \<longleftrightarrow> hrr_extension_ok (t, d) \<and> exts' = hrr_fields [(t, d)] exts"
proof -
  consider "t = 0x002b" | "t = 0x0033" | "t = 0x002c" | "t = 0x0029" | "t = 0xFE0D" |
    "t \<noteq> 0x002b" "t \<noteq> 0x0033" "t \<noteq> 0x002c" "t \<noteq> 0x0029" "t \<noteq> 0xFE0D" by blast
  then show ?thesis
    by cases (auto simp: parse_extension_def hrr_extension_ok_def cookie_form hrr_fields_def Let_def)
qed

lemma hrr_fields_Cons:
  assumes "t \<notin> fst ` set xs"
  shows "hrr_fields ((t, d) # xs) exts = hrr_fields xs (hrr_fields [(t, d)] exts)"
proof -
  have "map_of xs t = None" using assms by (simp add: map_of_eq_None_iff)
  then show ?thesis
    by (cases "t = 0x002b"; cases "t = 0x0033"; cases "t = 0x002c"; cases "t = 0xFE0D")
      (simp_all add: hrr_fields_def cong: option.case_cong)
qed

lemma ext_fold_hrr:
  "ext_fold True seen xs exts = Inr exts' \<longleftrightarrow>
   distinct (map fst xs) \<and> set (map fst xs) \<inter> set seen = {} \<and> list_all hrr_extension_ok xs \<and> exts' = hrr_fields xs exts"
proof (induction xs arbitrary: seen exts)
  case Nil
  show ?case by (auto simp: hrr_fields_def)
next
  case (Cons x xs)
  obtain t d where x: "x = (t, d)" by (cases x)
  show ?case
  proof (cases "parse_extension True t d exts")
    case (Inl e)
    then have "\<not> hrr_extension_ok (t, d)" using parse_extension_hrr [of t d exts] by (metis Inl_Inr_False)
    then show ?thesis using Inl by (simp add: x)
  next
    case (Inr exts1)
    then have 1: "hrr_extension_ok (t, d)" "exts1 = hrr_fields [(t, d)] exts" using parse_extension_hrr [of t d exts] by auto
    have "ext_fold True seen (x # xs) exts = Inr exts' \<longleftrightarrow> t \<notin> set seen \<and> ext_fold True (seen @ [t]) xs exts1 = Inr exts'"
      using Inr by (simp add: x)
    also have "\<dots> \<longleftrightarrow> t \<notin> set seen \<and> distinct (map fst xs) \<and> set (map fst xs) \<inter> set (seen @ [t]) = {} \<and>
        list_all hrr_extension_ok xs \<and> exts' = hrr_fields xs exts1"
      unfolding Cons.IH by simp
    also have "\<dots> \<longleftrightarrow> distinct (map fst (x # xs)) \<and> set (map fst (x # xs)) \<inter> set seen = {} \<and>
        list_all hrr_extension_ok (x # xs) \<and> exts' = hrr_fields (x # xs) exts"
      using 1 hrr_fields_Cons [of t xs d exts] by (auto simp: x)
    finally show ?thesis .
  qed
qed

lemma length_HRR_RANDOM: "length HRR_RANDOM = 32"
  by (simp add: HRR_RANDOM_def)

lemma length_hello_prefix: "length random = 32 \<Longrightarrow> length (hello_prefix v random sid cs cm) = 38 + length sid"
  by (simp add: hello_prefix_def)

lemma hello_prefix_parts:
  assumes "length random = 32" "length sid < 256"
    and data_def: "data = hello_prefix v random sid cs cm @ rest"
  shows "u16_at data 0 = v" "take 32 (drop 2 data) = random" "unat (data ! 34) = length sid"
    "take (length sid) (drop 35 data) = sid" "u16_at data (35 + length sid) = cs" "data ! (35 + length sid + 2) = cm"
proof -
  let ?s = "u16_to_be v @ random @ [word_of_nat (length sid)]"
  have s: "length ?s = 35" using assms(1) by simp
  have d: "data = u16_to_be v @ random @ word_of_nat (length sid) # sid @ u16_to_be cs @ cm # rest"
    "data = ?s @ sid @ u16_to_be cs @ cm # rest" "data = (?s @ sid) @ u16_to_be cs @ cm # rest"
    by (simp_all add: data_def hello_prefix_def)
  show "u16_at data 0 = v" unfolding d(1) by (rule u16_at_append)
  show "take 32 (drop 2 data) = random" unfolding d(1) using assms(1) by simp
  show "unat (data ! 34) = length sid" unfolding d(1) using assms(1,2) by (simp add: nth_append unat_of_nat)
  show "take (length sid) (drop 35 data) = sid" unfolding d(2) using s by simp
  show "u16_at data (35 + length sid) = cs"
    unfolding d(3) using u16_at_append(2) [of "?s @ sid" "u16_to_be cs @ cm # rest" 0] s by (simp add: u16_at_append(1))
  show "data ! (35 + length sid + 2) = cm"
    unfolding d(3) using s by (simp add: nth_append)
qed

lemma parse_hello_prefix:
  assumes "length random = 32" "length sid < 256"
  shows "parse_server_hello (hello_prefix v random sid cs cm @ rest) =
    (case parse_extensions (random = HRR_RANDOM) (hello_prefix v random sid cs cm @ rest) (38 + length sid) of
       Inl e \<Rightarrow> Inl e
     | Inr exts \<Rightarrow>
         Inr \<lparr>sh_legacy_version = v, sh_random = random, sh_session_id = sid, sh_cipher_suite = cs,
              sh_compression_method = cm, sh_extensions = exts, sh_is_hello_retry_request = (random = HRR_RANDOM)\<rparr>)"
  using hello_prefix_parts [OF assms refl, of v cs cm rest] length_hello_prefix [OF assms(1), of v sid cs cm]
  by (simp add: parse_server_hello_def Let_def)

lemma parsed_hello_prefix:
  assumes "parse_server_hello data = Inr sh"
  shows "length (sh_random sh) = 32" "length (sh_session_id sh) < 256"
    "\<exists>rest. data = hello_prefix (sh_legacy_version sh) (sh_random sh) (sh_session_id sh) (sh_cipher_suite sh)
       (sh_compression_method sh) @ rest"
proof -
  define n where "n = unat (data ! 34)"
  have len: "38 + n \<le> length data" and f: "sh_legacy_version sh = u16_at data 0" "sh_random sh = take 32 (drop 2 data)"
    "sh_session_id sh = take n (drop 35 data)" "sh_cipher_suite sh = u16_at data (35 + n)"
    "sh_compression_method sh = data ! (35 + n + 2)"
    using assms by (auto simp: parse_server_hello_def Let_def n_def split: if_splits sum.splits)
  show "length (sh_random sh) = 32" using len by (simp add: f)
  have "n < 256" using unsigned_less [of "data ! 34", where 'a = nat] by (simp add: n_def)
  then show "length (sh_session_id sh) < 256" using len by (simp add: f)
  have n: "(word_of_nat (length (take n (drop 35 data))) :: u8) = data ! 34" using len by (simp add: n_def)
  have part: "drop p data = take k (drop p data) @ drop (p + k) data" for p k
    by (metis append_take_drop_id drop_drop add.commute)
  have "data = take 2 data @ take 32 (drop 2 data) @ take 1 (drop 34 data) @ take n (drop 35 data) @
      take 2 (drop (35 + n) data) @ take 1 (drop (37 + n) data) @ drop (38 + n) data"
    using part [of 0 2] part [of 2 32] part [of 34 1] part [of 35 n] part [of "35 + n" 2] part [of "37 + n" 1]
    by (simp add: add_ac)
  then show "\<exists>rest. data = hello_prefix (sh_legacy_version sh) (sh_random sh) (sh_session_id sh) (sh_cipher_suite sh)
       (sh_compression_method sh) @ rest"
    using u16_at_bytes [of 0 data] u16_at_bytes [of "35 + n" data] len n
    by (intro exI [of _ "drop (38 + n) data"]) (simp add: hello_prefix_def f take_Suc_conv_app_nth)
qed

text \<open>The extension block of a message of the grammar, possibly followed by other bytes.\<close>

lemma ext_lengths: "length (concat (map ext_bytes xs)) < 65536 \<Longrightarrow> list_all (\<lambda>x. length (snd x) < 65536) xs"
  by (induction xs) auto

lemma block_position:
  assumes "length random = 32" "length block < 65536"
  shows "u16_at (hello_body v random sid cs cm block @ post) (38 + length sid) = word_of_nat (length block)"
    "unat (word_of_nat (length block) :: u16) = length block"
  using u16_at_append(2) [of "hello_prefix v random sid cs cm" "u16_to_be (word_of_nat (length block)) @ block @ post" 0] assms
  by (simp_all add: hello_body_def length_hello_prefix u16_at_append(1) unat_of_nat)

lemma parse_extensions_block:
  assumes "length random = 32" "length (concat (map ext_bytes xs)) < 65536"
  shows "parse_extensions hrr (hello_body v random sid cs cm (concat (map ext_bytes xs)) @ post) (38 + length sid) =
    (if hrr \<and> post \<noteq> [] then Inl (local_alert AD_DecodeError ''HelloRetryRequest has trailing bytes after extensions'')
     else ext_fold hrr [] xs extensions_default)"
proof -
  let ?block = "concat (map ext_bytes xs)"
  let ?pre = "hello_prefix v random sid cs cm @ u16_to_be (word_of_nat (length ?block))"
  have pre: "length ?pre = 40 + length sid" using assms(1) by (simp add: length_hello_prefix)
  have data: "hello_body v random sid cs cm ?block @ post = ?pre @ ?block @ post" by (simp add: hello_body_def)
  have "extension_loop hrr (?pre @ ?block @ post) (40 + length sid) (40 + length sid + length ?block) [] extensions_default =
      (case ext_fold hrr [] xs extensions_default of
         Inl e \<Rightarrow> Inl e | Inr y \<Rightarrow> Inr (40 + length sid + length ?block, y))"
    using extension_loop_block [OF ext_lengths [OF assms(2)], of hrr ?pre post "[]" extensions_default] unfolding pre .
  then show ?thesis
    using block_position(1) [OF assms, of v sid cs cm post] block_position(2) [OF assms] pre unfolding data
    by (simp add: parse_extensions_def Let_def split: sum.split)
qed

lemma parsed_extensions:
  assumes "parse_server_hello data = Inr sh"
  shows "sh_is_hello_retry_request sh \<longleftrightarrow> sh_random sh = HRR_RANDOM"
    "parse_extensions (sh_random sh = HRR_RANDOM) data (38 + length (sh_session_id sh)) = Inr (sh_extensions sh)"
proof -
  let ?sid = "sh_session_id sh"
  obtain rest where d: "data = hello_prefix (sh_legacy_version sh) (sh_random sh) ?sid (sh_cipher_suite sh) (sh_compression_method sh) @ rest"
    using parsed_hello_prefix(3) [OF assms] by blast
  have len: "length (sh_random sh) = 32" "length ?sid < 256" using parsed_hello_prefix(1,2) [OF assms] by blast+
  have "(sh_is_hello_retry_request sh \<longleftrightarrow> sh_random sh = HRR_RANDOM) \<and>
    parse_extensions (sh_random sh = HRR_RANDOM) data (38 + length ?sid) = Inr (sh_extensions sh)"
  proof (cases "parse_extensions (sh_random sh = HRR_RANDOM) data (38 + length ?sid)")
    case (Inl e)
    then show ?thesis using assms parse_hello_prefix [OF len] unfolding d by simp
  next
    case (Inr exts)
    have sh: "\<lparr>sh_legacy_version = sh_legacy_version sh, sh_random = sh_random sh, sh_session_id = ?sid,
       sh_cipher_suite = sh_cipher_suite sh, sh_compression_method = sh_compression_method sh, sh_extensions = exts,
       sh_is_hello_retry_request = (sh_random sh = HRR_RANDOM)\<rparr> = sh"
      using assms Inr unfolding d parse_hello_prefix [OF len] by (simp only: sum.case sum.inject)
    show ?thesis
      using Inr arg_cong [OF sh, of sh_extensions] arg_cong [OF sh, of sh_is_hello_retry_request] by simp
  qed
  then show "sh_is_hello_retry_request sh \<longleftrightarrow> sh_random sh = HRR_RANDOM"
    "parse_extensions (sh_random sh = HRR_RANDOM) data (38 + length ?sid) = Inr (sh_extensions sh)" by simp_all
qed

lemma parsed_hrr:
  assumes "parse_server_hello data = Inr sh" "sh_is_hello_retry_request sh"
  shows "\<exists>xs. data = hello_body (sh_legacy_version sh) HRR_RANDOM (sh_session_id sh) (sh_cipher_suite sh)
      (sh_compression_method sh) (concat (map ext_bytes xs)) \<and>
    length (concat (map ext_bytes xs)) < 65536 \<and> ext_fold True [] xs extensions_default = Inr (sh_extensions sh)"
proof -
  let ?sid = "sh_session_id sh"
  obtain rest where d: "data = hello_prefix (sh_legacy_version sh) (sh_random sh) ?sid (sh_cipher_suite sh) (sh_compression_method sh) @ rest"
    using parsed_hello_prefix(3) [OF assms(1)] by blast
  have hrr: "sh_random sh = HRR_RANDOM" "parse_extensions True data (38 + length ?sid) = Inr (sh_extensions sh)"
    using parsed_extensions [OF assms(1)] assms(2) by simp_all
  define n where "n = unat (u16_at data (38 + length ?sid))"
  have data: "length data = 40 + length ?sid + n"
    "extension_loop True data (40 + length ?sid) (length data) [] extensions_default = Inr (length data, sh_extensions sh)"
    using hrr(2) by (auto simp: parse_extensions_def Let_def n_def split: if_splits sum.splits)
  obtain xs where xs: "drop (40 + length ?sid) data = concat (map ext_bytes xs)"
    "ext_fold True [] xs extensions_default = Inr (sh_extensions sh)"
    using extension_loop_parsed [OF data(2)] data(1) by auto
  have rest: "rest = u16_to_be (u16_at data (38 + length ?sid)) @ drop (40 + length ?sid) data"
    using u16_at_bytes [of "38 + length ?sid" data] data(1) parsed_hello_prefix(1) [OF assms(1)]
    by (simp add: d length_hello_prefix)
  have n: "length (concat (map ext_bytes xs)) = n" using xs(1) data(1) by (simp flip: xs(1))
  have "word_of_nat n = u16_at data (38 + length ?sid)" by (simp add: n_def)
  then have "rest = u16_to_be (word_of_nat (length (concat (map ext_bytes xs)))) @ concat (map ext_bytes xs)"
    unfolding n using rest xs(1) by simp
  then have "data = hello_body (sh_legacy_version sh) HRR_RANDOM ?sid (sh_cipher_suite sh) (sh_compression_method sh)
      (concat (map ext_bytes xs))"
    using d hrr(1) by (simp only: hello_body_def)
  moreover have "n < 65536" using unsigned_less [of "u16_at data (38 + length ?sid)", where 'a = nat] by (simp add: n_def)
  ultimately show ?thesis using xs(2) n by (intro exI [of _ xs]) (simp only: simp_thms)
qed

lemma hrr_accepted:
  assumes "length sid < 256" "length (concat (map ext_bytes xs)) < 65536" "ext_fold True [] xs extensions_default = Inr exts"
  shows "parse_server_hello (hello_body v HRR_RANDOM sid cs cm (concat (map ext_bytes xs))) =
    Inr \<lparr>sh_legacy_version = v, sh_random = HRR_RANDOM, sh_session_id = sid, sh_cipher_suite = cs,
         sh_compression_method = cm, sh_extensions = exts, sh_is_hello_retry_request = True\<rparr>"
  using parse_extensions_block [OF length_HRR_RANDOM assms(2), of True v sid cs cm "[]"] assms(3)
    parse_hello_prefix [OF length_HRR_RANDOM assms(1), of v cs cm "u16_to_be (word_of_nat (length (concat (map ext_bytes xs)))) @ concat (map ext_bytes xs)"]
  by (simp add: hello_body_def)

text \<open>
  C10. A HelloRetryRequest is parsed exactly. The parser returns a message marked as HelloRetryRequest if and only if the
  bytes are, without anything left over, a ServerHello with the special random whose extensions are pairwise different,
  are all among the four that RFC 8446 and ECH allow there, and have the exact lengths that the code demands: two bytes of
  version, two bytes of group, a cookie, possibly empty, with its own length in front, eight bytes of ECH confirmation;
  the returned fields are those extensions' contents.
\<close>
theorem hello_retry_request_exact:
  "parse_server_hello data = Inr sh \<and> sh_is_hello_retry_request sh \<longleftrightarrow>
   (\<exists>v sid cs cm xs. data = hello_body v HRR_RANDOM sid cs cm (concat (map ext_bytes xs)) \<and>
      length sid < 256 \<and> length (concat (map ext_bytes xs)) < 65536 \<and>
      distinct (map fst xs) \<and> list_all hrr_extension_ok xs \<and>
      sh = \<lparr>sh_legacy_version = v, sh_random = HRR_RANDOM, sh_session_id = sid, sh_cipher_suite = cs,
            sh_compression_method = cm, sh_extensions = hrr_fields xs extensions_default,
            sh_is_hello_retry_request = True\<rparr>)"
proof (intro iffI conjI)
  assume "parse_server_hello data = Inr sh \<and> sh_is_hello_retry_request sh"
  then have p: "parse_server_hello data = Inr sh" "sh_is_hello_retry_request sh" by simp_all
  obtain xs where xs: "data = hello_body (sh_legacy_version sh) HRR_RANDOM (sh_session_id sh) (sh_cipher_suite sh)
      (sh_compression_method sh) (concat (map ext_bytes xs))"
    "length (concat (map ext_bytes xs)) < 65536" "ext_fold True [] xs extensions_default = Inr (sh_extensions sh)"
    using parsed_hrr [OF p] by blast
  have "sh_random sh = HRR_RANDOM" using parsed_extensions(1) [OF p(1)] p(2) by simp
  then have "sh = \<lparr>sh_legacy_version = sh_legacy_version sh, sh_random = HRR_RANDOM, sh_session_id = sh_session_id sh,
      sh_cipher_suite = sh_cipher_suite sh, sh_compression_method = sh_compression_method sh,
      sh_extensions = hrr_fields xs extensions_default, sh_is_hello_retry_request = True\<rparr>"
    using xs(3) p(2) by (cases sh) (simp add: ext_fold_hrr)
  then show "\<exists>v sid cs cm xs. data = hello_body v HRR_RANDOM sid cs cm (concat (map ext_bytes xs)) \<and>
      length sid < 256 \<and> length (concat (map ext_bytes xs)) < 65536 \<and>
      distinct (map fst xs) \<and> list_all hrr_extension_ok xs \<and>
      sh = \<lparr>sh_legacy_version = v, sh_random = HRR_RANDOM, sh_session_id = sid, sh_cipher_suite = cs,
            sh_compression_method = cm, sh_extensions = hrr_fields xs extensions_default, sh_is_hello_retry_request = True\<rparr>"
    using xs parsed_hello_prefix(2) [OF p(1)] unfolding ext_fold_hrr by blast
qed (use hrr_accepted in \<open>auto simp: ext_fold_hrr\<close>)

subsection \<open>Version detection\<close>

text \<open>
  The two rules of the code for reading \<^verbatim>\<open>supported_versions\<close>. The quick detection takes the first one with at least two
  bytes, the parser the last one with exactly two bytes. They are the same rule when the extension occurs at most once
  and then has the two bytes that RFC 8446 prescribes; the parser checks neither outside a HelloRetryRequest.
\<close>

definition first_version :: "(u16 \<times> bytes) list \<Rightarrow> u16 option" where
  "first_version xs =
     map_option (\<lambda>x. u16_at (snd x) 0) (find (\<lambda>x. fst x = 0x002b \<and> 2 \<le> length (snd x)) xs)"

definition last_version :: "(u16 \<times> bytes) list \<Rightarrow> u16 option" where
  "last_version xs =
     map_option (\<lambda>x. u16_at (snd x) 0) (find (\<lambda>x. fst x = 0x002b \<and> length (snd x) = 2) (rev xs))"

definition versions_ok :: "(u16 \<times> bytes) list \<Rightarrow> bool" where
  "versions_ok xs \<longleftrightarrow>
     length (filter (\<lambda>x. fst x = 0x002b) xs) \<le> 1 \<and> list_all (\<lambda>x. fst x \<noteq> 0x002b \<or> length (snd x) = 2) xs"

lemma find_append: "find P (xs @ ys) = (case find P xs of Some x \<Rightarrow> Some x | None \<Rightarrow> find P ys)"
  by (induction xs) auto

lemma last_version_Cons:
  "last_version ((t, d) # xs) =
     (case last_version xs of Some u \<Rightarrow> Some u | None \<Rightarrow> if t = 0x002b \<and> length d = 2 then Some (u16_at d 0) else None)"
  by (simp add: last_version_def find_append split: option.split)

lemma first_version_Cons:
  "first_version ((t, d) # xs) = (if t = 0x002b \<and> 2 \<le> length d then Some (u16_at d 0) else first_version xs)"
  by (simp add: first_version_def)

lemma last_version_none: "filter (\<lambda>x. fst x = 0x002b) xs = [] \<Longrightarrow> last_version xs = None"
  by (induction xs) (auto simp: last_version_def find_append split: if_splits)

lemma versions_same: "versions_ok xs \<Longrightarrow> first_version xs = last_version xs"
proof (induction xs)
  case (Cons x xs)
  obtain t d where x: "x = (t, d)" by (cases x)
  show ?case
  proof (cases "t = 0x002b")
    case True
    then have "length d = 2" "filter (\<lambda>x. fst x = 0x002b) xs = []" using Cons.prems by (simp_all add: versions_ok_def x)
    then show ?thesis using True last_version_none [of xs] by (simp add: x first_version_Cons last_version_Cons)
  next
    case False
    then have "versions_ok xs" using Cons.prems by (simp add: versions_ok_def x)
    then show ?thesis using False Cons.IH by (simp add: x first_version_Cons last_version_Cons split: option.split)
  qed
qed (simp add: first_version_def last_version_def)

lemma parse_extension_version:
  assumes "parse_extension hrr t d exts = Inr exts'"
  shows "sx_supported_version exts' = (if t = 0x002b \<and> length d = 2 then Some (u16_at d 0) else sx_supported_version exts)"
  using assms by (auto simp: parse_extension_def Let_def split: if_splits)

lemma ext_fold_version:
  "ext_fold hrr seen xs exts = Inr exts' \<Longrightarrow>
   sx_supported_version exts' = (case last_version xs of Some v \<Rightarrow> Some v | None \<Rightarrow> sx_supported_version exts)"
proof (induction xs arbitrary: seen exts)
  case Nil
  then show ?case by (simp add: last_version_def)
next
  case (Cons x xs)
  obtain t d where x: "x = (t, d)" by (cases x)
  obtain exts1 where e: "parse_extension hrr t d exts = Inr exts1"
    "ext_fold hrr (if hrr then seen @ [t] else seen) xs exts1 = Inr exts'"
    using Cons.prems(1) by (auto simp: x split: if_splits sum.splits)
  show ?case
    using Cons.IH [OF e(2)] parse_extension_version [OF e(1)]
    by (auto simp: last_version_Cons x split: option.split)
qed

lemma detect_loop_block:
  assumes "list_all (\<lambda>x. length (snd x) < 65536) xs"
  shows "detect_loop (pre @ concat (map ext_bytes xs) @ post) (length pre) (length pre + length (concat (map ext_bytes xs))) v =
    (case first_version xs of Some u \<Rightarrow> u | None \<Rightarrow> v)"
  using assms
proof (induction xs arbitrary: pre)
  case Nil
  then show ?case by (subst detect_loop.simps) (simp add: first_version_def)
next
  case (Cons x xs)
  obtain t d where x: "x = (t, d)" by (cases x)
  define body where "body = pre @ concat (map ext_bytes (x # xs)) @ post"
  define ext_end where "ext_end = length pre + length (concat (map ext_bytes (x # xs)))"
  have len: "unat (word_of_nat (length d) :: u16) = length d" using Cons.prems x by (simp add: unat_of_nat)
  have body: "body = pre @ u16_to_be t @ u16_to_be (word_of_nat (length d)) @ d @ concat (map ext_bytes xs) @ post"
    by (simp add: body_def x ext_bytes_def)
  have t: "u16_at body (length pre) = t" unfolding body using u16_at_append(2) [of pre _ 0] by (simp add: u16_at_append(1))
  have l: "u16_at body (length pre + 2) = word_of_nat (length d)"
    unfolding body using u16_at_append(2) [of pre _ 2] u16_at_append(2) [of "u16_to_be t" _ 0] by (simp add: u16_at_append(1))
  have d: "u16_at body (length pre + 4) = u16_at d 0" if "2 \<le> length d"
    using that unfolding body by (cases "d = []") (simp_all add: u16_at_def nth_append)
  have e: "length pre + 4 \<le> ext_end \<and> length pre + 4 \<le> length body" "\<not> length body < length pre + 4 + length d"
    by (simp_all add: ext_end_def body_def x)
  have IH: "detect_loop body (length pre + 4 + length d) ext_end v = (case first_version xs of Some u \<Rightarrow> u | None \<Rightarrow> v)"
    using Cons.IH [of "pre @ ext_bytes x"] Cons.prems by (simp add: body_def ext_end_def x add.assoc)
  have "detect_loop body (length pre) ext_end v =
      (if t = 0x002b \<and> 2 \<le> length d then u16_at body (length pre + 4) else detect_loop body (length pre + 4 + length d) ext_end v)"
    by (subst detect_loop.simps) (simp only: t l len Let_def e if_True if_False simp_thms)
  also have "\<dots> = (case first_version (x # xs) of Some u \<Rightarrow> u | None \<Rightarrow> v)"
    using d by (auto simp: IH first_version_Cons x)
  finally show ?case by (simp only: body_def ext_end_def)
qed

text \<open>
  C28. Which version the quick detection and the parser report. For every ServerHello of the grammar that the parser
  accepts, whatever follows the extensions: \<^verbatim>\<open>detect_version_from_server_hello\<close> returns the first two bytes of the first
  \<^verbatim>\<open>supported_versions\<close> that has at least two bytes, the parsed message negotiates the last \<^verbatim>\<open>supported_versions\<close> that has
  exactly two bytes, and each is the legacy version if there is none. The two agree for every message in which the
  extension occurs at most once and with two bytes; they can differ for the others, which the parser also accepts.
\<close>
theorem version_detection_exact:
  fixes l1 l2 l3 :: u8
  assumes "length random = 32" "length sid < 256" "length (concat (map ext_bytes xs)) < 65536"
    and "parse_server_hello (hello_body v random sid cs cm (concat (map ext_bytes xs)) @ post) = Inr sh"
  defines "detected \<equiv> detect_version_from_server_hello
      (0x02 # l1 # l2 # l3 # hello_body v random sid cs cm (concat (map ext_bytes xs)) @ post)"
  shows "detected = Inr (case first_version xs of Some u \<Rightarrow> u | None \<Rightarrow> v) \<and>
    negotiated_version sh = (case last_version xs of Some u \<Rightarrow> u | None \<Rightarrow> v) \<and>
    (versions_ok xs \<longrightarrow> detected = Inr (negotiated_version sh))"
proof -
  let ?block = "concat (map ext_bytes xs)"
  let ?pre = "hello_prefix v random sid cs cm @ u16_to_be (word_of_nat (length ?block))"
  let ?body = "hello_body v random sid cs cm ?block @ post"
  have pre: "length ?pre = 40 + length sid" using assms(1) by (simp add: length_hello_prefix)
  have body: "?body = ?pre @ ?block @ post" "?body = hello_prefix v random sid cs cm @ u16_to_be (word_of_nat (length ?block)) @ ?block @ post"
    by (simp_all add: hello_body_def)
  obtain exts where e: "ext_fold (random = HRR_RANDOM) [] xs extensions_default = Inr exts"
    "sh_extensions sh = exts" "sh_legacy_version sh = v"
    using assms(4) parse_extensions_block [OF assms(1,3), of "random = HRR_RANDOM" v sid cs cm post]
      parse_hello_prefix [OF assms(1,2), of v cs cm "u16_to_be (word_of_nat (length ?block)) @ ?block @ post"]
    unfolding body(2) by (auto split: if_splits sum.splits)
  have "sx_supported_version exts = last_version xs"
    using ext_fold_version [OF e(1)] by (simp add: extensions_default_def split: option.splits)
  then have n: "negotiated_version sh = (case last_version xs of Some u \<Rightarrow> u | None \<Rightarrow> v)"
    using e(2,3) by (simp add: negotiated_version_def split: option.split)
  have "detect_loop (?pre @ ?block @ post) (40 + length sid) (40 + length sid + length ?block) v =
      (case first_version xs of Some u \<Rightarrow> u | None \<Rightarrow> v)"
    using detect_loop_block [OF ext_lengths [OF assms(3)], of ?pre post v] unfolding pre .
  then have "detected = Inr (case first_version xs of Some u \<Rightarrow> u | None \<Rightarrow> v)"
    using hello_prefix_parts(1,3) [OF assms(1,2) refl, of v cs cm "u16_to_be (word_of_nat (length ?block)) @ ?block @ post"]
      block_position(1) [OF assms(1,3), of v sid cs cm post] block_position(2) [OF assms(1,3)] pre
    by (simp add: detected_def detect_version_from_server_hello_def Let_def body)
  then show ?thesis using n versions_same by simp
qed

text \<open>A message that the parser accepts, and on which the two rules disagree.\<close>

definition two_versions :: "(u16 \<times> bytes) list" where
  "two_versions = [(0x002b, [3, 3]), (0x002b, [3, 4])]"

definition two_versions_hello :: bytes where
  "two_versions_hello = hello_body 0x0303 (replicate 32 7) [1] 0x1301 0 (concat (map ext_bytes two_versions)) @ []"

lemma length_two_versions: "length (concat (map ext_bytes two_versions)) < 65536"
  by (simp add: two_versions_def)

lemma two_versions_accepted: "\<exists>sh. parse_server_hello two_versions_hello = Inr sh"
proof -
  have r: "length (replicate 32 (7 :: u8)) = 32" "replicate 32 (7 :: u8) \<noteq> HRR_RANDOM"
    by (simp_all add: HRR_RANDOM_def numeral_eq_Suc)
  show ?thesis
    using parse_extensions_block [OF r(1) length_two_versions, of False "0x0303" "[1]" "0x1301" 0 "[]"]
      parse_hello_prefix [OF r(1), of "[1]" "0x0303" "0x1301" 0
        "u16_to_be (word_of_nat (length (concat (map ext_bytes two_versions)))) @ concat (map ext_bytes two_versions)"] r(2)
    by (simp add: two_versions_hello_def hello_body_def parse_extension_def two_versions_def)
qed

theorem version_detection_exact_witness:
  "\<exists>sh. parse_server_hello two_versions_hello = Inr sh \<and>
     detect_version_from_server_hello (0x02 # 0 # 0 # 52 # two_versions_hello) = Inr 0x0303 \<and>
     negotiated_version sh = 0x0304"
proof -
  have r: "length (replicate 32 (7 :: u8)) = 32" "length [1 :: u8] < 256" by simp_all
  have v: "first_version two_versions = Some 0x0303" "last_version two_versions = Some 0x0304"
    by (simp_all add: two_versions_def first_version_def last_version_def u16_at_def u16_of_be_def)
  obtain sh where sh: "parse_server_hello two_versions_hello = Inr sh" using two_versions_accepted by blast
  then show ?thesis
    using version_detection_exact [OF r length_two_versions, of "0x0303" "0x1301" 0 "[]" sh 0 0 52]
    unfolding v two_versions_hello_def by simp
qed

end
