(* ===== verification/Socks5_Udp.thy ===== *)
theory Socks5_Udp
  imports Prelude
begin

text \<open>
  The SOCKS5 UDP framing of \<^verbatim>\<open>lkrequest/src/proxy/socks5_udp.rs\<close> (RFC 1928 section 7): header of a target, datagrams
  nested for a chain of proxies, and their decoding. An output buffer \<^verbatim>\<open>&mut [u8]\<close> is a list that is returned changed;
  its length never changes. The adapter to the QUIC library in the same file is not part of the model.
\<close>

subsection \<open>Addresses and targets\<close>

text \<open>An IPv6 address is its sixteen octets.\<close>

datatype IpAddr = Ipv4 u8 u8 u8 u8 | Ipv6 bytes

record SocketAddr =
  sa_ip :: IpAddr
  sa_port :: u16

datatype SocksTarget = TargetIp SocketAddr | TargetDomain bytes u16

fun target_port :: "SocksTarget \<Rightarrow> u16" where
  "target_port (TargetIp addr) = sa_port addr"
| "target_port (TargetDomain _ port) = port"

fun quinn_addr :: "SocksTarget \<Rightarrow> SocketAddr" where
  "quinn_addr (TargetIp addr) = addr"
| "quinn_addr (TargetDomain _ port) = \<lparr>sa_ip = Ipv4 127 0 0 2, sa_port = port\<rparr>"

fun is_unspecified :: "IpAddr \<Rightarrow> bool" where
  "is_unspecified (Ipv4 a b c d) \<longleftrightarrow> a = 0 \<and> b = 0 \<and> c = 0 \<and> d = 0"
| "is_unspecified (Ipv6 octets) \<longleftrightarrow> list_all (\<lambda>b. b = 0) octets"

datatype ErrorKind = EK_InvalidInput | EK_InvalidData | EK_Unsupported

datatype io_error = IoError ErrorKind string

subsection \<open>Encoding\<close>

definition SOCKS5_UDP_HEADER_IPV4 :: nat where
  "SOCKS5_UDP_HEADER_IPV4 = 10"

definition SOCKS5_UDP_HEADER_IPV6 :: nat where
  "SOCKS5_UDP_HEADER_IPV6 = 22"

fun socks5_udp_target_header_len :: "SocksTarget \<Rightarrow> nat" where
  "socks5_udp_target_header_len (TargetIp addr) =
     (case sa_ip addr of Ipv4 _ _ _ _ \<Rightarrow> SOCKS5_UDP_HEADER_IPV4 | Ipv6 _ \<Rightarrow> SOCKS5_UDP_HEADER_IPV6)"
| "socks5_udp_target_header_len (TargetDomain host port) = 5 + length host + 2"

text \<open>The bytes that the assignments to \<^verbatim>\<open>out\<close> put at its front.\<close>

fun header_fields :: "SocksTarget \<Rightarrow> bytes" where
  "header_fields (TargetIp addr) =
     [0x00, 0x00, 0x00] @
     (case sa_ip addr of
        Ipv4 a b c d \<Rightarrow> 0x01 # [a, b, c, d] @ u16_to_be (sa_port addr)
      | Ipv6 octets \<Rightarrow> 0x04 # octets @ u16_to_be (sa_port addr))"
| "header_fields (TargetDomain host port) =
     [0x00, 0x00, 0x00, 0x03, word_of_nat (length host)] @ host @ u16_to_be port"

definition write_socks5_udp_header :: "SocksTarget \<Rightarrow> bytes \<Rightarrow> (io_error + nat) \<times> bytes" where
  "write_socks5_udp_header target out =
     (let hdr_len = socks5_udp_target_header_len target in
      if length out < hdr_len
      then (Inl (IoError EK_InvalidInput ''output buffer too small for SOCKS5 UDP header''), out)
      else (Inr hdr_len, header_fields target @ drop (length (header_fields target)) out))"

definition encode_socks5_udp_target :: "SocksTarget \<Rightarrow> bytes \<Rightarrow> bytes \<Rightarrow> (io_error + nat) \<times> bytes" where
  "encode_socks5_udp_target target payload out =
     (case write_socks5_udp_header target out of
        (Inl e, out1) \<Rightarrow> (Inl e, out1)
      | (Inr hdr_len, out1) \<Rightarrow>
          let total = hdr_len + length payload in
          if length out1 < total
          then (Inl (IoError EK_InvalidInput ''output buffer too small for SOCKS5 UDP frame''), out1)
          else (Inr total, take hdr_len out1 @ payload @ drop total out1))"

definition socks5_udp_nested_header_len :: "SocksTarget list \<Rightarrow> SocksTarget \<Rightarrow> nat" where
  "socks5_udp_nested_header_len intermediate target =
     sum_list (map socks5_udp_target_header_len intermediate) + socks5_udp_target_header_len target"

text \<open>The loop over the intermediate relays, from offset \<open>off\<close> on, and the innermost frame.\<close>

fun nested_loop :: "SocksTarget list \<Rightarrow> SocksTarget \<Rightarrow> bytes \<Rightarrow> nat \<Rightarrow> bytes \<Rightarrow> (io_error + nat) \<times> bytes" where
  "nested_loop [] target payload off out =
     (case encode_socks5_udp_target target payload (drop off out) of
        (Inl e, rest) \<Rightarrow> (Inl e, take off out @ rest)
      | (Inr n, rest) \<Rightarrow> (Inr (off + n), take off out @ rest))"
| "nested_loop (hop # hops) target payload off out =
     (case write_socks5_udp_header hop (drop off out) of
        (Inl e, rest) \<Rightarrow> (Inl e, take off out @ rest)
      | (Inr n, rest) \<Rightarrow> nested_loop hops target payload (off + n) (take off out @ rest))"

definition encode_socks5_udp_nested ::
  "SocksTarget list \<Rightarrow> SocksTarget \<Rightarrow> bytes \<Rightarrow> bytes \<Rightarrow> (io_error + nat) \<times> bytes" where
  "encode_socks5_udp_nested intermediate target payload out = nested_loop intermediate target payload 0 out"

definition encode_socks5_udp :: "SocketAddr \<Rightarrow> bytes \<Rightarrow> bytes \<Rightarrow> (io_error + nat) \<times> bytes" where
  "encode_socks5_udp target payload out = encode_socks5_udp_target (TargetIp target) payload out"

subsection \<open>Decoding\<close>

definition be16_at :: "bytes \<Rightarrow> nat \<Rightarrow> u16" where
  "be16_at buf i = u16_of_be (buf ! i) (buf ! (i + 1))"

definition decode_socks5_udp :: "bytes \<Rightarrow> io_error + (SocketAddr \<times> bytes)" where
  "decode_socks5_udp buf =
     (if length buf < 4 then Inl (IoError EK_InvalidData ''SOCKS5 UDP frame too short'')
      else if buf ! 2 \<noteq> 0x00 then Inl (IoError EK_Unsupported ''SOCKS5 UDP fragmentation not supported'')
      else if buf ! 3 = 0x01 then
        if length buf < SOCKS5_UDP_HEADER_IPV4 then Inl (IoError EK_InvalidData ''SOCKS5 UDP IPv4 frame too short'')
        else Inr (\<lparr>sa_ip = Ipv4 (buf ! 4) (buf ! 5) (buf ! 6) (buf ! 7), sa_port = be16_at buf 8\<rparr>,
                  drop SOCKS5_UDP_HEADER_IPV4 buf)
      else if buf ! 3 = 0x04 then
        if length buf < SOCKS5_UDP_HEADER_IPV6 then Inl (IoError EK_InvalidData ''SOCKS5 UDP IPv6 frame too short'')
        else Inr (\<lparr>sa_ip = Ipv6 (take 16 (drop 4 buf)), sa_port = be16_at buf 20\<rparr>, drop SOCKS5_UDP_HEADER_IPV6 buf)
      else if buf ! 3 = 0x03 then
        if length buf < 5 then Inl (IoError EK_InvalidData ''SOCKS5 UDP domain frame too short'')
        else
          let dlen = unat (buf ! 4); port_offset = 5 + dlen in
          if dlen = 0 then Inl (IoError EK_InvalidData ''SOCKS5 UDP domain length is zero'')
          else if length buf < port_offset + 2
          then Inl (IoError EK_InvalidData ''SOCKS5 UDP domain frame too short for port'')
          else Inr (\<lparr>sa_ip = Ipv4 0 0 0 0, sa_port = be16_at buf port_offset\<rparr>, drop (port_offset + 2) buf)
      else Inl (IoError EK_InvalidData
             (''SOCKS5 UDP unsupported ATYP: 0x'' @
              map hex_digit [unat (buf ! 3) div 16 mod 16, unat (buf ! 3) mod 16])))"

fun decode_socks5_udp_nested :: "bytes \<Rightarrow> nat \<Rightarrow> io_error + bytes" where
  "decode_socks5_udp_nested cur 0 = Inr cur"
| "decode_socks5_udp_nested cur (Suc layers) =
     (case decode_socks5_udp cur of
        Inl e \<Rightarrow> Inl e
      | Inr (_, payload) \<Rightarrow> decode_socks5_udp_nested payload layers)"

definition packet_source_matches_relay :: "SocketAddr \<Rightarrow> SocketAddr \<Rightarrow> bool" where
  "packet_source_matches_relay from relay =
     (if is_unspecified (sa_ip relay) then sa_port from = sa_port relay else sa_ip from = sa_ip relay)"

subsection \<open>Round trip\<close>

text \<open>
  Sixteen octets of an IPv6 address are guaranteed by its type. A host name of 1 to 255 bytes is what the length byte
  of the header can express; \<^verbatim>\<open>SocksTarget\<close> does not enforce it, and \<^verbatim>\<open>write_socks5_udp_header\<close> truncates the length
  of a longer one.
\<close>

fun target_ok :: "SocksTarget \<Rightarrow> bool" where
  "target_ok (TargetIp addr) = (case sa_ip addr of Ipv4 _ _ _ _ \<Rightarrow> True | Ipv6 octets \<Rightarrow> length octets = 16)"
| "target_ok (TargetDomain host port) \<longleftrightarrow> 0 < length host \<and> length host < 256"

text \<open>The address that \<^verbatim>\<open>decode_socks5_udp\<close> reports for a header; a domain is reported as the unspecified address.\<close>

fun seen_addr :: "SocksTarget \<Rightarrow> SocketAddr" where
  "seen_addr (TargetIp addr) = addr"
| "seen_addr (TargetDomain _ port) = \<lparr>sa_ip = Ipv4 0 0 0 0, sa_port = port\<rparr>"

lemma length_header_fields: "target_ok t \<Longrightarrow> length (header_fields t) = socks5_udp_target_header_len t"
  by (cases t) (auto simp: SOCKS5_UDP_HEADER_IPV4_def SOCKS5_UDP_HEADER_IPV6_def split: IpAddr.splits)

lemma be16_at_append: "length xs = n \<Longrightarrow> be16_at (xs @ u16_to_be w @ ys) n = w"
  by (auto simp: be16_at_def u16_to_be_def nth_append u16_of_to_be)

lemma decode_header:
  assumes "target_ok t"
  shows "decode_socks5_udp (header_fields t @ rest) = Inr (seen_addr t, rest)"
proof (cases t)
  case (TargetIp addr)
  show ?thesis
  proof (cases "sa_ip addr")
    case (Ipv4 a b c d)
    have "be16_at ([0, 0, 0, 1, a, b, c, d] @ u16_to_be (sa_port addr) @ rest) 8 = sa_port addr"
      by (rule be16_at_append) simp
    then show ?thesis using TargetIp Ipv4 by (simp add: decode_socks5_udp_def SOCKS5_UDP_HEADER_IPV4_def)
  next
    case (Ipv6 octets)
    then have "length octets = 16" using assms TargetIp by simp
    moreover from this have "be16_at ((0 # 0 # 0 # 4 # octets) @ u16_to_be (sa_port addr) @ rest) 20 = sa_port addr"
      by (intro be16_at_append) simp
    ultimately show ?thesis
      using TargetIp Ipv6 by (simp add: decode_socks5_udp_def SOCKS5_UDP_HEADER_IPV6_def)
  qed
next
  case (TargetDomain host port)
  then have h: "unat (word_of_nat (length host) :: u8) = length host" "host \<noteq> []" using assms by (simp_all add: unat_of_nat)
  have "be16_at ((0 # 0 # 0 # 3 # word_of_nat (length host) # host) @ u16_to_be port @ rest) (5 + length host) = port"
    by (rule be16_at_append) simp
  moreover have "drop (7 + length host) ((0 # 0 # 0 # 3 # word_of_nat (length host) # host @ u16_to_be port) @ rest) = rest"
    by (subst drop_append) simp
  ultimately show ?thesis using TargetDomain h by (simp add: decode_socks5_udp_def Let_def)
qed

lemma decode_nested:
  assumes "list_all target_ok ts" "k \<le> length ts"
  shows "decode_socks5_udp_nested (concat (map header_fields ts) @ payload) k =
    Inr (concat (map header_fields (drop k ts)) @ payload)"
  using assms
proof (induction k arbitrary: ts)
  case (Suc k)
  then obtain t ts' where "ts = t # ts'" by (cases ts) auto
  then show ?case using Suc by (simp add: decode_header)
qed simp

lemma length_headers:
  "list_all target_ok ts \<Longrightarrow>
   length (concat (map header_fields ts)) = sum_list (map socks5_udp_target_header_len ts)"
  by (induction ts) (simp_all add: length_header_fields)

text \<open>
  The specification of a relay, written from RFC 1928 section 7 and independent of the code: two reserved zero bytes, the
  fragment number zero, the address type, the address (a host name with its length in front) and the port in network
  order. The relay learns the whole destination, host name included, and forwards the rest.
\<close>

definition rfc1928_port :: "bytes \<Rightarrow> u16" where
  "rfc1928_port b = word_of_nat (256 * unat (b ! 0) + unat (b ! 1))"

definition rfc1928_read :: "bytes \<Rightarrow> (SocksTarget \<times> bytes) option" where
  "rfc1928_read buf =
     (if length buf < 5 \<or> take 3 buf \<noteq> [0, 0, 0] then None
      else
        let atyp = buf ! 3; r = drop 4 buf; n = unat (r ! 0) in
        if atyp = 1 \<and> 6 \<le> length r
        then Some (TargetIp \<lparr>sa_ip = Ipv4 (r ! 0) (r ! 1) (r ! 2) (r ! 3), sa_port = rfc1928_port (drop 4 r)\<rparr>, drop 6 r)
        else if atyp = 4 \<and> 18 \<le> length r
        then Some (TargetIp \<lparr>sa_ip = Ipv6 (take 16 r), sa_port = rfc1928_port (drop 16 r)\<rparr>, drop 18 r)
        else if atyp = 3 \<and> 1 + n + 2 \<le> length r
        then Some (TargetDomain (take n (drop 1 r)) (rfc1928_port (drop (1 + n) r)), drop (1 + n + 2) r)
        else None)"

text \<open>The destinations that the first \<open>k\<close> relays of a chain read, and the datagram that the last of them forwards.\<close>

fun relay_chain :: "nat \<Rightarrow> bytes \<Rightarrow> (SocksTarget list \<times> bytes) option" where
  "relay_chain 0 frame = Some ([], frame)"
| "relay_chain (Suc k) frame =
     (case rfc1928_read frame of
        None \<Rightarrow> None
      | Some (t, inner) \<Rightarrow> map_option (\<lambda>(ts, r). (t # ts, r)) (relay_chain k inner))"

lemma rfc1928_port_be: "rfc1928_port (u16_to_be w @ r) = w"
proof -
  have "unat w < 65536" using unsigned_less [of w, where 'a = nat] by simp
  then have "256 * (unat w div 256 mod 256) + unat w mod 256 = unat w"
    by (simp add: mod_less less_mult_imp_div_less)
  then have "256 * unat (ucast (drop_bit 8 w) :: u8) + unat (ucast w :: u8) = unat w"
    by (simp add: unsigned_drop_bit_eq drop_bit_eq_div unsigned_ucast_eq take_bit_eq_mod unat_div)
  then show ?thesis by (simp add: rfc1928_port_def u16_to_be_def del: of_nat_add of_nat_mult)
qed

lemma rfc1928_read_header:
  assumes "target_ok t"
  shows "rfc1928_read (header_fields t @ rest) = Some (t, rest)"
proof (cases t)
  case (TargetIp addr)
  then show ?thesis
    using assms rfc1928_port_be [of "sa_port addr" rest]
    by (cases "sa_ip addr") (auto simp: rfc1928_read_def Let_def)
next
  case (TargetDomain host port)
  then have h: "unat (word_of_nat (length host) :: u8) = length host" using assms by (simp add: unat_of_nat)
  show ?thesis using TargetDomain rfc1928_port_be [of port rest] by (simp add: rfc1928_read_def Let_def h)
qed

lemma relay_chain_headers:
  assumes "list_all target_ok ts" "k \<le> length ts"
  shows "relay_chain k (concat (map header_fields ts) @ payload) =
    Some (take k ts, concat (map header_fields (drop k ts)) @ payload)"
  using assms
proof (induction k arbitrary: ts)
  case (Suc k)
  then obtain t ts' where "ts = t # ts'" by (cases ts) auto
  then show ?case using Suc by (simp add: rfc1928_read_header)
qed simp

lemma inner_datagram:
  fixes payload :: bytes
  assumes "list_all target_ok (hops @ [target])" "k \<le> length hops"
  defines "ts \<equiv> hops @ [target]"
  defines "frame \<equiv> concat (map header_fields ts) @ payload" and "inner \<equiv> concat (map header_fields (drop k ts)) @ payload"
  shows "relay_chain k frame = Some (take k hops, inner)" "decode_socks5_udp_nested frame k = Inr inner"
    "map_option fst (rfc1928_read inner) = Some (ts ! k)"
    "map_sum id fst (decode_socks5_udp inner) = Inr (seen_addr (ts ! k))"
proof -
  have ok: "list_all target_ok ts" "k < length ts" using assms(1,2) by (simp_all add: ts_def)
  then have d: "drop k ts = ts ! k # drop (Suc k) ts" "target_ok (ts ! k)"
    by (simp_all add: Cons_nth_drop_Suc list_all_length)
  then have i: "inner = header_fields (ts ! k) @ concat (map header_fields (drop (Suc k) ts)) @ payload"
    by (simp add: inner_def)
  show "map_option fst (rfc1928_read inner) = Some (ts ! k)"
    "map_sum id fst (decode_socks5_udp inner) = Inr (seen_addr (ts ! k))"
    by (simp_all add: i rfc1928_read_header [OF d(2)] decode_header [OF d(2)])
  have "take k ts = take k hops" using assms(2) by (simp add: ts_def)
  then show "relay_chain k frame = Some (take k hops, inner)" "decode_socks5_udp_nested frame k = Inr inner"
    using relay_chain_headers [OF ok(1)] decode_nested [OF ok(1)] ok(2) by (simp_all add: frame_def inner_def)
qed

lemma write_header_at:
  assumes "target_ok t" "off \<le> length out"
  shows "write_socks5_udp_header t (drop off out) =
    (if length out < off + socks5_udp_target_header_len t
     then (Inl (IoError EK_InvalidInput ''output buffer too small for SOCKS5 UDP header''), drop off out)
     else (Inr (socks5_udp_target_header_len t), header_fields t @ drop (off + socks5_udp_target_header_len t) out))"
  using assms by (auto simp: write_socks5_udp_header_def Let_def length_header_fields add.commute)

lemma nested_loop_spec:
  fixes payload :: bytes
  assumes "list_all target_ok (hops @ [target])" "off \<le> length out"
  defines "need \<equiv> off + socks5_udp_nested_header_len hops target + length payload"
  shows "if need \<le> length out
    then nested_loop hops target payload off out =
      (Inr need, take off out @ concat (map header_fields (hops @ [target])) @ payload @ drop need out)
    else \<exists>msg out'. nested_loop hops target payload off out = (Inl (IoError EK_InvalidInput msg), out') \<and> length out' = length out"
  using assms(1,2) unfolding need_def
proof (induction hops arbitrary: off out)
  case Nil
  then show ?case
    using write_header_at [of target off out] length_header_fields [of target]
    by (auto simp: encode_socks5_udp_target_def socks5_udp_nested_header_len_def Let_def add_ac)
next
  case (Cons hop hops)
  let ?n = "socks5_udp_target_header_len hop"
  have ok: "target_ok hop" "list_all target_ok (hops @ [target])" using Cons.prems(1) by auto
  show ?case
  proof (cases "length out < off + ?n")
    case True
    then show ?thesis using write_header_at [OF ok(1) Cons.prems(2)] Cons.prems(2)
      by (simp add: socks5_udp_nested_header_len_def)
  next
    case False
    let ?out = "take off out @ header_fields hop @ drop (off + ?n) out"
    have out: "length ?out = length out" "take (off + ?n) ?out = take off out @ header_fields hop"
      "\<And>k. drop (off + ?n + k) ?out = drop (off + ?n + k) out"
      using False length_header_fields [OF ok(1)] by (simp_all add: add_ac)
    have "nested_loop (hop # hops) target payload off out = nested_loop hops target payload (off + ?n) ?out"
      using False write_header_at [OF ok(1) Cons.prems(2)] by simp
    then show ?thesis
      using Cons.IH [OF ok(2), of "off + ?n" ?out] False out(3) [of "socks5_udp_nested_header_len hops target + length payload"]
      unfolding out(1,2) by (auto simp: socks5_udp_nested_header_len_def add_ac split: if_splits)
  qed
qed

text \<open>
  C11. Datagrams survive a chain of SOCKS5 proxies. For every chain of relays, target and payload, all host names having 1
  to 255 bytes, the encoder succeeds exactly when the buffer has room for all headers and the payload. Then it returns
  their total length and leaves the rest of the buffer alone. Relays that read the frame one after the other, as RFC 1928
  prescribes, learn exactly the hops and then the target, in order and with their whole address, host names included; each
  forwards a datagram from which the next reads its own destination, and the last one forwards exactly the payload. The
  client's own decoder strips the same layers, and reports the outermost destination.
\<close>
theorem socks5_nested_round_trip:
  fixes payload :: bytes
  assumes "list_all target_ok (hops @ [target])"
  defines "need \<equiv> socks5_udp_nested_header_len hops target + length payload"
  shows "if need \<le> length out
    then \<exists>frame. encode_socks5_udp_nested hops target payload out = (Inr need, frame @ drop need out) \<and>
      length frame = need \<and>
      (\<forall>k \<le> length hops. \<exists>inner. relay_chain k frame = Some (take k hops, inner) \<and>
         decode_socks5_udp_nested frame k = Inr inner \<and>
         map_option fst (rfc1928_read inner) = Some ((hops @ [target]) ! k) \<and>
         map_sum id fst (decode_socks5_udp inner) = Inr (seen_addr ((hops @ [target]) ! k))) \<and>
      relay_chain (length hops + 1) frame = Some (hops @ [target], payload) \<and>
      decode_socks5_udp_nested frame (length hops + 1) = Inr payload
    else \<exists>msg out'. encode_socks5_udp_nested hops target payload out = (Inl (IoError EK_InvalidInput msg), out')"
proof -
  let ?ts = "hops @ [target]"
  let ?frame = "concat (map header_fields ?ts) @ payload"
  have spec: "if need \<le> length out
    then encode_socks5_udp_nested hops target payload out = (Inr need, ?frame @ drop need out)
    else \<exists>msg out'. encode_socks5_udp_nested hops target payload out = (Inl (IoError EK_InvalidInput msg), out')"
    using nested_loop_spec [OF assms(1), of 0 out payload]
    by (auto simp: encode_socks5_udp_nested_def need_def split: if_splits)
  have "length ?frame = need"
    using length_headers [OF assms(1)] by (simp add: need_def socks5_udp_nested_header_len_def)
  moreover have "relay_chain (length hops + 1) ?frame = Some (?ts, payload)"
    using relay_chain_headers [OF assms(1), of "length hops + 1"] by simp
  moreover have "decode_socks5_udp_nested ?frame (length hops + 1) = Inr payload"
    using decode_nested [OF assms(1), of "length hops + 1"] by simp
  moreover have "\<forall>k \<le> length hops. \<exists>inner. relay_chain k ?frame = Some (take k hops, inner) \<and>
      decode_socks5_udp_nested ?frame k = Inr inner \<and>
      map_option fst (rfc1928_read inner) = Some (?ts ! k) \<and>
      map_sum id fst (decode_socks5_udp inner) = Inr (seen_addr (?ts ! k))"
    using inner_datagram [OF assms(1)] by auto
  ultimately show ?thesis using spec by (metis (no_types, lifting))
qed

theorem socks5_nested_round_trip_witness:
  "list_all target_ok ([TargetIp \<lparr>sa_ip = Ipv4 10 0 0 1, sa_port = 1080\<rparr>] @ [TargetDomain (ascii ''example.org'') 443]) \<and>
   (\<exists>frame. encode_socks5_udp_nested [TargetIp \<lparr>sa_ip = Ipv4 10 0 0 1, sa_port = 1080\<rparr>]
       (TargetDomain (ascii ''example.org'') 443) [1, 2, 3] (replicate 40 0) = (Inr 31, frame @ drop 31 (replicate 40 0)) \<and>
     relay_chain 2 frame =
       Some ([TargetIp \<lparr>sa_ip = Ipv4 10 0 0 1, sa_port = 1080\<rparr>, TargetDomain (ascii ''example.org'') 443], [1, 2, 3]) \<and>
     decode_socks5_udp_nested frame 2 = Inr [1, 2, 3])"
proof -
  let ?hops = "[TargetIp \<lparr>sa_ip = Ipv4 10 0 0 1, sa_port = 1080\<rparr>]" and ?t = "TargetDomain (ascii ''example.org'') 443"
  have ok: "list_all target_ok (?hops @ [?t])" by (simp add: ascii_def)
  have n: "socks5_udp_nested_header_len ?hops ?t + length [1 :: u8, 2, 3] = 31"
    by (simp add: socks5_udp_nested_header_len_def SOCKS5_UDP_HEADER_IPV4_def ascii_def)
  have l: "length ?hops + 1 = 2" "?hops @ [?t] = [hd ?hops, ?t]" "31 \<le> length (replicate 40 (0 :: u8))" by simp_all
  then have "\<exists>frame. encode_socks5_udp_nested ?hops ?t [1, 2, 3] (replicate 40 0) = (Inr 31, frame @ drop 31 (replicate 40 0)) \<and>
      relay_chain 2 frame = Some (?hops @ [?t], [1, 2, 3]) \<and> decode_socks5_udp_nested frame 2 = Inr [1, 2, 3]"
    using socks5_nested_round_trip [OF ok, of "[1, 2, 3]" "replicate 40 0"] unfolding n by metis
  then show ?thesis using ok by simp
qed

end
