(* ===== verification/Broken_Quic.thy ===== *)
theory Broken_Quic
  imports Prelude
begin

text \<open>
  The tracker of origins and routes whose QUIC path is considered broken (\<^verbatim>\<open>lkrequest/src/alt_svc.rs\<close>,
  \<^verbatim>\<open>BrokenQuicTracker\<close>). Instants and durations are nanoseconds as \<open>nat\<close>; the present instant \<open>now\<close> is an argument of
  each operation, and \<^verbatim>\<open>elapsed\<close> is the subtraction that stops at zero, as in the standard library. The tracker only
  compares routes and origins, so their types are variables. The \<^verbatim>\<open>HashMap\<close>s are association lists in an arbitrary
  order; the first of several oldest entries in that order is the one that is evicted. The rest of the file, the cache of
  Alt-Svc headers, is not part of the model.
\<close>

subsection \<open>Configuration\<close>

datatype H3Reachability = Hr_Unknown | Hr_Advertised | Hr_Validated | Hr_FailedTransiently | Hr_FailedPersistently

datatype BrokenReason = OriginH3Failure | ProxyUdpUnavailable

record BrokenQuicConfig =
  bc_max_entries :: nat
  bc_initial_cooldown :: nat
  bc_max_cooldown :: nat
  bc_failure_escalation_threshold :: u32
  bc_enabled :: bool
  bc_route_cooldown :: nat
  bc_max_route_entries :: nat

definition from_secs :: "nat \<Rightarrow> nat" where
  "from_secs s = s * 1000000000"

definition broken_quic_config_default :: BrokenQuicConfig where
  "broken_quic_config_default =
     \<lparr>bc_max_entries = 1024, bc_initial_cooldown = from_secs (5 * 60), bc_max_cooldown = from_secs (60 * 60),
      bc_failure_escalation_threshold = 4, bc_enabled = True, bc_route_cooldown = from_secs (30 * 60),
      bc_max_route_entries = 256\<rparr>"

datatype BrokenQuicPolicy = Bq_Strict | Bq_Resilient | Bq_Disabled | Bq_Custom BrokenQuicConfig

fun resolve :: "BrokenQuicPolicy \<Rightarrow> BrokenQuicConfig" where
  "resolve Bq_Strict = broken_quic_config_default"
| "resolve Bq_Resilient = broken_quic_config_default
     \<lparr>bc_initial_cooldown := from_secs 1, bc_max_cooldown := from_secs 10, bc_failure_escalation_threshold := -1,
      bc_route_cooldown := from_secs 60\<rparr>"
| "resolve Bq_Disabled = broken_quic_config_default\<lparr>bc_enabled := False\<rparr>"
| "resolve (Bq_Custom cfg) = cfg"

subsection \<open>The tracker\<close>

record BrokenEntry =
  be_failed_at :: nat
  be_cooldown :: nat
  be_failure_count :: u32

record BrokenRouteEntry =
  br_failed_at :: nat
  br_cooldown :: nat
  br_reason :: BrokenReason

record ('r, 'o) BrokenQuicTracker =
  bt_broken :: "(('r \<times> 'o) \<times> BrokenEntry) list"
  bt_broken_routes :: "('r \<times> BrokenRouteEntry) list"
  bt_config :: BrokenQuicConfig

definition with_config :: "BrokenQuicConfig \<Rightarrow> ('r, 'o) BrokenQuicTracker" where
  "with_config config = \<lparr>bt_broken = [], bt_broken_routes = [], bt_config = config\<rparr>"

text \<open>\<^verbatim>\<open>saturating_add(1)\<close> and \<^verbatim>\<open>max(1)\<close> on \<^verbatim>\<open>u32\<close>.\<close>

definition sat_inc :: "u32 \<Rightarrow> u32" where
  "sat_inc n = (if n = -1 then -1 else n + 1)"

definition cooldown_for_failure :: "BrokenQuicConfig \<Rightarrow> u32 \<Rightarrow> nat" where
  "cooldown_for_failure config failure_count =
     (let threshold = max (bc_failure_escalation_threshold config) 1;
          clamped = min failure_count threshold
      in if clamped \<le> 1 then min (bc_initial_cooldown config) (bc_max_cooldown config)
         else
           let initial = bc_initial_cooldown config;
               mx = max (bc_max_cooldown config) initial;
               span = mx - initial;
               numerator = unat (clamped - 1) * span;
               denominator = max (unat (threshold - 1)) 1;
               step = numerator div denominator mod 2 ^ 64
           in min (initial + step) mx)"

text \<open>\<^verbatim>\<open>min_by_key\<close> on the time of the failure, and the eviction of its result when the map is full.\<close>

fun oldest :: "('v \<Rightarrow> nat) \<Rightarrow> ('k \<times> 'v) list \<Rightarrow> 'k option" where
  "oldest f [] = None"
| "oldest f [(k, v)] = Some k"
| "oldest f ((k, v) # (k', v') # xs) = (if f v \<le> f v' then oldest f ((k, v) # xs) else oldest f ((k', v') # xs))"

definition evict_for :: "('v \<Rightarrow> nat) \<Rightarrow> nat \<Rightarrow> 'k \<Rightarrow> ('k \<times> 'v) list \<Rightarrow> ('k \<times> 'v) list" where
  "evict_for f limit key m =
     (if map_of m key = None \<and> length m \<ge> limit
      then (case oldest f m of Some victim \<Rightarrow> AList.delete victim m | None \<Rightarrow> m)
      else m)"

definition mark_broken_for_route :: "nat \<Rightarrow> 'r \<Rightarrow> 'o \<Rightarrow> ('r, 'o) BrokenQuicTracker \<Rightarrow> ('r, 'o) BrokenQuicTracker" where
  "mark_broken_for_route now route origin t =
     (let key = (route, origin);
          next_count = (case map_of (bt_broken t) key of
                          Some entry \<Rightarrow>
                            if now - be_failed_at entry \<ge> be_cooldown entry then 1 else sat_inc (be_failure_count entry)
                        | None \<Rightarrow> 1);
          cooldown = cooldown_for_failure (bt_config t) next_count;
          broken = evict_for be_failed_at (bc_max_entries (bt_config t)) key (bt_broken t)
      in t\<lparr>bt_broken := AList.update key
             \<lparr>be_failed_at = now, be_cooldown = cooldown, be_failure_count = next_count\<rparr> broken\<rparr>)"

definition is_route_broken :: "nat \<Rightarrow> 'r \<Rightarrow> ('r, 'o) BrokenQuicTracker \<Rightarrow> bool \<times> ('r, 'o) BrokenQuicTracker" where
  "is_route_broken now route t =
     (if \<not> bc_enabled (bt_config t) then (False, t)
      else
        case map_of (bt_broken_routes t) route of
          None \<Rightarrow> (False, t)
        | Some entry \<Rightarrow>
            if now - br_failed_at entry < br_cooldown entry then (True, t)
            else (False, t\<lparr>bt_broken_routes := AList.delete route (bt_broken_routes t)\<rparr>))"

definition is_broken_for_route ::
  "nat \<Rightarrow> 'r \<Rightarrow> 'o \<Rightarrow> ('r, 'o) BrokenQuicTracker \<Rightarrow> bool \<times> ('r, 'o) BrokenQuicTracker" where
  "is_broken_for_route now route origin t =
     (if \<not> bc_enabled (bt_config t) then (False, t)
      else
        let (route_broken, t1) = is_route_broken now route t in
        if route_broken then (True, t1)
        else
          case map_of (bt_broken t1) (route, origin) of
            None \<Rightarrow> (False, t1)
          | Some entry \<Rightarrow>
              if now - be_failed_at entry < be_cooldown entry then (True, t1)
              else (False, t1\<lparr>bt_broken := AList.delete (route, origin) (bt_broken t1)\<rparr>))"

definition mark_working_for_route :: "'r \<Rightarrow> 'o \<Rightarrow> ('r, 'o) BrokenQuicTracker \<Rightarrow> ('r, 'o) BrokenQuicTracker" where
  "mark_working_for_route route origin t = t\<lparr>bt_broken := AList.delete (route, origin) (bt_broken t)\<rparr>"

definition mark_route_broken :: "nat \<Rightarrow> 'r \<Rightarrow> BrokenReason \<Rightarrow> ('r, 'o) BrokenQuicTracker \<Rightarrow> ('r, 'o) BrokenQuicTracker" where
  "mark_route_broken now route reason t =
     (let broken_routes = evict_for br_failed_at (bc_max_route_entries (bt_config t)) route (bt_broken_routes t)
      in t\<lparr>bt_broken_routes := AList.update route
             \<lparr>br_failed_at = now, br_cooldown = bc_route_cooldown (bt_config t), br_reason = reason\<rparr> broken_routes\<rparr>)"

definition mark_route_working :: "'r \<Rightarrow> ('r, 'o) BrokenQuicTracker \<Rightarrow> ('r, 'o) BrokenQuicTracker" where
  "mark_route_working route t = t\<lparr>bt_broken_routes := AList.delete route (bt_broken_routes t)\<rparr>"

definition h3_reachability_for_route ::
  "nat \<Rightarrow> 'r \<Rightarrow> 'o \<Rightarrow> ('r, 'o) BrokenQuicTracker \<Rightarrow> H3Reachability option \<times> ('r, 'o) BrokenQuicTracker" where
  "h3_reachability_for_route now route origin t =
     (case map_of (bt_broken t) (route, origin) of
        None \<Rightarrow> (None, t)
      | Some entry \<Rightarrow>
          if now - be_failed_at entry \<ge> be_cooldown entry
          then (None, t\<lparr>bt_broken := AList.delete (route, origin) (bt_broken t)\<rparr>)
          else (Some (if be_failure_count entry \<ge> max (bc_failure_escalation_threshold (bt_config t)) 1
                      then Hr_FailedPersistently else Hr_FailedTransiently), t))"

subsection \<open>Cooldowns\<close>

text \<open>
  The longest cooldown that the code gives an origin. It is \<^verbatim>\<open>max_cooldown\<close> only when that is not below
  \<^verbatim>\<open>initial_cooldown\<close>: the comparison with the initial cooldown in \<^verbatim>\<open>cooldown_for_failure\<close> lifts the documented maximum.
\<close>

definition cooldown_limit :: "BrokenQuicConfig \<Rightarrow> nat" where
  "cooldown_limit config = max (bc_max_cooldown config) (bc_initial_cooldown config)"

lemma cooldown_le_limit: "cooldown_for_failure config n \<le> cooldown_limit config"
  by (auto simp: cooldown_for_failure_def cooldown_limit_def Let_def)

text \<open>At the threshold the cooldown is the longest one, as the comment in the code says.\<close>

lemma cooldown_at_threshold:
  assumes "1 < bc_failure_escalation_threshold config" "bc_failure_escalation_threshold config \<le> n"
    and "bc_max_cooldown config < 2 ^ 64"
  shows "cooldown_for_failure config n = cooldown_limit config"
proof -
  let ?t = "bc_failure_escalation_threshold config"
  have t: "max ?t 1 = ?t" "min n ?t = ?t" "\<not> ?t \<le> 1" using assms(1,2) by (auto simp: max_def min_def)
  have "?t - 1 \<noteq> 0" using assms(1) by auto
  then have "0 < unat (?t - 1)" by (simp add: unat_gt_0)
  moreover have "cooldown_limit config - bc_initial_cooldown config < 2 ^ 64"
    using assms(3) by (auto simp: cooldown_limit_def)
  ultimately show ?thesis by (simp add: cooldown_for_failure_def Let_def t cooldown_limit_def)
qed

subsection \<open>Runs\<close>

datatype ('r, 'o) tracker_op =
    MarkBroken 'r 'o
  | IsBroken 'r 'o
  | IsRouteBroken 'r
  | MarkWorking 'r 'o
  | MarkRouteBroken 'r BrokenReason
  | MarkRouteWorking 'r
  | Reachability 'r 'o

fun tracker_step :: "nat \<times> ('r, 'o) tracker_op \<Rightarrow> ('r, 'o) BrokenQuicTracker \<Rightarrow> ('r, 'o) BrokenQuicTracker" where
  "tracker_step (now, MarkBroken r s) t = mark_broken_for_route now r s t"
| "tracker_step (now, IsBroken r s) t = snd (is_broken_for_route now r s t)"
| "tracker_step (now, IsRouteBroken r) t = snd (is_route_broken now r t)"
| "tracker_step (now, MarkWorking r s) t = mark_working_for_route r s t"
| "tracker_step (now, MarkRouteBroken r reason) t = mark_route_broken now r reason t"
| "tracker_step (now, MarkRouteWorking r) t = mark_route_working r t"
| "tracker_step (now, Reachability r s) t = snd (h3_reachability_for_route now r s t)"

definition tracker_run :: "(nat \<times> ('r, 'o) tracker_op) list \<Rightarrow> BrokenQuicConfig \<Rightarrow> ('r, 'o) BrokenQuicTracker" where
  "tracker_run ops config = fold tracker_step ops (with_config config)"

text \<open>
  Both maps have unique keys, are within their limits, and hold only failures up to \<open>T\<close> with bounded cooldowns. A
  configured cap of zero still lets the map hold one entry: the eviction comes before the insertion.
\<close>

definition bounded_map :: "('v \<Rightarrow> nat) \<Rightarrow> ('v \<Rightarrow> nat) \<Rightarrow> nat \<Rightarrow> nat \<Rightarrow> nat \<Rightarrow> ('k \<times> 'v) list \<Rightarrow> bool" where
  "bounded_map failed_at cooldown limit c T m \<longleftrightarrow>
     distinct (map fst m) \<and> length m \<le> max 1 limit \<and>
     list_all (\<lambda>x. failed_at (snd x) \<le> T \<and> cooldown (snd x) \<le> c) m"

definition tracker_inv :: "BrokenQuicConfig \<Rightarrow> nat \<Rightarrow> ('r, 'o) BrokenQuicTracker \<Rightarrow> bool" where
  "tracker_inv config T t \<longleftrightarrow>
     bt_config t = config \<and>
     bounded_map be_failed_at be_cooldown (bc_max_entries config) (cooldown_limit config) T (bt_broken t) \<and>
     bounded_map br_failed_at br_cooldown (bc_max_route_entries config) (bc_route_cooldown config) T (bt_broken_routes t)"

lemma oldest_mem: "m \<noteq> [] \<Longrightarrow> \<exists>k \<in> fst ` set m. oldest f m = Some k"
proof (induction f m rule: oldest.induct)
  case (3 f k v k' v' xs)
  then show ?case by (cases "f v \<le> f v'") auto
qed auto

text \<open>The evicted entry is one of the oldest.\<close>

lemma oldest_least: "oldest f m = Some k \<Longrightarrow> \<exists>v. (k, v) \<in> set m \<and> (\<forall>(k', v') \<in> set m. f v \<le> f v')"
proof (induction f m rule: oldest.induct)
  case (3 f k1 v1 k2 v2 xs)
  show ?case
  proof (cases "f v1 \<le> f v2")
    case True
    then obtain v where "(k, v) \<in> set ((k1, v1) # xs)" "\<forall>(k', v') \<in> set ((k1, v1) # xs). f v \<le> f v'" using 3 by auto
    then show ?thesis using True by (intro exI [of _ v]) auto
  next
    case False
    then obtain v where "(k, v) \<in> set ((k2, v2) # xs)" "\<forall>(k', v') \<in> set ((k2, v2) # xs). f v \<le> f v'" using 3 by auto
    then show ?thesis using False by (intro exI [of _ v]) auto
  qed
qed auto

lemma length_update: "length (AList.update k v m) = (if k \<in> fst ` set m then length m else Suc (length m))"
  by (induction m) auto

lemma list_all_update: "list_all P m \<Longrightarrow> P (k, v) \<Longrightarrow> list_all P (AList.update k v m)"
  by (induction m) auto

lemma length_delete: "k \<in> fst ` set m \<Longrightarrow> length (AList.delete k m) < length m"
proof -
  assume "k \<in> fst ` set m"
  then obtain v where "(k, v) \<in> set m" by auto
  then show ?thesis unfolding AList.delete_eq by (rule length_filter_less) simp
qed

lemma bounded_delete: "bounded_map f g n c T m \<Longrightarrow> bounded_map f g n c T (AList.delete k m)"
  unfolding bounded_map_def AList.delete_eq
  by (auto simp: distinct_map_filter list_all_iff intro: order_trans [OF length_filter_le])

lemma bounded_evict:
  assumes "bounded_map f g n c T m"
  shows "bounded_map f g n c T (evict_for f n k m)" "k \<notin> fst ` set (evict_for f n k m) \<Longrightarrow> length (evict_for f n k m) < max 1 n"
proof -
  show "bounded_map f g n c T (evict_for f n k m)"
    using assms bounded_delete by (auto simp: evict_for_def split: option.split)
  assume k: "k \<notin> fst ` set (evict_for f n k m)"
  have m: "length m \<le> max 1 n" using assms by (simp add: bounded_map_def)
  show "length (evict_for f n k m) < max 1 n"
  proof (cases "map_of m k = None \<and> n \<le> length m \<and> m \<noteq> []")
    case True
    then obtain victim where "victim \<in> fst ` set m" "oldest f m = Some victim" using oldest_mem [of m f] by blast
    then show ?thesis using True m length_delete [of victim m] by (simp add: evict_for_def)
  next
    case False
    then have "evict_for f n k m = m" by (auto simp: evict_for_def)
    then show ?thesis using False k by (auto simp: map_of_eq_None_iff)
  qed
qed

lemma bounded_insert:
  assumes "bounded_map f g n c T m" "f v \<le> T" "g v \<le> c"
  shows "bounded_map f g n c T (AList.update k v (evict_for f n k m))"
  using bounded_evict [OF assms(1), of k] assms(2,3)
  by (auto simp: bounded_map_def length_update distinct_update list_all_update)

lemma bounded_later: "bounded_map f g n c T m \<Longrightarrow> T \<le> T' \<Longrightarrow> bounded_map f g n c T' m"
  by (auto simp: bounded_map_def list_all_iff)

lemma mark_broken_inv:
  "tracker_inv config T t \<Longrightarrow> now \<le> T \<Longrightarrow> tracker_inv config T (mark_broken_for_route now r s t)"
  unfolding tracker_inv_def mark_broken_for_route_def Let_def by (simp add: bounded_insert cooldown_le_limit)

lemma mark_route_broken_inv:
  "tracker_inv config T t \<Longrightarrow> now \<le> T \<Longrightarrow> tracker_inv config T (mark_route_broken now r reason t)"
  unfolding tracker_inv_def mark_route_broken_def Let_def by (simp add: bounded_insert)

lemma is_route_broken_inv: "tracker_inv config T t \<Longrightarrow> tracker_inv config T (snd (is_route_broken now r t))"
  unfolding tracker_inv_def is_route_broken_def by (simp add: bounded_delete split: option.split)

lemma is_broken_inv:
  assumes "tracker_inv config T t"
  shows "tracker_inv config T (snd (is_broken_for_route now r s t))"
proof -
  obtain b t1 where r: "is_route_broken now r t = (b, t1)" by fastforce
  then have "tracker_inv config T t1" using is_route_broken_inv [OF assms, of now r] by simp
  then show ?thesis
    using assms unfolding is_broken_for_route_def r
    by (simp add: tracker_inv_def bounded_delete split: option.split)
qed

lemma tracker_step_inv:
  assumes "tracker_inv config T t" "now \<le> T"
  shows "tracker_inv config T (tracker_step (now, p) t)"
proof (cases p)
  case (MarkWorking r s)
  then show ?thesis using assms by (simp add: tracker_inv_def mark_working_for_route_def bounded_delete)
next
  case (MarkRouteWorking r)
  then show ?thesis using assms by (simp add: tracker_inv_def mark_route_working_def bounded_delete)
next
  case (Reachability r s)
  then show ?thesis
    using assms by (simp add: tracker_inv_def h3_reachability_for_route_def bounded_delete split: option.split)
qed (simp_all add: assms mark_broken_inv mark_route_broken_inv is_route_broken_inv is_broken_inv)

lemma tracker_run_inv:
  assumes "list_all (\<lambda>x. fst x \<le> T) ops"
  shows "tracker_inv config T (tracker_run ops config)"
proof -
  have "tracker_inv config T t \<Longrightarrow> tracker_inv config T (fold tracker_step ops t)" for t :: "('a, 'b) BrokenQuicTracker"
    using assms
  proof (induction ops arbitrary: t)
    case (Cons x ops)
    then show ?case using tracker_step_inv [of config T t "fst x" "snd x"] by simp
  qed simp
  then show ?thesis by (simp add: tracker_run_def tracker_inv_def with_config_def bounded_map_def)
qed

lemma bounded_lookup:
  "bounded_map f g n c T m \<Longrightarrow> map_of m k = Some v \<Longrightarrow> f v \<le> T \<and> g v \<le> c"
  by (auto simp: bounded_map_def list_all_iff dest!: map_of_SomeD)

lemma map_of_update_hit: "map_of (AList.update k v m) k = Some v"
  by (simp add: update_conv)

lemma is_broken_conv:
  assumes "bc_enabled (bt_config t)"
  shows "fst (is_broken_for_route now r s t) \<longleftrightarrow>
    (\<exists>x. map_of (bt_broken_routes t) r = Some x \<and> now - br_failed_at x < br_cooldown x) \<or>
    (\<exists>x. map_of (bt_broken t) (r, s) = Some x \<and> now - be_failed_at x < be_cooldown x)"
  using assms by (auto simp: is_broken_for_route_def is_route_broken_def split: option.splits if_splits)

text \<open>A failure just recorded has the present instant and the cooldown of its count.\<close>

lemma mark_broken_entry:
  obtains n where "1 \<le> n" "map_of (bt_broken (mark_broken_for_route now r s t)) (r, s) =
    Some \<lparr>be_failed_at = now, be_cooldown = cooldown_for_failure (bt_config t) n, be_failure_count = n\<rparr>"
proof -
  have "1 \<le> sat_inc n" for n
    by (simp add: sat_inc_def word_le_nat_alt unat_gt_0 Suc_le_eq add_eq_0_iff2)
  then show ?thesis
    using that by (simp add: mark_broken_for_route_def Let_def map_of_update_hit split: option.splits if_splits)
qed

lemma cooldown_at_least: "min (bc_initial_cooldown config) (bc_max_cooldown config) \<le> cooldown_for_failure config n"
  by (auto simp: cooldown_for_failure_def Let_def)

lemma released:
  assumes "tracker_inv config T t" "T + max (bc_route_cooldown config) (cooldown_limit config) \<le> now"
  shows "\<not> fst (is_broken_for_route now r s t)"
proof (cases "bc_enabled (bt_config t)")
  case True
  have "\<not> now - br_failed_at v < br_cooldown v" if "map_of (bt_broken_routes t) r = Some v" for v
    using bounded_lookup [OF _ that, of br_failed_at br_cooldown "bc_max_route_entries config" "bc_route_cooldown config" T] assms
    by (auto simp: tracker_inv_def)
  moreover have "\<not> now - be_failed_at v < be_cooldown v" if "map_of (bt_broken t) (r, s) = Some v" for v
    using bounded_lookup [OF _ that, of be_failed_at be_cooldown "bc_max_entries config" "cooldown_limit config" T] assms
    by (auto simp: tracker_inv_def)
  ultimately show ?thesis using is_broken_conv [OF True] by blast
qed (simp add: is_broken_for_route_def)

text \<open>
  C29. The quarantine of QUIC is bounded in space and time, and does quarantine. After any sequence of failures, recoveries
  and queries at any instants up to \<open>T\<close>: each table has at most as many entries as its configured cap, or one entry when
  the cap is zero. A query is answered "broken" exactly when quarantine is enabled and the route or the origin has a
  recorded failure whose cooldown has not passed; in particular, with quarantine enabled, a failure recorded last is
  reported for at least the initial cooldown (or the maximal one if that is shorter), and a failure of the route for the
  route cooldown. Once the longest cooldown has passed after \<open>T\<close>, no origin on any route is reported as broken. The longest
  cooldown is the route cooldown or the configured maximum, or the initial cooldown when that exceeds the maximum.
\<close>
theorem quarantine_bounded:
  fixes config :: BrokenQuicConfig and ops :: "(nat \<times> ('r, 'o) tracker_op) list"
  assumes "list_all (\<lambda>x. fst x \<le> T) ops"
  defines "t \<equiv> tracker_run ops config"
  defines "longest \<equiv> (if bc_initial_cooldown config \<le> bc_max_cooldown config then bc_max_cooldown config
                     else bc_initial_cooldown config)"
  shows "length (bt_broken t) \<le> (if bc_max_entries config = 0 then 1 else bc_max_entries config) \<and>
    length (bt_broken_routes t) \<le> (if bc_max_route_entries config = 0 then 1 else bc_max_route_entries config) \<and>
    (fst (is_broken_for_route now r s t) \<longleftrightarrow> bc_enabled config \<and>
      ((\<exists>x. map_of (bt_broken_routes t) r = Some x \<and> now - br_failed_at x < br_cooldown x) \<or>
       (\<exists>x. map_of (bt_broken t) (r, s) = Some x \<and> now - be_failed_at x < be_cooldown x))) \<and>
    (bc_enabled config \<and> now - at < min (bc_initial_cooldown config) (bc_max_cooldown config) \<longrightarrow>
      fst (is_broken_for_route now r s (mark_broken_for_route at r s t))) \<and>
    (bc_enabled config \<and> now - at < bc_route_cooldown config \<longrightarrow>
      fst (is_broken_for_route now r s (mark_route_broken at r reason t))) \<and>
    (T + bc_route_cooldown config \<le> now \<and> T + longest \<le> now \<longrightarrow> \<not> fst (is_broken_for_route now r s t))"
proof -
  have inv: "tracker_inv config T t" unfolding t_def using assms(1) by (rule tracker_run_inv)
  then have size: "length (bt_broken t) \<le> max 1 (bc_max_entries config)"
    "length (bt_broken_routes t) \<le> max 1 (bc_max_route_entries config)" and cfg: "bt_config t = config"
    by (simp_all add: tracker_inv_def bounded_map_def)
  have off: "\<not> bc_enabled config \<Longrightarrow> \<not> fst (is_broken_for_route now r s t)" using cfg by (simp add: is_broken_for_route_def)
  have origin: "fst (is_broken_for_route now r s (mark_broken_for_route at r s t))"
    if q: "bc_enabled config" "now - at < min (bc_initial_cooldown config) (bc_max_cooldown config)"
  proof -
    obtain n where n: "map_of (bt_broken (mark_broken_for_route at r s t)) (r, s) =
        Some \<lparr>be_failed_at = at, be_cooldown = cooldown_for_failure config n, be_failure_count = n\<rparr>"
      using mark_broken_entry [of at r s t] cfg by metis
    have "bc_enabled (bt_config (mark_broken_for_route at r s t))"
      using q cfg by (simp add: mark_broken_for_route_def Let_def)
    from is_broken_conv [OF this, of now r s] show ?thesis
      using n order.strict_trans2 [OF q(2) cooldown_at_least] by auto
  qed
  have route: "fst (is_broken_for_route now r s (mark_route_broken at r reason t))"
    if "bc_enabled config" "now - at < bc_route_cooldown config"
    using that cfg by (subst is_broken_conv) (simp_all add: mark_route_broken_def Let_def map_of_update_hit)
  have late: "\<not> fst (is_broken_for_route now r s t)"
    if l: "T + bc_route_cooldown config \<le> now" "T + longest \<le> now"
    by (rule released [OF inv]) (use l in \<open>auto simp: longest_def cooldown_limit_def max_def\<close>)
  show ?thesis
    using size is_broken_conv [of t now r s] cfg off origin route late by (auto split: if_splits)
qed

theorem quarantine_bounded_witness:
  "list_all (\<lambda>x. fst x \<le> 5) [(3, MarkBroken 1 2), (5, MarkRouteBroken 1 ProxyUdpUnavailable) :: nat \<times> (nat, nat) tracker_op] \<and>
   fst (is_broken_for_route 8 (1 :: nat) (3 :: nat) (mark_broken_for_route 7 1 3
     (tracker_run [(3, MarkBroken 1 2), (5, MarkRouteBroken 1 ProxyUdpUnavailable)] broken_quic_config_default))) \<and>
   \<not> fst (is_broken_for_route (5 + from_secs (60 * 60)) (1 :: nat) (2 :: nat)
     (tracker_run [(3, MarkBroken 1 2), (5, MarkRouteBroken 1 ProxyUdpUnavailable)] broken_quic_config_default))"
proof -
  let ?ops = "[(3, MarkBroken 1 2), (5, MarkRouteBroken 1 ProxyUdpUnavailable)] :: (nat \<times> (nat, nat) tracker_op) list"
  let ?c = broken_quic_config_default
  have t: "list_all (\<lambda>x. fst x \<le> 5) ?ops" by simp
  have c: "bc_enabled ?c" "8 - 7 < min (bc_initial_cooldown ?c) (bc_max_cooldown ?c)"
    "5 + bc_route_cooldown ?c \<le> 5 + from_secs (60 * 60)"
    "5 + (if bc_initial_cooldown ?c \<le> bc_max_cooldown ?c then bc_max_cooldown ?c else bc_initial_cooldown ?c)
       \<le> 5 + from_secs (60 * 60)"
    by (simp_all add: broken_quic_config_default_def from_secs_def)
  show ?thesis
    using quarantine_bounded [OF t, of ?c 8 1 3 7] quarantine_bounded [OF t, of ?c "5 + from_secs (60 * 60)" 1 2] c t
    by blast
qed

end
