(* ===== verification/Spec2Isabelle.thy ===== *)
theory Spec2Isabelle
  imports H2_Wire H2_Recv H2_Driver H2_Synthesis Tls_Record Tls_ServerHello Socks5_Udp Broken_Quic
begin

text \<open>
  A verification library for lkrequest, a Rust HTTP client with control over its TLS, HTTP/2 and HTTP/3 wire format.

  \<^bold>\<open>The program.\<close> The workspace has one crate per protocol layer: \<^verbatim>\<open>lktls\<close> (TLS 1.2 and 1.3), \<^verbatim>\<open>lkh2\<close> (HTTP/2),
  \<^verbatim>\<open>lkh3\<close> and \<^verbatim>\<open>lkquic\<close> (HTTP/3 over third-party libraries), \<^verbatim>\<open>lkrequest\<close> (client, sessions, pools, proxies),
  \<^verbatim>\<open>lkprofile\<close> and the tools (fingerprints). A request travels from a session to the HTTP/2 driver, which owns a
  connection engine. The engine turns requests into frames under flow control and turns inbound bytes into events. The
  frame codec and the HPACK encoder give the bytes, and the record layer of \<^verbatim>\<open>lktls\<close> protects them.

  The library models the whole of \<^verbatim>\<open>lkh2\<close> except the client side of its channels; the errors, key schedules, ciphers,
  record layer and ServerHello parser of \<^verbatim>\<open>lktls\<close>; the SOCKS5 datagram framing and the QUIC quarantine of \<^verbatim>\<open>lkrequest\<close>.

  \<^bold>\<open>Conventions.\<close> Machine integers are words (\<open>u8\<close>, \<open>u16\<close>, \<open>u32\<close>, \<open>u64\<close>); an \<^verbatim>\<open>i32\<close> window is an \<open>int\<close> whose checked
  operations carry the bounds of the type; \<^verbatim>\<open>usize\<close> is \<open>nat\<close>. \<^verbatim>\<open>Result<T, E>\<close> is \<open>'e + 't\<close> with the error on the left,
  a struct is a record, an enum a datatype, a \<^verbatim>\<open>HashMap\<close> an association list whose order no theorem uses, bytes on the
  wire are lists of \<open>u8\<close> and messages are \<open>string\<close>. A method with \<^verbatim>\<open>&mut self\<close> returns the changed record. Names are those
  of the source, with a prefix where two types have a method of the same name (\<open>stream_open\<close>, \<open>conn_new\<close>).

  \<^bold>\<open>Third-party code\<close> is an argument: \<open>hpack_ops\<close> (the HPACK decoder of the hpack crate), \<open>engine_ops\<close> (that decoder and
  the flow control policy, a trait object), \<open>driver_env\<close> (socket, timers, channels), \<open>crypto_ops\<close> (aws-lc-rs: AEAD, HMAC,
  HKDF, AES-CBC, digests, random bytes), random generators and base64. What a theorem needs of them is a named predicate
  (\<open>aead_ok\<close>: opening undoes sealing and a sealed text is one tag longer; \<open>hmac_ok\<close>, \<open>cbc_ok\<close>, \<open>rng_ok\<close>, \<open>hkdf_ok\<close>:
  lengths, acceptance of a correct tag, inversion), and \<open>toy_crypto\<close>, whose derived keys depend on all inputs, satisfies
  them all; \<open>decoder_conforms\<close>: the HPACK decoder reads what RFC 7541 accepts, satisfied by \<open>rfc_hpack\<close>.

  \<^bold>\<open>The theories, in the order of the layers.\<close>

  \<^item> \<^verbatim>\<open>Prelude\<close>: types, big-endian numbers and their inverses, \<open>chunks\<close>, lemmas on lists, association lists and words.
    \<^verbatim>\<open>Rust_Str\<close>: the string methods the sources use (\<^verbatim>\<open>split\<close>, \<^verbatim>\<open>trim\<close>, \<^verbatim>\<open>parse\<close>, \<^verbatim>\<open>from_utf8_lossy\<close>).
  \<^item> \<^verbatim>\<open>H2_Frame\<close>, \<^verbatim>\<open>H2_Codec\<close> (\<^verbatim>\<open>lkh2/src/frame.rs\<close>, \<^verbatim>\<open>codec.rs\<close>): all ten frame types and unknown ones. Decoding
    inverts encoding for every well-formed frame, accepts of the ten types only well-formed frames within the size limit,
    and does not depend on how bytes arrive.
  \<^item> \<^verbatim>\<open>H2_Stream\<close> (\<^verbatim>\<open>stream.rs\<close>): the state machine refines a log of what happened to the stream, and both windows are an exact
    ledger.
  \<^item> \<^verbatim>\<open>Hpack_Table\<close>, \<^verbatim>\<open>Huffman_Table\<close>, \<^verbatim>\<open>Hpack_Huffman\<close>, \<^verbatim>\<open>Hpack_Enc\<close>, \<^verbatim>\<open>Hpack\<close> (\<^verbatim>\<open>hpack_enc/*.rs\<close>, \<^verbatim>\<open>hpack.rs\<close>): a
    decoder written from RFC 7541 reads back every sequence of encoded blocks; the table keeps its size; the bit packing of
    the Huffman encoder is the concatenation of the code words; header lists survive encoder and decoder wrapper.
  \<^item> \<^verbatim>\<open>H2_Policy\<close> (\<^verbatim>\<open>policy.rs\<close>): write, flow control and header policies. The traits are the locales
    \<open>frame_write_policy\<close>, \<open>flow_control_policy\<close> and \<open>exact_flow_policy\<close>, interpreted on every implementation of the crate.
  \<^item> \<^verbatim>\<open>H2_Profile\<close>, \<^verbatim>\<open>H2_Synthesis\<close> (\<^verbatim>\<open>profile.rs\<close>, \<^verbatim>\<open>synthesis.rs\<close>): browser profiles, priority headers, ALPS, and the
    randomised recombination of profiles, whose results are valid for every random generator.
  \<^item> \<^verbatim>\<open>H2_Conn\<close>, \<^verbatim>\<open>H2_Assembler\<close>, \<^verbatim>\<open>H2_Engine\<close> (\<^verbatim>\<open>conn_state.rs\<close>, \<^verbatim>\<open>engine.rs\<close>): connection state, assembly of header
    blocks, all frame handlers, request building and the processing loop.
  \<^item> \<^verbatim>\<open>H2_Send\<close>, \<^verbatim>\<open>H2_Invariant\<close>, \<^verbatim>\<open>H2_Wire\<close>, \<^verbatim>\<open>H2_Recv\<close>: what the engine does. The sending loop refines a specification,
    every body is delivered in order (sent bytes followed by waiting bytes), a request survives the way through the
    peer's codec, assembler and decoder, both ends agree after the preface, the receive credit is accounted for and
    under the preset policies the connection window never stalls but for refused bytes.
  \<^item> \<^verbatim>\<open>H2_Driver\<close> (\<^verbatim>\<open>driver.rs\<close>, \<^verbatim>\<open>adapter.rs\<close>): the driver task as a run over turns (a read, a command, a timer, a closed
    channel), with the notices that callers receive as its output. Every request is answered exactly once or still open.
  \<^item> \<^verbatim>\<open>Tls_Error\<close>, \<^verbatim>\<open>Tls_Crypto\<close>, \<^verbatim>\<open>Tls_Kdf\<close>, \<^verbatim>\<open>Tls_Cipher\<close> (\<^verbatim>\<open>lktls/src/error.rs\<close>, \<^verbatim>\<open>crypto/*.rs\<close>): alerts, the TLS 1.2
    PRF against its definition in RFC 5246, HKDF labels, the QUIC Initial keys against the constants printed in RFC 9001, cipher
    suites, the three TLS 1.2 protections.
  \<^item> \<^verbatim>\<open>Tls_Record\<close> (\<^verbatim>\<open>lktls/src/record/*.rs\<close>): writer and reader. The locale \<open>record_cipher\<close> states what the record layer
    needs of a TLS 1.2 protection and is interpreted on GCM, ChaCha20-Poly1305 and CBC. Whatever is written is read.
  \<^item> \<^verbatim>\<open>Tls_ServerHello\<close> (\<^verbatim>\<open>lktls/src/handshake/server_hello.rs\<close>): the parser against a grammar of the message. A
    HelloRetryRequest is accepted exactly when it is strict; the quick version detection and the parser read the version
    by different rules, which agree when \<^verbatim>\<open>supported_versions\<close> occurs at most once and with two bytes.
  \<^item> \<^verbatim>\<open>Socks5_Udp\<close> (\<^verbatim>\<open>lkrequest/src/proxy/socks5_udp.rs\<close>): relays that read as RFC 1928 prescribes learn exactly the
    destinations of a nested datagram, and the last forwards the payload.
  \<^item> \<^verbatim>\<open>Broken_Quic\<close> (\<^verbatim>\<open>lkrequest/src/alt_svc.rs\<close>, \<^verbatim>\<open>BrokenQuicTracker\<close>): the tables of broken origins and routes stay within
    their caps over every run (a cap of zero still holds one entry), a failure is reported while it cools down, and
    every quarantine ends.

  \<^bold>\<open>Termination and fuel.\<close> No definition of the program has fuel; only the decoder of the RFC 7541
  specification counts down the bytes of its block, of which every step takes one. Structural loops are \<open>fun\<close>; loops over a shrinking buffer
  (\<open>process\<close>, \<open>read_all\<close>, \<open>extension_loop\<close>, \<open>flush_loop\<close>, the eviction loops) have termination proofs. Loops of the
  source that end only because of an invariant are \<open>partial_function (option)\<close>: the sending loop, which a peer frame size of zero would keep running,
  and the PRF loop, which an empty HMAC would keep running. Theorems about them state that they return.
  The only numeric bounds in hypotheses are those of the machine types and of the protocols: lengths and sequence
  numbers below the limit of their type, stream ids below \<open>2 ^ 31\<close>, blocks of at most 65535 bytes.

  \<^bold>\<open>Not modelled.\<close> In \<^verbatim>\<open>lkh2\<close>: logging, the channel and semaphore handles of \<^verbatim>\<open>driver.rs\<close> and the wrappers of
  \<^verbatim>\<open>adapter.rs\<close> around http types, which only pass values between tasks. In \<^verbatim>\<open>lktls\<close>: the key exchange, certificate
  verification and ECH, which are calls of third-party cryptography; the handshake flows, which interleave these with
  socket input; the session cache, which is a concurrent map with a clock. \<^verbatim>\<open>lkquic\<close>, \<^verbatim>\<open>lkh3\<close> and \<^verbatim>\<open>lktls-quic\<close> wrap the
  quinn and h3 libraries. The rest of \<^verbatim>\<open>lkrequest\<close> orchestrates sockets, resolvers and pools under an asynchronous runtime,
  \<^verbatim>\<open>lkrequest-ffi\<close> exports it through raw pointers, and \<^verbatim>\<open>lkprofile\<close> and the tools work on captures offline.
\<close>

end
